(* ===== verification/Slope_Prelude.thy ===== *)
theory Slope_Prelude
  imports Main "HOL-Library.Word"
begin

text \<open>
  Shared vocabulary of the Slope development: the machine integer types of the Rust sources, the
  integer methods of the Rust core library the sources call (\<open>checked_\<dots>\<close>, \<open>saturating_\<dots>\<close>,
  \<open>wrapping_\<dots>\<close>), \<open>Result\<close> as a sum with its \<open>?\<close> operator, fixed-size arrays as lists, and the
  collections of facts the component theories draw on.

  Conventions.  An unsigned integer \<open>uN\<close> is an \<open>N word\<close>; a signed one is the same word, read
  with \<open>sint\<close>.  \<open>usize\<close> is 64 bits wide (the sources target x86-64).  Where an index or a length
  is provably small it is a \<open>nat\<close>; where the width matters the word type is kept.
\<close>

unbundle bit_operations_syntax

named_theorems rust_arith "Rust integer methods as statements about unat"
named_theorems rust_result "Rust Result and Option plumbing"
named_theorems rust_array "fixed-size arrays as lists"

section \<open>Types\<close>

type_synonym u8 = "8 word"
type_synonym u16 = "16 word"
type_synonym u32 = "32 word"
type_synonym u64 = "64 word"
type_synonym usize = "64 word"
type_synonym i16 = "16 word"
type_synonym i32 = "32 word"
type_synonym i64 = "64 word"
type_synonym isize = "64 word"
type_synonym bytes = "8 word list"
type_synonym ('e, 'a) result = "'e + 'a"

abbreviation Err :: "'e \<Rightarrow> ('e, 'a) result" where "Err \<equiv> Inl"
abbreviation Ok :: "'a \<Rightarrow> ('e, 'a) result" where "Ok \<equiv> Inr"

section \<open>Result\<close>

definition and_then :: "('e, 'a) result \<Rightarrow> ('a \<Rightarrow> ('e, 'b) result) \<Rightarrow> ('e, 'b) result" where
  "and_then r f = (case r of Inl e \<Rightarrow> Inl e | Inr x \<Rightarrow> f x)"

definition map_err :: "('e \<Rightarrow> 'f) \<Rightarrow> ('e, 'a) result \<Rightarrow> ('f, 'a) result" where
  "map_err g r = (case r of Inl e \<Rightarrow> Inl (g e) | Inr x \<Rightarrow> Inr x)"

definition ok_or :: "'e \<Rightarrow> 'a option \<Rightarrow> ('e, 'a) result" where
  "ok_or e x = (case x of None \<Rightarrow> Inl e | Some v \<Rightarrow> Inr v)"

definition is_ok :: "('e, 'a) result \<Rightarrow> bool" where
  "is_ok r = (case r of Inl _ \<Rightarrow> False | Inr _ \<Rightarrow> True)"

definition guard_err :: "bool \<Rightarrow> 'e \<Rightarrow> ('e, 'a) result \<Rightarrow> ('e, 'a) result" where
  "guard_err b e r = (if b then Inl e else r)"

lemma and_then_simps [simp]:
  "and_then (Inl e) f = Inl e"
  "and_then (Inr x) f = f x"
  by (simp_all add: and_then_def)

lemma and_then_Inr_iff [rust_result]:
  "and_then r f = Inr y \<longleftrightarrow> (\<exists>x. r = Inr x \<and> f x = Inr y)"
  by (cases r) simp_all

lemma and_then_Inl_iff [rust_result]:
  "and_then r f = Inl e \<longleftrightarrow> r = Inl e \<or> (\<exists>x. r = Inr x \<and> f x = Inl e)"
  by (cases r) simp_all

lemma map_err_simps [simp]:
  "map_err g (Inl e) = Inl (g e)"
  "map_err g (Inr x) = Inr x"
  by (simp_all add: map_err_def)

lemma map_err_Inr_iff [simp]: "map_err g r = Inr x \<longleftrightarrow> r = Inr x"
  by (cases r) simp_all

lemma ok_or_simps [simp]:
  "ok_or e None = Inl e"
  "ok_or e (Some x) = Inr x"
  by (simp_all add: ok_or_def)

lemma ok_or_Inr_iff [rust_result]: "ok_or e x = Inr v \<longleftrightarrow> x = Some v"
  by (cases x) simp_all

lemma ok_or_Inl_iff [rust_result]: "ok_or e x = Inl f \<longleftrightarrow> x = None \<and> f = e"
  by (cases x) auto

lemma guard_err_simps [simp]:
  "guard_err True e r = Inl e"
  "guard_err False e r = r"
  by (simp_all add: guard_err_def)

lemma guard_err_Inr_iff [simp]: "guard_err b e r = Inr x \<longleftrightarrow> \<not> b \<and> r = Inr x"
  by (simp add: guard_err_def)

lemma guard_err_Inl_iff [rust_result]: "guard_err b e r = Inl f \<longleftrightarrow> (b \<and> f = e) \<or> (\<not> b \<and> r = Inl f)"
  by (auto simp: guard_err_def)

lemma is_ok_simps [simp]:
  "\<not> is_ok (Inl e)"
  "is_ok (Inr x)"
  by (simp_all add: is_ok_def)

lemma is_ok_iff: "is_ok r \<longleftrightarrow> (\<exists>x. r = Inr x)"
  by (cases r) simp_all

section \<open>Integer methods of the Rust core library\<close>

definition checked_add :: "'a::len word \<Rightarrow> 'a word \<Rightarrow> 'a word option" where
  "checked_add a b = (if unat a + unat b < 2 ^ LENGTH('a) then Some (a + b) else None)"

definition checked_sub :: "'a::len word \<Rightarrow> 'a word \<Rightarrow> 'a word option" where
  "checked_sub a b = (if b \<le> a then Some (a - b) else None)"

definition checked_mul :: "'a::len word \<Rightarrow> 'a word \<Rightarrow> 'a word option" where
  "checked_mul a b = (if unat a * unat b < 2 ^ LENGTH('a) then Some (a * b) else None)"

definition checked_div :: "'a::len word \<Rightarrow> 'a word \<Rightarrow> 'a word option" where
  "checked_div a b = (if b = 0 then None else Some (a div b))"

definition saturating_add :: "'a::len word \<Rightarrow> 'a word \<Rightarrow> 'a word" where
  "saturating_add a b = (if unat a + unat b < 2 ^ LENGTH('a) then a + b else - 1)"

definition saturating_sub :: "'a::len word \<Rightarrow> 'a word \<Rightarrow> 'a word" where
  "saturating_sub a b = (if b \<le> a then a - b else 0)"

definition saturating_mul :: "'a::len word \<Rightarrow> 'a word \<Rightarrow> 'a word" where
  "saturating_mul a b = (if unat a * unat b < 2 ^ LENGTH('a) then a * b else - 1)"

text \<open>Checked \<open>usize\<close> arithmetic where the operands are modelled as natural numbers.\<close>

definition checked_usize :: "nat \<Rightarrow> nat option" where
  "checked_usize n = (if n < 2 ^ 64 then Some n else None)"

text \<open>The idiom \<open>x.wrapping_add(1).max(1)\<close>, used by every client that numbers its messages.\<close>

definition wrapping_next :: "'a::len word \<Rightarrow> 'a word" where
  "wrapping_next x = max (x + 1) 1"

lemma checked_usize_Some_iff [rust_arith]: "checked_usize n = Some m \<longleftrightarrow> m = n \<and> n < 2 ^ 64"
  by (auto simp: checked_usize_def)

lemma checked_usize_None_iff [rust_arith]: "checked_usize n = None \<longleftrightarrow> 2 ^ 64 \<le> n"
  by (auto simp: checked_usize_def)

lemma checked_add_Some_iff [rust_arith]:
  fixes a b c :: "'a::len word"
  shows "checked_add a b = Some c \<longleftrightarrow> unat a + unat b = unat c"
proof -
  have "unat c < 2 ^ LENGTH('a)" by (rule unsigned_less)
  then show ?thesis
    by (auto simp: checked_add_def unat_word_ariths word_unat_eq_iff)
qed

lemma checked_add_None_iff [rust_arith]:
  fixes a b :: "'a::len word"
  shows "checked_add a b = None \<longleftrightarrow> 2 ^ LENGTH('a) \<le> unat a + unat b"
  by (auto simp: checked_add_def)

lemma checked_mul_Some_iff [rust_arith]:
  fixes a b c :: "'a::len word"
  shows "checked_mul a b = Some c \<longleftrightarrow> unat a * unat b = unat c"
proof -
  have "unat c < 2 ^ LENGTH('a)" by (rule unsigned_less)
  then show ?thesis
    by (auto simp: checked_mul_def unat_word_ariths word_unat_eq_iff)
qed

lemma checked_mul_None_iff [rust_arith]:
  fixes a b :: "'a::len word"
  shows "checked_mul a b = None \<longleftrightarrow> 2 ^ LENGTH('a) \<le> unat a * unat b"
  by (auto simp: checked_mul_def)

lemma checked_sub_Some_iff [rust_arith]:
  fixes a b c :: "'a::len word"
  shows "checked_sub a b = Some c \<longleftrightarrow> unat a = unat b + unat c"
proof
  assume "checked_sub a b = Some c"
  then have "b \<le> a" and "c = a - b" by (auto simp: checked_sub_def split: if_splits)
  then show "unat a = unat b + unat c" by (simp add: unat_sub word_le_nat_alt)
next
  assume eq: "unat a = unat b + unat c"
  then have "b \<le> a" by (simp add: word_le_nat_alt)
  moreover from this eq have "a - b = c" by (simp add: word_unat_eq_iff unat_sub)
  ultimately show "checked_sub a b = Some c" by (simp add: checked_sub_def)
qed

lemma checked_div_Some_iff [rust_arith]:
  "checked_div a b = Some c \<longleftrightarrow> b \<noteq> 0 \<and> unat c = unat a div unat b"
  by (auto simp: checked_div_def word_unat_eq_iff unat_div)

lemma unat_saturating_add [rust_arith]:
  fixes a b :: "'a::len word"
  shows "unat (saturating_add a b) = min (unat a + unat b) (2 ^ LENGTH('a) - 1)"
  by (auto simp: saturating_add_def unat_word_ariths unsigned_minus_1_eq_mask mask_eq_exp_minus_1)

lemma unat_saturating_sub [rust_arith]: "unat (saturating_sub a b) = unat a - unat b"
  by (auto simp: saturating_sub_def unat_sub word_le_nat_alt)

lemma unat_saturating_mul [rust_arith]:
  fixes a b :: "'a::len word"
  shows "unat (saturating_mul a b) = min (unat a * unat b) (2 ^ LENGTH('a) - 1)"
  by (auto simp: saturating_mul_def unat_word_ariths unsigned_minus_1_eq_mask mask_eq_exp_minus_1)

lemma saturating_sub_zero_left [simp]: "saturating_sub 0 b = 0"
  by (simp add: saturating_sub_def)

lemma wrapping_next_nonzero [simp]: "wrapping_next x \<noteq> 0"
  by (auto simp: wrapping_next_def max_def split: if_splits)

lemma unat_wrapping_next [rust_arith]:
  fixes x :: "'a::len word"
  shows "unat (wrapping_next x) = (if x = - 1 then 1 else unat x + 1)"
proof (cases "x = - 1")
  case True
  then show ?thesis by (simp add: wrapping_next_def max_def)
next
  case False
  then have "unat (x + 1) = unat x + 1"
    by (metis add_uminus_conv_diff eq_neg_iff_add_eq_0 unatSuc Suc_eq_plus1 add.commute)
  with False show ?thesis
    by (simp add: wrapping_next_def max_def word_le_nat_alt)
qed

lemma wrapping_next_increases: "x \<noteq> - 1 \<Longrightarrow> x < wrapping_next x"
  by (simp add: word_less_nat_alt unat_wrapping_next)

lemma unat_wrapping_iterate: "unat ((wrapping_next ^^ n) (1 :: 'a::len word)) = n mod (2 ^ LENGTH('a) - 1) + 1"
proof (induction n)
  case (Suc n)
  let ?x = "(wrapping_next ^^ n) (1 :: 'a word)"
  have "?x = - 1 \<longleftrightarrow> unat ?x = 2 ^ LENGTH('a) - 1"
    by (simp add: word_unat_eq_iff unsigned_minus_1_eq_mask mask_eq_exp_minus_1)
  with Suc show ?case by (auto simp: unat_wrapping_next mod_Suc)
qed simp

lemma unat_ucast_up:
  fixes x :: "'a::len word"
  assumes "LENGTH('a) \<le> LENGTH('b::len)"
  shows "unat (ucast x :: 'b word) = unat x"
proof -
  have "unat x < 2 ^ LENGTH('b)"
    using unsigned_less [of x, where ?'a = nat] assms
    by (meson less_le_trans one_le_numeral power_increasing)
  then show ?thesis by (simp add: unsigned_ucast_eq take_bit_nat_eq_self)
qed

lemma unat_u16_u64 [simp]: "unat (ucast (x :: u16) :: u64) = unat x"
  by (rule unat_ucast_up) simp

lemma unat_u8_u64: "unat (ucast (x :: u8) :: u64) = unat x"
  by (rule unat_ucast_up) simp

lemma unat_u16_less: "unat (x :: u16) < 65536"
  using unsigned_less [of x, where ?'a = nat] by simp

lemma unat_u64_less: "unat (x :: u64) < 18446744073709551616"
  using unsigned_less [of x, where ?'a = nat] by simp

section \<open>Fixed-size arrays and slices\<close>

text \<open>\<open>dst[..src.len()].copy_from_slice(src)\<close>: the source overwrites a prefix of the array.\<close>

definition copy_prefix :: "'a list \<Rightarrow> 'a list \<Rightarrow> 'a list" where
  "copy_prefix dst src = src @ drop (length src) dst"

lemma length_copy_prefix [simp, rust_array]:
  "length src \<le> length dst \<Longrightarrow> length (copy_prefix dst src) = length dst"
  by (simp add: copy_prefix_def)

lemma take_copy_prefix [simp, rust_array]: "take (length src) (copy_prefix dst src) = src"
  by (simp add: copy_prefix_def)

lemma drop_copy_prefix [rust_array]: "drop (length src) (copy_prefix dst src) = drop (length src) dst"
  by (simp add: copy_prefix_def)

text \<open>\<open>iter().position(p)\<close>: the least index whose element satisfies \<open>p\<close>.\<close>

fun position :: "('a \<Rightarrow> bool) \<Rightarrow> 'a list \<Rightarrow> nat option" where
  "position p [] = None"
| "position p (x # xs) = (if p x then Some 0 else map_option Suc (position p xs))"

lemma position_Some_iff [rust_array]:
  "position p xs = Some i \<longleftrightarrow> i < length xs \<and> p (xs ! i) \<and> (\<forall>j < i. \<not> p (xs ! j))"
proof (induction xs arbitrary: i)
  case (Cons x xs)
  then show ?case by (cases i) (auto simp: All_less_Suc2)
qed simp

section \<open>Bit scans\<close>

text \<open>\<open>u64::trailing_zeros\<close>: the index of the lowest set bit, 64 for zero.\<close>

definition trailing_zeros :: "u64 \<Rightarrow> nat" where
  "trailing_zeros w = length (takeWhile (\<lambda>n. \<not> bit w n) [0..<64])"

lemma trailing_zeros_nonzero:
  assumes "w \<noteq> 0"
  shows "trailing_zeros w < 64" "bit w (trailing_zeros w)" "j < trailing_zeros w \<Longrightarrow> \<not> bit w j"
proof -
  let ?P = "\<lambda>n. \<not> bit w n"
  have "\<exists>n < 64. bit w n"
  proof (rule ccontr)
    assume "\<not> (\<exists>n < 64. bit w n)"
    then have "w = 0" by (intro bit_word_eqI) simp
    with assms show False by simp
  qed
  then obtain n where n: "n < 64" "bit w n" by blast
  show lt: "trailing_zeros w < 64"
  proof (rule ccontr)
    assume "\<not> trailing_zeros w < 64"
    then have "takeWhile ?P [0..<64] = [0..<64]"
      unfolding trailing_zeros_def
      by (metis length_takeWhile_le length_upt linorder_not_less minus_nat.diff_0 order_antisym takeWhile_eq_take take_all)
    then have "?P n" using n(1) by (metis atLeastLessThan_upt atLeastLessThan_iff set_takeWhileD zero_le)
    with n show False by simp
  qed
  show "bit w (trailing_zeros w)"
    using nth_length_takeWhile [of ?P "[0..<64]"] lt by (simp add: trailing_zeros_def)
  show "\<not> bit w j" if "j < trailing_zeros w"
  proof -
    have "takeWhile ?P [0..<64] ! j = j"
      using that lt by (simp add: trailing_zeros_def takeWhile_nth)
    then show ?thesis using that nth_mem [of j "takeWhile ?P [0..<64]"]
      by (auto simp: trailing_zeros_def dest: set_takeWhileD)
  qed
qed

lemma clear_bit: "n < 64 \<Longrightarrow> bit (w AND NOT (2 ^ k) :: u64) n \<longleftrightarrow> bit w n \<and> n \<noteq> k"
  by (auto simp: bit_and_iff bit_not_iff bit_exp_iff)

end
