(* ===== verification/Absorber.thy ===== *)
theory Absorber
  imports Slope_Prelude
begin

text \<open>
  Keyed digests.  Three parts of Slope bind records to a 64-bit root by absorbing the fields one
  word at a time: \<open>quantum_crest.rs\<close> (\<open>absorb\<close>), \<open>service_calculus.rs\<close> (\<open>mix\<close>) and, over bytes,
  \<open>env.rs\<close> (\<open>fnv1a_const\<close>).  The locale \<open>absorber\<close> states the contract they share: absorbing is
  injective in the running state and in the absorbed word.  From it follows what a root promises:
  two inputs that differ in exactly one position never have the same digest.
\<close>

section \<open>The contract\<close>

locale absorber =
  fixes absorb_word :: "'s \<Rightarrow> 'w \<Rightarrow> 's"
  assumes inj_state: "absorb_word s w = absorb_word t w \<Longrightarrow> s = t"
    and inj_word: "absorb_word s v = absorb_word s w \<Longrightarrow> v = w"
begin

lemma foldl_inj_state: "foldl absorb_word s ws = foldl absorb_word t ws \<Longrightarrow> s = t"
proof (induction ws arbitrary: s t)
  case (Cons w ws)
  then have "absorb_word s w = absorb_word t w" by simp
  then show ?case by (rule inj_state)
qed simp

lemma foldl_single_change:
  assumes "foldl absorb_word s (xs @ v # ys) = foldl absorb_word s (xs @ w # ys)"
  shows "v = w"
proof -
  let ?m = "foldl absorb_word s xs"
  from assms have "foldl absorb_word (absorb_word ?m v) ys = foldl absorb_word (absorb_word ?m w) ys"
    by simp
  then have "absorb_word ?m v = absorb_word ?m w" by (rule foldl_inj_state)
  then show ?thesis by (rule inj_word)
qed

lemma foldl_update_neq:
  assumes "i < length ws" and "v \<noteq> ws ! i"
  shows "foldl absorb_word s (ws[i := v]) \<noteq> foldl absorb_word s ws"
proof
  assume eq: "foldl absorb_word s (ws[i := v]) = foldl absorb_word s ws"
  from assms(1) have split: "ws[i := v] = take i ws @ v # drop (Suc i) ws"
    by (rule upd_conv_take_nth_drop)
  from assms(1) have whole: "ws = take i ws @ ws ! i # drop (Suc i) ws"
    by (rule id_take_nth_drop)
  have "foldl absorb_word s (take i ws @ v # drop (Suc i) ws)
      = foldl absorb_word s (take i ws @ ws ! i # drop (Suc i) ws)"
    using eq split whole by simp
  then have "v = ws ! i" by (rule foldl_single_change)
  with assms(2) show False by simp
qed

end

section \<open>Invertible word operations\<close>

lemma xor_shift_bit:
  fixes x :: "'a::len word"
  assumes "n < LENGTH('a)"
  shows "bit (x XOR drop_bit k x) n \<longleftrightarrow> bit x n \<noteq> bit x (n + k)"
  using assms by (simp add: bit_xor_iff bit_drop_bit_eq add.commute)

lemma xor_shift_inj:
  fixes x y :: "'a::len word"
  assumes k: "0 < k" and eq: "x XOR drop_bit k x = y XOR drop_bit k y"
  shows "x = y"
proof (rule bit_word_eqI)
  fix n
  assume "n < LENGTH('a)"
  then show "bit x n \<longleftrightarrow> bit y n"
  proof (induction "LENGTH('a) - n" arbitrary: n rule: less_induct)
    case less
    have upper: "bit x (n + k) \<longleftrightarrow> bit y (n + k)"
    proof (cases "n + k < LENGTH('a)")
      case True
      with k less.prems show ?thesis by (intro less.hyps) auto
    next
      case False
      then show ?thesis by (auto dest: bit_imp_le_length)
    qed
    from less.prems have "(bit x n \<noteq> bit x (n + k)) \<longleftrightarrow> (bit y n \<noteq> bit y (n + k))"
      using eq by (metis xor_shift_bit)
    with upper show ?case by auto
  qed
qed

lemma mult_unit_inj:
  fixes a b c d :: "'a::len word"
  assumes "c * d = 1" and "a * c = b * c"
  shows "a = b"
proof -
  have "a * (c * d) = b * (c * d)" using assms(2) by (metis mult.assoc)
  with assms(1) show ?thesis by simp
qed

lemma xor_cancel_right:
  fixes a b c :: "'a::len word"
  assumes "a XOR c = b XOR c"
  shows "a = b"
  using assms by (metis xor.assoc xor.right_neutral xor_self_eq)

lemma xor_cancel_left:
  fixes a b c :: "'a::len word"
  assumes "c XOR a = c XOR b"
  shows "a = b"
  using assms by (metis xor.commute xor_cancel_right)

lemma word_rotl_inj: "word_rotl n a = word_rotl n b \<Longrightarrow> a = b"
  by (metis word_rot_lr)

lemma ucast_up_inj:
  fixes a b :: "'a::len word"
  assumes "LENGTH('a) \<le> LENGTH('b::len)" and "(ucast a :: 'b word) = ucast b"
  shows "a = b"
proof -
  have cast_id: "(ucast (ucast x :: 'b word) :: 'a word) = x" for x :: "'a word"
    using assms(1) by (simp add: ucast_up_ucast_id is_up)
  show ?thesis using assms(2) by (metis cast_id)
qed

end
