(* ===== verification/Bounded_Queue.thy ===== *)
theory Bounded_Queue
  imports Slope_Prelude
begin

text \<open>
  The contract of every bounded first-in first-out transport in Slope: the one-slot mailboxes of
  \<open>quantum_crest.rs\<close> (capacity 1) and the message ring of \<open>ipc.rs\<close> (capacity 128).  A provider
  gives \<open>put\<close>, \<open>get\<close>, the abstract contents and a well-formedness predicate.  Clients get the FIFO
  theorem for arbitrary sequences of calls.
\<close>

section \<open>Call sequences\<close>

datatype 'a queue_op = Put 'a | Get

text \<open>Runs a sequence of calls and records the accepted and the delivered messages in order.\<close>

fun queue_run ::
  "('q \<Rightarrow> 'a \<Rightarrow> 'q \<times> ('e, unit) result) \<Rightarrow> ('q \<Rightarrow> 'q \<times> 'a option) \<Rightarrow> 'q \<Rightarrow> 'a queue_op list
    \<Rightarrow> 'q \<times> 'a list \<times> 'a list" where
  "queue_run put get q [] = (q, [], [])"
| "queue_run put get q (Put x # ops) =
    (case put q x of
       (q', Inl _) \<Rightarrow> queue_run put get q' ops
     | (q', Inr _) \<Rightarrow>
         (case queue_run put get q' ops of (r, sent, recvd) \<Rightarrow> (r, x # sent, recvd)))"
| "queue_run put get q (Get # ops) =
    (case get q of
       (q', None) \<Rightarrow> queue_run put get q' ops
     | (q', Some x) \<Rightarrow>
         (case queue_run put get q' ops of (r, sent, recvd) \<Rightarrow> (r, sent, x # recvd)))"

section \<open>The contract\<close>

locale bounded_queue =
  fixes put :: "'q \<Rightarrow> 'a \<Rightarrow> 'q \<times> ('e, unit) result"
    and get :: "'q \<Rightarrow> 'q \<times> 'a option"
    and contents :: "'q \<Rightarrow> 'a list"
    and wf_queue :: "'q \<Rightarrow> bool"
    and capacity :: nat
    and full :: 'e
  assumes bounded: "wf_queue q \<Longrightarrow> length (contents q) \<le> capacity"
    and put_room: "wf_queue q \<Longrightarrow> length (contents q) < capacity \<Longrightarrow>
      \<exists>q'. put q x = (q', Inr ()) \<and> wf_queue q' \<and> contents q' = contents q @ [x]"
    and put_full: "wf_queue q \<Longrightarrow> length (contents q) = capacity \<Longrightarrow> put q x = (q, Inl full)"
    and get_empty: "wf_queue q \<Longrightarrow> contents q = [] \<Longrightarrow> get q = (q, None)"
    and get_head: "wf_queue q \<Longrightarrow> contents q = x # xs \<Longrightarrow>
      \<exists>q'. get q = (q', Some x) \<and> wf_queue q' \<and> contents q' = xs"
begin

lemma put_cases:
  assumes "wf_queue q"
  obtains (accepted) q' where "put q x = (q', Inr ())" "wf_queue q'" "contents q' = contents q @ [x]"
    | (refused) "put q x = (q, Inl full)" "length (contents q) = capacity"
  using assms bounded put_room put_full by (metis le_neq_implies_less)

lemma get_cases:
  assumes "wf_queue q"
  obtains (delivered) q' x where "get q = (q', Some x)" "wf_queue q'" "contents q = x # contents q'"
    | (empty) "get q = (q, None)" "contents q = []"
  using assms get_empty get_head by (metis list.exhaust)

theorem run_fifo:
  assumes "wf_queue q" and "queue_run put get q ops = (r, sent, recvd)"
  shows "wf_queue r \<and> contents q @ sent = recvd @ contents r"
  using assms
proof (induction ops arbitrary: q r sent recvd)
  case Nil
  then show ?case by simp
next
  case (Cons op ops)
  show ?case
  proof (cases op)
    case (Put x)
    from \<open>wf_queue q\<close> show ?thesis
    proof (cases rule: put_cases[of q x])
      case (accepted q')
      with Cons.prems(2) Put obtain sent' where "sent = x # sent'"
        and "queue_run put get q' ops = (r, sent', recvd)"
        by (auto split: prod.splits)
      with Cons.IH [OF accepted(2)] accepted(3) show ?thesis by fastforce
    next
      case refused
      with Cons.prems Put Cons.IH show ?thesis by simp
    qed
  next
    case Get
    from \<open>wf_queue q\<close> show ?thesis
    proof (cases rule: get_cases)
      case (delivered q' x)
      with Cons.prems(2) Get obtain recvd' where "recvd = x # recvd'"
        and "queue_run put get q' ops = (r, sent, recvd')"
        by (auto split: prod.splits)
      with Cons.IH [OF delivered(2)] delivered(3) show ?thesis by fastforce
    next
      case empty
      with Cons.prems(2) Get have "queue_run put get q ops = (r, sent, recvd)" by simp
      with Cons.IH [OF \<open>wf_queue q\<close>] show ?thesis by simp
    qed
  qed
qed

lemma run_loses_nothing:
  assumes "wf_queue q" and "contents q = []" and "queue_run put get q ops = (r, sent, recvd)"
  shows "sent = recvd @ contents r \<and> length sent \<le> length recvd + capacity"
proof -
  from run_fifo [OF assms(1,3)] assms(2) have r: "wf_queue r" and eq: "sent = recvd @ contents r"
    by simp_all
  from bounded [OF r] have "length (contents r) \<le> capacity" .
  with eq show ?thesis by simp
qed

lemma put_then_get:
  assumes "wf_queue q" and "contents q = []" and "0 < capacity"
  shows "\<exists>q' q''. put q x = (q', Inr ()) \<and> get q' = (q'', Some x) \<and> wf_queue q'' \<and> contents q'' = []"
proof -
  from assms obtain q' where put: "put q x = (q', Inr ())" and wf: "wf_queue q'"
    and cont: "contents q' = [x]"
    using put_room [of q x] by auto
  from get_head [OF wf cont] put show ?thesis by blast
qed

end

end
