(* ===== verification/Mailbox.thy ===== *)
theory Mailbox
  imports Bounded_Queue
begin

text \<open>
  The one-slot mailbox state machine of \<open>quantum_crest.rs\<close>.  \<open>SnapshotCell\<close>, \<open>CommandMailbox\<close> and
  \<open>ReplyMailbox\<close> are the same machine over three payload types, so the record and its operations are
  polymorphic in the payload; \<open>Quantum_Crest\<close> instantiates them.

  The operations are given twice.  \<open>mailbox_publish\<close> and \<open>mailbox_take\<close> are whole calls.
  \<open>mailbox_step\<close> splits them at their atomic accesses (compare-exchange, payload access, release
  store) and interleaves any number of threads; the payload access is a separate step, so a second
  thread could interfere with it if the state word did not exclude it.  The memory model is
  sequentially consistent: each release store is paired with an acquire compare-exchange on the same
  word.
\<close>

section \<open>State and whole calls\<close>

datatype QuantumPortalError = PortalBusy | PortalEmpty | PortalCorrupt | PortalInvalid

definition MAILBOX_FREE :: u32 where "MAILBOX_FREE = 0"
definition MAILBOX_WRITING :: u32 where "MAILBOX_WRITING = 1"
definition MAILBOX_READY :: u32 where "MAILBOX_READY = 2"
definition MAILBOX_READING :: u32 where "MAILBOX_READING = 3"

lemmas mailbox_states = MAILBOX_FREE_def MAILBOX_WRITING_def MAILBOX_READY_def MAILBOX_READING_def

record 'v mailbox =
  mb_state :: u32
  mb_value :: 'v

definition mailbox_new :: "'v \<Rightarrow> 'v mailbox" where
  "mailbox_new v = \<lparr>mb_state = MAILBOX_FREE, mb_value = v\<rparr>"

text \<open>\<open>state.compare_exchange(expected, new, ..)\<close>: the updated cell, or \<open>None\<close> when it fails.\<close>

definition mailbox_cas :: "'v mailbox \<Rightarrow> u32 \<Rightarrow> u32 \<Rightarrow> 'v mailbox option" where
  "mailbox_cas m expected new =
    (if mb_state m = expected then Some (m\<lparr>mb_state := new\<rparr>) else None)"

definition mailbox_publish ::
  "'v mailbox \<Rightarrow> 'v \<Rightarrow> 'v mailbox \<times> (QuantumPortalError, unit) result" where
  "mailbox_publish m v =
    (case mailbox_cas m MAILBOX_FREE MAILBOX_WRITING of
       None \<Rightarrow> (m, Err PortalBusy)
     | Some m1 \<Rightarrow>
         let m2 = m1\<lparr>mb_value := v\<rparr>;
             m3 = m2\<lparr>mb_state := MAILBOX_READY\<rparr>
         in (m3, Ok ()))"

definition mailbox_take ::
  "'v mailbox \<Rightarrow> 'v mailbox \<times> (QuantumPortalError, 'v option) result" where
  "mailbox_take m =
    (case mailbox_cas m MAILBOX_READY MAILBOX_READING of
       None \<Rightarrow> (m, Ok None)
     | Some m1 \<Rightarrow>
         let v = mb_value m1;
             m2 = m1\<lparr>mb_state := MAILBOX_FREE\<rparr>
         in (m2, Ok (Some v)))"

section \<open>Threads and atomic steps\<close>

datatype 'v mailbox_pc =
    Idle
  | Owns_Write 'v
  | Wrote 'v
  | Owns_Read
  | Fetched 'v

record 'v mailbox_sys =
  cell :: "'v mailbox"
  pcs :: "nat \<Rightarrow> 'v mailbox_pc"
  sent :: "'v list"
  recvd :: "'v list"

definition mailbox_sys_init :: "'v \<Rightarrow> 'v mailbox_sys" where
  "mailbox_sys_init v = \<lparr>cell = mailbox_new v, pcs = (\<lambda>_. Idle), sent = [], recvd = []\<rparr>"

inductive mailbox_step :: "'v mailbox_sys \<Rightarrow> 'v mailbox_sys \<Rightarrow> bool" where
  publish_claim: "pcs s t = Idle \<Longrightarrow> mailbox_cas (cell s) MAILBOX_FREE MAILBOX_WRITING = Some m \<Longrightarrow>
    mailbox_step s (s\<lparr>cell := m, pcs := (pcs s)(t := Owns_Write v)\<rparr>)"
| publish_busy: "pcs s t = Idle \<Longrightarrow> mailbox_cas (cell s) MAILBOX_FREE MAILBOX_WRITING = None \<Longrightarrow>
    mailbox_step s s"
| publish_write: "pcs s t = Owns_Write v \<Longrightarrow>
    mailbox_step s (s\<lparr>cell := (cell s)\<lparr>mb_value := v\<rparr>, pcs := (pcs s)(t := Wrote v)\<rparr>)"
| publish_release: "pcs s t = Wrote v \<Longrightarrow>
    mailbox_step s (s\<lparr>cell := (cell s)\<lparr>mb_state := MAILBOX_READY\<rparr>,
      pcs := (pcs s)(t := Idle), sent := sent s @ [v]\<rparr>)"
| take_claim: "pcs s t = Idle \<Longrightarrow> mailbox_cas (cell s) MAILBOX_READY MAILBOX_READING = Some m \<Longrightarrow>
    mailbox_step s (s\<lparr>cell := m, pcs := (pcs s)(t := Owns_Read)\<rparr>)"
| take_none: "pcs s t = Idle \<Longrightarrow> mailbox_cas (cell s) MAILBOX_READY MAILBOX_READING = None \<Longrightarrow>
    mailbox_step s s"
| take_read: "pcs s t = Owns_Read \<Longrightarrow>
    mailbox_step s (s\<lparr>pcs := (pcs s)(t := Fetched (mb_value (cell s)))\<rparr>)"
| take_release: "pcs s t = Fetched v \<Longrightarrow>
    mailbox_step s (s\<lparr>cell := (cell s)\<lparr>mb_state := MAILBOX_FREE\<rparr>,
      pcs := (pcs s)(t := Idle), recvd := recvd s @ [v]\<rparr>)"

inductive mailbox_reachable :: "'v \<Rightarrow> 'v mailbox_sys \<Rightarrow> bool" for v0 where
  start: "mailbox_reachable v0 (mailbox_sys_init v0)"
| step: "mailbox_reachable v0 s \<Longrightarrow> mailbox_step s t \<Longrightarrow> mailbox_reachable v0 t"

section \<open>Whole calls implement a queue of capacity one\<close>

definition mailbox_wf :: "'v mailbox \<Rightarrow> bool" where
  "mailbox_wf m \<longleftrightarrow> mb_state m = MAILBOX_FREE \<or> mb_state m = MAILBOX_READY"

definition mailbox_contents :: "'v mailbox \<Rightarrow> 'v list" where
  "mailbox_contents m = (if mb_state m = MAILBOX_READY then [mb_value m] else [])"

definition mailbox_get :: "'v mailbox \<Rightarrow> 'v mailbox \<times> 'v option" where
  "mailbox_get m = (case mailbox_take m of (m', Inl _) \<Rightarrow> (m', None) | (m', Inr x) \<Rightarrow> (m', x))"

lemma mailbox_wf_new [simp]: "mailbox_wf (mailbox_new v)"
  by (simp add: mailbox_wf_def mailbox_new_def)

lemma mailbox_contents_new [simp]: "mailbox_contents (mailbox_new v) = []"
  by (simp add: mailbox_contents_def mailbox_new_def mailbox_states)

lemmas mailbox_defs = mailbox_publish_def mailbox_take_def mailbox_get_def mailbox_cas_def
  mailbox_wf_def mailbox_contents_def mailbox_states

interpretation mailbox: bounded_queue mailbox_publish mailbox_get mailbox_contents mailbox_wf 1 PortalBusy
  by unfold_locales (auto simp: mailbox_defs split: if_splits)

lemma mailbox_take_ok: "\<exists>x. snd (mailbox_take m) = Inr x"
  by (simp add: mailbox_defs)

section \<open>Interleaved calls\<close>

text \<open>
  The invariant: the state word says which thread owns the payload, and how the histories relate.
\<close>

fun writes :: "'v mailbox_pc \<Rightarrow> bool" where
  "writes (Owns_Write _) = True"
| "writes (Wrote _) = True"
| "writes _ = False"

fun reads :: "'v mailbox_pc \<Rightarrow> bool" where
  "reads Owns_Read = True"
| "reads (Fetched _) = True"
| "reads _ = False"

definition quiet :: "'v mailbox_sys \<Rightarrow> bool" where
  "quiet s \<longleftrightarrow> (\<forall>t. pcs s t = Idle)"

definition only_writer :: "'v mailbox_sys \<Rightarrow> bool" where
  "only_writer s \<longleftrightarrow> (\<exists>t. writes (pcs s t) \<and> (\<forall>u. u \<noteq> t \<longrightarrow> pcs s u = Idle)
    \<and> (\<forall>v. pcs s t = Wrote v \<longrightarrow> mb_value (cell s) = v))"

definition only_reader :: "'v mailbox_sys \<Rightarrow> bool" where
  "only_reader s \<longleftrightarrow> (\<exists>t. reads (pcs s t) \<and> (\<forall>u. u \<noteq> t \<longrightarrow> pcs s u = Idle)
    \<and> (\<forall>v. pcs s t = Fetched v \<longrightarrow> mb_value (cell s) = v))"

definition mailbox_inv :: "'v mailbox_sys \<Rightarrow> bool" where
  "mailbox_inv s \<longleftrightarrow>
     (mb_state (cell s) = MAILBOX_FREE \<and> quiet s \<and> sent s = recvd s)
   \<or> (mb_state (cell s) = MAILBOX_WRITING \<and> only_writer s \<and> sent s = recvd s)
   \<or> (mb_state (cell s) = MAILBOX_READY \<and> quiet s \<and> sent s = recvd s @ [mb_value (cell s)])
   \<or> (mb_state (cell s) = MAILBOX_READING \<and> only_reader s \<and> sent s = recvd s @ [mb_value (cell s)])"

lemmas mailbox_inv_defs = mailbox_inv_def quiet_def only_writer_def only_reader_def mailbox_cas_def

lemma mailbox_inv_init: "mailbox_inv (mailbox_sys_init v)"
  by (simp add: mailbox_inv_defs mailbox_sys_init_def mailbox_new_def)

lemma writes_not_reads: "writes p \<Longrightarrow> \<not> reads p"
  by (cases p) simp_all

lemma mailbox_inv_writer:
  assumes "mailbox_inv s" and "writes (pcs s t)"
  shows "mb_state (cell s) = MAILBOX_WRITING \<and> (\<forall>u. u \<noteq> t \<longrightarrow> pcs s u = Idle) \<and> sent s = recvd s
    \<and> (\<forall>v. pcs s t = Wrote v \<longrightarrow> mb_value (cell s) = v)"
proof -
  from assms(2) have "pcs s t \<noteq> Idle" "\<not> reads (pcs s t)"
    by (auto dest: writes_not_reads)
  with assms(1) have "mb_state (cell s) = MAILBOX_WRITING" "only_writer s" "sent s = recvd s"
    unfolding mailbox_inv_def quiet_def only_reader_def by metis+
  with \<open>pcs s t \<noteq> Idle\<close> show ?thesis
    unfolding only_writer_def by metis
qed

lemma mailbox_inv_reader:
  assumes "mailbox_inv s" and "reads (pcs s t)"
  shows "mb_state (cell s) = MAILBOX_READING \<and> (\<forall>u. u \<noteq> t \<longrightarrow> pcs s u = Idle)
    \<and> sent s = recvd s @ [mb_value (cell s)] \<and> (\<forall>v. pcs s t = Fetched v \<longrightarrow> mb_value (cell s) = v)"
proof -
  from assms(2) have "pcs s t \<noteq> Idle" "\<not> writes (pcs s t)"
    by (auto dest: writes_not_reads)
  with assms(1) have "mb_state (cell s) = MAILBOX_READING" "only_reader s"
      "sent s = recvd s @ [mb_value (cell s)]"
    unfolding mailbox_inv_def quiet_def only_writer_def by metis+
  with \<open>pcs s t \<noteq> Idle\<close> show ?thesis
    unfolding only_reader_def by metis
qed

lemma mailbox_inv_free:
  "mailbox_inv s \<Longrightarrow> mb_state (cell s) = MAILBOX_FREE \<Longrightarrow> quiet s \<and> sent s = recvd s"
  by (auto simp: mailbox_inv_def mailbox_states)

lemma mailbox_inv_ready:
  "mailbox_inv s \<Longrightarrow> mb_state (cell s) = MAILBOX_READY \<Longrightarrow>
    quiet s \<and> sent s = recvd s @ [mb_value (cell s)]"
  by (auto simp: mailbox_inv_def mailbox_states)

lemma mailbox_cas_Some:
  "mailbox_cas m a b = Some m' \<longleftrightarrow> mb_state m = a \<and> m' = m\<lparr>mb_state := b\<rparr>"
  by (auto simp: mailbox_cas_def)

lemma mailbox_step_inv: "mailbox_step s t \<Longrightarrow> mailbox_inv s \<Longrightarrow> mailbox_inv t"
proof (induction rule: mailbox_step.induct)
  case (publish_claim s t m v)
  then have "quiet s" "sent s = recvd s" "m = (cell s)\<lparr>mb_state := MAILBOX_WRITING\<rparr>"
    by (simp_all add: mailbox_cas_Some mailbox_inv_free)
  then show ?case by (simp add: mailbox_inv_def only_writer_def quiet_def)
next
  case (publish_write s t v)
  then have "mb_state (cell s) = MAILBOX_WRITING" "\<forall>u. u \<noteq> t \<longrightarrow> pcs s u = Idle" "sent s = recvd s"
    using mailbox_inv_writer [of s t] by simp_all
  then show ?case by (simp add: mailbox_inv_def only_writer_def)
next
  case (publish_release s t v)
  then have "\<forall>u. u \<noteq> t \<longrightarrow> pcs s u = Idle" "sent s = recvd s" "mb_value (cell s) = v"
    using mailbox_inv_writer [of s t] by simp_all
  then show ?case by (simp add: mailbox_inv_def quiet_def)
next
  case (take_claim s t m)
  then have "quiet s" "sent s = recvd s @ [mb_value (cell s)]"
      "m = (cell s)\<lparr>mb_state := MAILBOX_READING\<rparr>"
    by (simp_all add: mailbox_cas_Some mailbox_inv_ready)
  then show ?case by (simp add: mailbox_inv_def only_reader_def quiet_def)
next
  case (take_read s t)
  then have "mb_state (cell s) = MAILBOX_READING" "\<forall>u. u \<noteq> t \<longrightarrow> pcs s u = Idle"
      "sent s = recvd s @ [mb_value (cell s)]"
    using mailbox_inv_reader [of s t] by simp_all
  then show ?case by (simp add: mailbox_inv_def only_reader_def)
next
  case (take_release s t v)
  then have "\<forall>u. u \<noteq> t \<longrightarrow> pcs s u = Idle" "sent s = recvd s @ [v]"
    using mailbox_inv_reader [of s t] by simp_all
  then show ?case by (simp add: mailbox_inv_def quiet_def)
qed simp_all

lemma mailbox_reachable_inv: "mailbox_reachable v0 s \<Longrightarrow> mailbox_inv s"
  by (induction rule: mailbox_reachable.induct) (auto intro: mailbox_inv_init mailbox_step_inv)

lemma mailbox_inv_exclusive:
  assumes "mailbox_inv s" and "pcs s t \<noteq> Idle" and "pcs s u \<noteq> Idle"
  shows "t = u"
proof -
  have "writes (pcs s t) \<or> reads (pcs s t)" using assms(2) by (cases "pcs s t") simp_all
  with assms show ?thesis using mailbox_inv_writer mailbox_inv_reader by metis
qed

lemma mailbox_inv_history:
  assumes "mailbox_inv s"
  shows "sent s = recvd s \<or> sent s = recvd s @ [mb_value (cell s)]"
  using assms by (auto simp: mailbox_inv_def)

section \<open>Properties\<close>

text \<open>
  C1. The mailbox under concurrency: in every state reachable by interleaving the atomic steps of
  any number of publishing and taking threads, at most one thread is inside its access window, a
  thread about to release a write sees its own value in the cell, the value fetched by a reader is
  the oldest undelivered one, and the delivered values are the published ones in order, at most one
  behind.
\<close>

theorem mailbox_concurrent_safety:
  assumes "mailbox_reachable v0 s"
  shows "(pcs s t \<noteq> Idle \<and> pcs s u \<noteq> Idle \<longrightarrow> t = u)
    \<and> (pcs s t = Wrote v \<longrightarrow> mb_value (cell s) = v)
    \<and> (pcs s t = Fetched v \<longrightarrow> sent s = recvd s @ [v])
    \<and> (sent s = recvd s \<or> sent s = recvd s @ [mb_value (cell s)])"
proof -
  from assms have inv: "mailbox_inv s" by (rule mailbox_reachable_inv)
  show ?thesis
  proof (intro conjI impI)
    show "t = u" if "pcs s t \<noteq> Idle \<and> pcs s u \<noteq> Idle"
      using that by (intro mailbox_inv_exclusive [OF inv]) simp_all
    show "mb_value (cell s) = v" if "pcs s t = Wrote v"
      using that mailbox_inv_writer [OF inv, of t] by simp
    show "sent s = recvd s @ [v]" if "pcs s t = Fetched v"
      using that mailbox_inv_reader [OF inv, of t] by simp
    show "sent s = recvd s \<or> sent s = recvd s @ [mb_value (cell s)]"
      by (rule mailbox_inv_history [OF inv])
  qed
qed

theorem mailbox_concurrent_safety_witness:
  "\<exists>s :: nat mailbox_sys. mailbox_reachable 0 s \<and> pcs s 1 = Wrote 5 \<and> mb_value (cell s) = 5"
proof -
  let ?s0 = "mailbox_sys_init (0 :: nat)"
  let ?s1 = "?s0\<lparr>cell := (cell ?s0)\<lparr>mb_state := MAILBOX_WRITING\<rparr>, pcs := (pcs ?s0)(1 := Owns_Write 5)\<rparr>"
  let ?s2 = "?s1\<lparr>cell := (cell ?s1)\<lparr>mb_value := 5\<rparr>, pcs := (pcs ?s1)(1 := Wrote 5)\<rparr>"
  have s1: "mailbox_step ?s0 ?s1"
    by (rule mailbox_step.publish_claim)
      (simp_all add: mailbox_sys_init_def mailbox_new_def mailbox_cas_def)
  have s2: "mailbox_step ?s1 ?s2" by (rule mailbox_step.publish_write) simp
  have r: "mailbox_reachable 0 ?s2"
    by (rule mailbox_reachable.step [OF mailbox_reachable.step [OF mailbox_reachable.start s1] s2])
  have w: "pcs ?s2 1 = Wrote 5" by simp
  have "mb_value (cell ?s2) = 5"
    using mailbox_concurrent_safety [OF r, of 1 1 5] w by simp
  with r w show ?thesis by (intro exI [of _ ?s2] conjI)
qed

end
