(* ===== verification/Repr_C.thy ===== *)
theory Repr_C
  imports Slope_Prelude
begin

text \<open>
  The layout rule of \<open>#[repr(C)]\<close>: every field is placed at the next multiple of its alignment and
  the size is rounded up to the largest alignment.  The wire records of Slope carry compile-time
  assertions about their size and advertise \<open>core::mem::size_of\<close> in their headers; the component
  theories compute those numbers from the declared field lists.
\<close>

type_synonym layout = "nat \<times> nat"

definition align_up :: "nat \<Rightarrow> nat \<Rightarrow> nat" where
  "align_up n a = (n + a - 1) div a * a"

fun fields_end :: "nat \<Rightarrow> layout list \<Rightarrow> nat" where
  "fields_end off [] = off"
| "fields_end off ((s, a) # fs) = fields_end (align_up off a + s) fs"

definition struct_align :: "layout list \<Rightarrow> nat" where
  "struct_align fs = fold max (map snd fs) 1"

definition repr_c :: "layout list \<Rightarrow> layout" where
  "repr_c fs = (align_up (fields_end 0 fs) (struct_align fs), struct_align fs)"

definition repr_c_align :: "nat \<Rightarrow> layout list \<Rightarrow> layout" where
  "repr_c_align a fs =
    (let b = max a (struct_align fs) in (align_up (fields_end 0 fs) b, b))"

definition array_layout :: "nat \<Rightarrow> layout \<Rightarrow> layout" where
  "array_layout n l = (n * fst l, snd l)"

definition U8 :: layout where "U8 = (1, 1)"
definition U16 :: layout where "U16 = (2, 2)"
definition U32 :: layout where "U32 = (4, 4)"
definition U64 :: layout where "U64 = (8, 8)"

lemmas layout_defs = repr_c_def repr_c_align_def struct_align_def array_layout_def align_up_def
  U8_def U16_def U32_def U64_def Let_def

lemma align_up_ge: "0 < a \<Longrightarrow> n \<le> align_up n a"
proof -
  assume a: "0 < a"
  have "n + a - 1 < ((n + a - 1) div a) * a + a"
    using a by (metis add.commute div_mult_mod_eq mod_less_divisor nat_add_left_cancel_less mult.commute)
  then show ?thesis by (simp add: align_up_def)
qed

lemma align_up_dvd: "a dvd align_up n a"
  by (simp add: align_up_def)

lemma fields_end_mono: "\<forall>f \<in> set fs. 0 < snd f \<Longrightarrow> off \<le> fields_end off fs"
proof (induction fs arbitrary: off)
  case (Cons f fs)
  obtain s a where f: "f = (s, a)" by fastforce
  with Cons.prems have "off \<le> align_up off a" by (simp add: align_up_ge)
  also have "\<dots> \<le> align_up off a + s" by simp
  also have "\<dots> \<le> fields_end (align_up off a + s) fs" using Cons by simp
  finally show ?case by (simp add: f)
qed simp

end
