(* ===== verification/Quantum_Crest.thy ===== *)
theory Quantum_Crest
  imports Absorber Mailbox Repr_C
begin

text \<open>
  The Quantum Crest portal, \<open>quantum_crest.rs\<close>: the sealed wire records exchanged by the kernel and
  the desktop (system snapshot, desktop command, desktop reply, frame certificate), the keyed digest
  that seals them, and the shared page with its three mailboxes and two epoch words.
\<close>

section \<open>The keyed digest\<close>

definition avalanche :: "u64 \<Rightarrow> u64" where
  "avalanche value =
    (let v1 = value XOR drop_bit 30 value;
         v2 = v1 * 0xbf58476d1ce4e5b9;
         v3 = v2 XOR drop_bit 27 v2;
         v4 = v3 * 0x94d049bb133111eb
     in v4 XOR drop_bit 31 v4)"

definition absorb :: "u64 \<Rightarrow> u64 \<Rightarrow> u64" where
  "absorb state word = avalanche (state XOR word * 0x9e3779b97f4a7c15)"

definition domain :: "u64 \<Rightarrow> u64 \<Rightarrow> u64" where
  "domain secret tag = avalanche (secret XOR word_rotl 23 tag)"

definition from_le_bytes :: "bytes \<Rightarrow> u64" where
  "from_le_bytes bs = foldr (\<lambda>b acc. ucast b + 256 * acc) bs 0"

definition bytes_word :: "bytes \<Rightarrow> u64" where
  "bytes_word bs = from_le_bytes (copy_prefix (replicate 8 0) bs)"

text \<open>\<open>slice.chunks(n)\<close>\<close>

function chunks :: "nat \<Rightarrow> 'a list \<Rightarrow> 'a list list" where
  "chunks n xs = (if xs = [] \<or> n = 0 then [] else take n xs # chunks n (drop n xs))"
  by pat_completeness auto
termination
  by (relation "measure (\<lambda>(n, xs). length xs)") auto

declare chunks.simps [simp del]

section \<open>Wire records\<close>

definition QUANTUM_CREST_ABI_MAJOR :: u32 where "QUANTUM_CREST_ABI_MAJOR = 1"
definition QUANTUM_CREST_ABI_MINOR :: u32 where "QUANTUM_CREST_ABI_MINOR = 0"
definition QUANTUM_CREST_ABI_VERSION :: u32 where
  "QUANTUM_CREST_ABI_VERSION = push_bit 16 QUANTUM_CREST_ABI_MAJOR OR QUANTUM_CREST_ABI_MINOR"
definition QUANTUM_CREST_PAYLOAD_BYTES :: nat where "QUANTUM_CREST_PAYLOAD_BYTES = 128"
definition QUANTUM_CREST_ARGUMENTS :: nat where "QUANTUM_CREST_ARGUMENTS = 8"

definition SNAPSHOT_FLAG_HERMES_ONLINE :: u64 where "SNAPSHOT_FLAG_HERMES_ONLINE = 1"
definition SNAPSHOT_FLAG_QUARANTINE_ACTIVE :: u64 where "SNAPSHOT_FLAG_QUARANTINE_ACTIVE = push_bit 3 1"
definition SNAPSHOT_FLAG_DMA_REVOKED :: u64 where "SNAPSHOT_FLAG_DMA_REVOKED = push_bit 4 1"
definition SNAPSHOT_FLAG_RECOVERY_PENDING :: u64 where "SNAPSHOT_FLAG_RECOVERY_PENDING = push_bit 5 1"

definition STATUS_OK :: i32 where "STATUS_OK = 0"
definition STATUS_INVALID :: i32 where "STATUS_INVALID = - 1"

record QuantumGpuState =
  gpu_vendor_id :: u16
  gpu_device_id :: u16
  gpu_revision :: u8
  gpu_gsp_wire_major :: u8
  gpu_gsp_wire_minor :: u16
  gpu_gsp_epoch :: u32
  gpu_negotiated_features :: u64
  gpu_firmware_version :: u64
  gpu_temperature_q16 :: i32
  gpu_pressure_q16 :: i32
  gpu_corrected_faults :: u32
  gpu_fatal_faults :: u32

definition QuantumGpuState_layout :: layout where
  "QuantumGpuState_layout =
    repr_c [U16, U16, U8, U8, U16, U32, U64, U64, U32, U32, U32, U32]"

definition QuantumGpuState_ZERO :: QuantumGpuState where
  "QuantumGpuState_ZERO = \<lparr>gpu_vendor_id = 0, gpu_device_id = 0, gpu_revision = 0,
    gpu_gsp_wire_major = 0, gpu_gsp_wire_minor = 0, gpu_gsp_epoch = 0, gpu_negotiated_features = 0,
    gpu_firmware_version = 0, gpu_temperature_q16 = 0, gpu_pressure_q16 = 0,
    gpu_corrected_faults = 0, gpu_fatal_faults = 0\<rparr>"

record QuantumBlackLabState =
  bl_policy_epoch :: u64
  bl_risk :: u16
  bl_severity :: u8
  bl_action :: u8
  bl_temporal_violations :: u16
  bl_evidence_votes :: u16
  bl_plan_steps :: u16
  bl_required_quorum :: u8
  bl_reserved0 :: u8
  bl_ledger_epoch :: u64
  bl_ledger_root :: u64
  bl_evidence_root :: u64
  bl_plan_root :: u64
  bl_forecast_tick :: u64

definition QuantumBlackLabState_layout :: layout where
  "QuantumBlackLabState_layout =
    repr_c [U64, U16, U8, U8, U16, U16, U16, U8, U8, U64, U64, U64, U64, U64]"

definition QuantumBlackLabState_ZERO :: QuantumBlackLabState where
  "QuantumBlackLabState_ZERO = \<lparr>bl_policy_epoch = 0, bl_risk = 0, bl_severity = 0, bl_action = 0,
    bl_temporal_violations = 0, bl_evidence_votes = 0, bl_plan_steps = 0, bl_required_quorum = 0,
    bl_reserved0 = 0, bl_ledger_epoch = 0, bl_ledger_root = 0, bl_evidence_root = 0,
    bl_plan_root = 0, bl_forecast_tick = 0\<rparr>"

record QuantumDisplayState =
  disp_width :: u32
  disp_height :: u32
  disp_pitch :: u32
  disp_format :: u32
  disp_refresh_millihertz :: u32
  disp_beam_position :: u32
  disp_present_sequence :: u64
  disp_frame_budget_ticks :: u64
  disp_predicted_render_ticks :: u64
  disp_damage_tiles :: u32
  disp_total_tiles :: u32

definition QuantumDisplayState_layout :: layout where
  "QuantumDisplayState_layout =
    repr_c [U32, U32, U32, U32, U32, U32, U64, U64, U64, U32, U32]"

definition QuantumDisplayState_ZERO :: QuantumDisplayState where
  "QuantumDisplayState_ZERO = \<lparr>disp_width = 0, disp_height = 0, disp_pitch = 0, disp_format = 0,
    disp_refresh_millihertz = 0, disp_beam_position = 0, disp_present_sequence = 0,
    disp_frame_budget_ticks = 0, disp_predicted_render_ticks = 0, disp_damage_tiles = 0,
    disp_total_tiles = 0\<rparr>"

record QuantumSystemSnapshot =
  snap_abi_version :: u32
  snap_struct_size :: u32
  snap_sequence :: u64
  snap_epoch :: u64
  snap_logical_tick :: u64
  snap_topology_epoch :: u64
  snap_capability_epoch :: u64
  snap_flags :: u64
  snap_gpu :: QuantumGpuState
  snap_blacklab :: QuantumBlackLabState
  snap_display :: QuantumDisplayState
  snap_desktop_rights :: u64
  snap_desktop_session :: u64
  snap_desktop_generation :: u32
  snap_reserved0 :: u32
  snap_root :: u64

definition QuantumSystemSnapshot_layout :: layout where
  "QuantumSystemSnapshot_layout =
    repr_c [U32, U32, U64, U64, U64, U64, U64, U64, QuantumGpuState_layout,
      QuantumBlackLabState_layout, QuantumDisplayState_layout, U64, U64, U32, U32, U64]"

record QuantumDesktopCommand =
  cmd_abi_version :: u32
  cmd_struct_size :: u32
  cmd_sequence :: u64
  cmd_epoch :: u64
  cmd_session :: u64
  cmd_generation :: u32
  cmd_opcode :: u32
  cmd_flags :: u64
  cmd_object :: u64
  cmd_deadline_tick :: u64
  cmd_arguments :: "u64 list"
  cmd_payload_length :: u16
  cmd_reserved :: bytes
  cmd_payload :: bytes
  cmd_root :: u64

definition QuantumDesktopCommand_layout :: layout where
  "QuantumDesktopCommand_layout =
    repr_c [U32, U32, U64, U64, U64, U32, U32, U64, U64, U64,
      array_layout QUANTUM_CREST_ARGUMENTS U64, U16, array_layout 6 U8,
      array_layout QUANTUM_CREST_PAYLOAD_BYTES U8, U64]"

record QuantumFrameCertificate =
  frame_frame_sequence :: u64
  frame_snapshot_sequence :: u64
  frame_scene_epoch :: u64
  frame_damage_root :: u64
  frame_scene_root :: u64
  frame_present_tick :: u64
  frame_rendered_tiles :: u32
  frame_skipped_tiles :: u32
  frame_lane_votes :: u8
  frame_reserved :: bytes
  frame_root_word :: u64

definition QuantumFrameCertificate_layout :: layout where
  "QuantumFrameCertificate_layout =
    repr_c [U64, U64, U64, U64, U64, U64, U32, U32, U8, array_layout 7 U8, U64]"

definition QuantumFrameCertificate_ZERO :: QuantumFrameCertificate where
  "QuantumFrameCertificate_ZERO = \<lparr>frame_frame_sequence = 0, frame_snapshot_sequence = 0,
    frame_scene_epoch = 0, frame_damage_root = 0, frame_scene_root = 0, frame_present_tick = 0,
    frame_rendered_tiles = 0, frame_skipped_tiles = 0, frame_lane_votes = 0,
    frame_reserved = replicate 7 0, frame_root_word = 0\<rparr>"

record QuantumDesktopReply =
  rep_abi_version :: u32
  rep_struct_size :: u32
  rep_command_sequence :: u64
  rep_snapshot_sequence :: u64
  rep_status :: i32
  rep_flags :: u32
  rep_outputs :: "u64 list"
  rep_frame :: QuantumFrameCertificate
  rep_root :: u64

definition QuantumDesktopReply_layout :: layout where
  "QuantumDesktopReply_layout =
    repr_c [U32, U32, U64, U64, U32, U32, array_layout QUANTUM_CREST_ARGUMENTS U64,
      QuantumFrameCertificate_layout, U64]"

definition size_of :: "layout \<Rightarrow> nat" where
  "size_of = fst"

section \<open>Roots\<close>

definition absorb_gpu :: "u64 \<Rightarrow> QuantumGpuState \<Rightarrow> u64" where
  "absorb_gpu state gpu = foldl absorb state
    [ucast (gpu_vendor_id gpu), ucast (gpu_device_id gpu), ucast (gpu_revision gpu),
     ucast (gpu_gsp_wire_major gpu), ucast (gpu_gsp_wire_minor gpu), ucast (gpu_gsp_epoch gpu),
     gpu_negotiated_features gpu, gpu_firmware_version gpu, ucast (gpu_temperature_q16 gpu),
     ucast (gpu_pressure_q16 gpu), ucast (gpu_corrected_faults gpu), ucast (gpu_fatal_faults gpu)]"

definition absorb_blacklab :: "u64 \<Rightarrow> QuantumBlackLabState \<Rightarrow> u64" where
  "absorb_blacklab state bl = foldl absorb state
    [bl_policy_epoch bl, ucast (bl_risk bl), ucast (bl_severity bl), ucast (bl_action bl),
     ucast (bl_temporal_violations bl), ucast (bl_evidence_votes bl), ucast (bl_plan_steps bl),
     ucast (bl_required_quorum bl), bl_ledger_epoch bl, bl_ledger_root bl, bl_evidence_root bl,
     bl_plan_root bl, bl_forecast_tick bl]"

definition absorb_display :: "u64 \<Rightarrow> QuantumDisplayState \<Rightarrow> u64" where
  "absorb_display state d = foldl absorb state
    [ucast (disp_width d), ucast (disp_height d), ucast (disp_pitch d), ucast (disp_format d),
     ucast (disp_refresh_millihertz d), ucast (disp_beam_position d), disp_present_sequence d,
     disp_frame_budget_ticks d, disp_predicted_render_ticks d, ucast (disp_damage_tiles d),
     ucast (disp_total_tiles d)]"

definition absorb_frame :: "u64 \<Rightarrow> QuantumFrameCertificate \<Rightarrow> u64" where
  "absorb_frame state f = foldl absorb state
    [frame_frame_sequence f, frame_snapshot_sequence f, frame_scene_epoch f, frame_damage_root f,
     frame_scene_root f, frame_present_tick f, ucast (frame_rendered_tiles f),
     ucast (frame_skipped_tiles f), ucast (frame_lane_votes f)]"

definition snapshot_root :: "u64 \<Rightarrow> QuantumSystemSnapshot \<Rightarrow> u64" where
  "snapshot_root secret s =
    (let st0 = domain secret 0x534e415053484f54;
         st1 = foldl absorb st0 [ucast (snap_abi_version s), snap_sequence s, snap_epoch s,
           snap_logical_tick s, snap_topology_epoch s, snap_capability_epoch s, snap_flags s];
         st2 = absorb_gpu st1 (snap_gpu s);
         st3 = absorb_blacklab st2 (snap_blacklab s);
         st4 = absorb_display st3 (snap_display s);
         st5 = foldl absorb st4 [snap_desktop_rights s, snap_desktop_session s,
           ucast (snap_desktop_generation s)]
     in avalanche (st5 XOR word_rotl 17 secret))"

definition command_root :: "u64 \<Rightarrow> QuantumDesktopCommand \<Rightarrow> u64" where
  "command_root secret c =
    (let st0 = domain secret 0x434f4d4d414e4421;
         st1 = foldl absorb st0 [ucast (cmd_abi_version c), cmd_sequence c, cmd_epoch c,
           cmd_session c, ucast (cmd_generation c), ucast (cmd_opcode c), cmd_flags c,
           cmd_object c, cmd_deadline_tick c];
         st2 = foldl absorb st1 (cmd_arguments c);
         st3 = absorb st2 (ucast (cmd_payload_length c));
         st4 = foldl (\<lambda>st chunk. absorb st (bytes_word chunk)) st3 (chunks 8 (cmd_payload c))
     in avalanche (st4 XOR word_rotr 9 secret))"

definition reply_root :: "u64 \<Rightarrow> QuantumDesktopReply \<Rightarrow> u64" where
  "reply_root secret r =
    (let st0 = domain secret 0x5245504c59212121;
         st1 = foldl absorb st0 [ucast (rep_abi_version r), rep_command_sequence r,
           rep_snapshot_sequence r, ucast (rep_status r), ucast (rep_flags r)];
         st2 = foldl absorb st1 (rep_outputs r);
         st3 = absorb_frame st2 (rep_frame r)
     in avalanche (st3 XOR word_rotl 31 secret))"

definition frame_root :: "u64 \<Rightarrow> QuantumFrameCertificate \<Rightarrow> u64" where
  "frame_root secret f = avalanche (absorb_frame (domain secret 0x4652414d45212121) f)"

section \<open>Empty records, sealing and verification\<close>

definition snapshot_empty :: QuantumSystemSnapshot where
  "snapshot_empty = \<lparr>snap_abi_version = QUANTUM_CREST_ABI_VERSION,
    snap_struct_size = of_nat (size_of QuantumSystemSnapshot_layout), snap_sequence = 0,
    snap_epoch = 0, snap_logical_tick = 0, snap_topology_epoch = 0, snap_capability_epoch = 0,
    snap_flags = 0, snap_gpu = QuantumGpuState_ZERO, snap_blacklab = QuantumBlackLabState_ZERO,
    snap_display = QuantumDisplayState_ZERO, snap_desktop_rights = 0, snap_desktop_session = 0,
    snap_desktop_generation = 0, snap_reserved0 = 0, snap_root = 0\<rparr>"

definition snapshot_seal :: "QuantumSystemSnapshot \<Rightarrow> u64 \<Rightarrow> QuantumSystemSnapshot" where
  "snapshot_seal s secret =
    (let s0 = s\<lparr>snap_root := 0\<rparr> in s0\<lparr>snap_root := snapshot_root secret s0\<rparr>)"

definition snapshot_verify :: "QuantumSystemSnapshot \<Rightarrow> u64 \<Rightarrow> bool" where
  "snapshot_verify s secret \<longleftrightarrow>
     drop_bit 16 (snap_abi_version s) = QUANTUM_CREST_ABI_MAJOR
   \<and> size_of QuantumSystemSnapshot_layout \<le> unat (snap_struct_size s)
   \<and> snap_sequence s \<noteq> 0 \<and> snap_epoch s \<noteq> 0
   \<and> snap_desktop_session s \<noteq> 0 \<and> snap_desktop_generation s \<noteq> 0
   \<and> snap_root s = snapshot_root secret s"

definition command_empty :: QuantumDesktopCommand where
  "command_empty = \<lparr>cmd_abi_version = QUANTUM_CREST_ABI_VERSION,
    cmd_struct_size = of_nat (size_of QuantumDesktopCommand_layout), cmd_sequence = 0,
    cmd_epoch = 0, cmd_session = 0, cmd_generation = 0, cmd_opcode = 0, cmd_flags = 0,
    cmd_object = 0, cmd_deadline_tick = 0, cmd_arguments = replicate QUANTUM_CREST_ARGUMENTS 0,
    cmd_payload_length = 0, cmd_reserved = replicate 6 0,
    cmd_payload = replicate QUANTUM_CREST_PAYLOAD_BYTES 0, cmd_root = 0\<rparr>"

definition command_seal :: "QuantumDesktopCommand \<Rightarrow> u64 \<Rightarrow> QuantumDesktopCommand" where
  "command_seal c secret =
    (let c0 = c\<lparr>cmd_root := 0\<rparr> in c0\<lparr>cmd_root := command_root secret c0\<rparr>)"

definition command_verify :: "QuantumDesktopCommand \<Rightarrow> u64 \<Rightarrow> bool" where
  "command_verify c secret \<longleftrightarrow>
     drop_bit 16 (cmd_abi_version c) = QUANTUM_CREST_ABI_MAJOR
   \<and> size_of QuantumDesktopCommand_layout \<le> unat (cmd_struct_size c)
   \<and> cmd_sequence c \<noteq> 0 \<and> cmd_epoch c \<noteq> 0 \<and> cmd_session c \<noteq> 0
   \<and> cmd_generation c \<noteq> 0 \<and> cmd_opcode c \<noteq> 0
   \<and> unat (cmd_payload_length c) \<le> QUANTUM_CREST_PAYLOAD_BYTES
   \<and> cmd_root c = command_root secret c"

definition reply_empty :: QuantumDesktopReply where
  "reply_empty = \<lparr>rep_abi_version = QUANTUM_CREST_ABI_VERSION,
    rep_struct_size = of_nat (size_of QuantumDesktopReply_layout), rep_command_sequence = 0,
    rep_snapshot_sequence = 0, rep_status = STATUS_INVALID, rep_flags = 0,
    rep_outputs = replicate QUANTUM_CREST_ARGUMENTS 0, rep_frame = QuantumFrameCertificate_ZERO,
    rep_root = 0\<rparr>"

definition reply_seal :: "QuantumDesktopReply \<Rightarrow> u64 \<Rightarrow> QuantumDesktopReply" where
  "reply_seal r secret =
    (let r0 = r\<lparr>rep_root := 0\<rparr> in r0\<lparr>rep_root := reply_root secret r0\<rparr>)"

definition reply_verify :: "QuantumDesktopReply \<Rightarrow> u64 \<Rightarrow> bool" where
  "reply_verify r secret \<longleftrightarrow>
     drop_bit 16 (rep_abi_version r) = QUANTUM_CREST_ABI_MAJOR
   \<and> size_of QuantumDesktopReply_layout \<le> unat (rep_struct_size r)
   \<and> rep_command_sequence r \<noteq> 0
   \<and> rep_root r = reply_root secret r"

section \<open>The shared page\<close>

type_synonym SnapshotCell = "QuantumSystemSnapshot mailbox"
type_synonym CommandMailbox = "QuantumDesktopCommand mailbox"
type_synonym ReplyMailbox = "QuantumDesktopReply mailbox"

definition SnapshotCell_new :: SnapshotCell where
  "SnapshotCell_new = mailbox_new snapshot_empty"

definition SnapshotCell_publish ::
  "SnapshotCell \<Rightarrow> QuantumSystemSnapshot \<Rightarrow> SnapshotCell \<times> (QuantumPortalError, unit) result" where
  "SnapshotCell_publish = mailbox_publish"

definition SnapshotCell_take ::
  "SnapshotCell \<Rightarrow> SnapshotCell \<times> (QuantumPortalError, QuantumSystemSnapshot option) result" where
  "SnapshotCell_take = mailbox_take"

definition CommandMailbox_new :: CommandMailbox where
  "CommandMailbox_new = mailbox_new command_empty"

definition CommandMailbox_submit ::
  "CommandMailbox \<Rightarrow> QuantumDesktopCommand \<Rightarrow> CommandMailbox \<times> (QuantumPortalError, unit) result" where
  "CommandMailbox_submit = mailbox_publish"

definition CommandMailbox_take ::
  "CommandMailbox \<Rightarrow> CommandMailbox \<times> (QuantumPortalError, QuantumDesktopCommand option) result" where
  "CommandMailbox_take = mailbox_take"

definition ReplyMailbox_new :: ReplyMailbox where
  "ReplyMailbox_new = mailbox_new reply_empty"

definition ReplyMailbox_publish ::
  "ReplyMailbox \<Rightarrow> QuantumDesktopReply \<Rightarrow> ReplyMailbox \<times> (QuantumPortalError, unit) result" where
  "ReplyMailbox_publish = mailbox_publish"

definition ReplyMailbox_take ::
  "ReplyMailbox \<Rightarrow> ReplyMailbox \<times> (QuantumPortalError, QuantumDesktopReply option) result" where
  "ReplyMailbox_take = mailbox_take"

record QuantumCrestPage =
  page_snapshot :: SnapshotCell
  page_command :: CommandMailbox
  page_reply :: ReplyMailbox
  page_kernel_epoch :: u64
  page_user_epoch :: u64

definition QuantumCrestPage_layout :: layout where
  "QuantumCrestPage_layout =
    repr_c_align 4096
      [repr_c [U32, QuantumSystemSnapshot_layout], repr_c [U32, QuantumDesktopCommand_layout],
       repr_c [U32, QuantumDesktopReply_layout], U64, U64]"

definition page_new :: QuantumCrestPage where
  "page_new = \<lparr>page_snapshot = SnapshotCell_new, page_command = CommandMailbox_new,
    page_reply = ReplyMailbox_new, page_kernel_epoch = 0, page_user_epoch = 0\<rparr>"

definition kernel_publish_snapshot ::
  "QuantumCrestPage \<Rightarrow> QuantumSystemSnapshot \<Rightarrow> QuantumCrestPage \<times> (QuantumPortalError, unit) result" where
  "kernel_publish_snapshot p s =
    (if snap_epoch s = 0 \<or> snap_sequence s = 0 then (p, Err PortalInvalid)
     else
       let p1 = p\<lparr>page_kernel_epoch := snap_epoch s\<rparr>
       in case SnapshotCell_publish (page_snapshot p1) s of
            (c, r) \<Rightarrow> (p1\<lparr>page_snapshot := c\<rparr>, r))"

definition user_read_snapshot ::
  "QuantumCrestPage \<Rightarrow> QuantumCrestPage \<times> (QuantumPortalError, QuantumSystemSnapshot option) result" where
  "user_read_snapshot p =
    (case SnapshotCell_take (page_snapshot p) of (c, r) \<Rightarrow> (p\<lparr>page_snapshot := c\<rparr>, r))"

definition user_submit_command ::
  "QuantumCrestPage \<Rightarrow> QuantumDesktopCommand \<Rightarrow> QuantumCrestPage \<times> (QuantumPortalError, unit) result" where
  "user_submit_command p c =
    (if cmd_epoch c = 0 \<or> cmd_sequence c = 0 then (p, Err PortalInvalid)
     else
       let p1 = p\<lparr>page_user_epoch := cmd_epoch c\<rparr>
       in case CommandMailbox_submit (page_command p1) c of
            (m, r) \<Rightarrow> (p1\<lparr>page_command := m\<rparr>, r))"

definition kernel_take_command ::
  "QuantumCrestPage \<Rightarrow> QuantumCrestPage \<times> (QuantumPortalError, QuantumDesktopCommand option) result" where
  "kernel_take_command p =
    (case CommandMailbox_take (page_command p) of (m, r) \<Rightarrow> (p\<lparr>page_command := m\<rparr>, r))"

definition kernel_publish_reply ::
  "QuantumCrestPage \<Rightarrow> QuantumDesktopReply \<Rightarrow> QuantumCrestPage \<times> (QuantumPortalError, unit) result" where
  "kernel_publish_reply p r =
    (if rep_command_sequence r = 0 then (p, Err PortalInvalid)
     else case ReplyMailbox_publish (page_reply p) r of
            (m, res) \<Rightarrow> (p\<lparr>page_reply := m\<rparr>, res))"

definition user_take_reply ::
  "QuantumCrestPage \<Rightarrow> QuantumCrestPage \<times> (QuantumPortalError, QuantumDesktopReply option) result" where
  "user_take_reply p =
    (case ReplyMailbox_take (page_reply p) of (m, r) \<Rightarrow> (p\<lparr>page_reply := m\<rparr>, r))"

definition page_epochs :: "QuantumCrestPage \<Rightarrow> u64 \<times> u64" where
  "page_epochs p = (page_kernel_epoch p, page_user_epoch p)"

section \<open>Lemmas: the digest is injective in every absorbed word\<close>

lemma avalanche_inj:
  assumes "avalanche x = avalanche y"
  shows "x = y"
proof -
  let ?a = "\<lambda>v :: u64. v XOR drop_bit 30 v"
  let ?b = "\<lambda>v :: u64. ?a v * 0xbf58476d1ce4e5b9"
  let ?c = "\<lambda>v :: u64. ?b v XOR drop_bit 27 (?b v)"
  let ?d = "\<lambda>v :: u64. ?c v * 0x94d049bb133111eb"
  have "?d x XOR drop_bit 31 (?d x) = ?d y XOR drop_bit 31 (?d y)"
    using assms by (simp add: avalanche_def Let_def)
  then have "?d x = ?d y" by (rule xor_shift_inj [rotated]) simp
  then have "?c x = ?c y" by (rule mult_unit_inj [rotated, where d = "0x319642b2d24d8ec3"]) simp
  then have "?b x = ?b y" by (rule xor_shift_inj [rotated]) simp
  then have "?a x = ?a y" by (rule mult_unit_inj [rotated, where d = "0x96de1b173f119089"]) simp
  then show ?thesis by (rule xor_shift_inj [rotated]) simp
qed

lemma absorb_inj_state: "absorb s w = absorb t w \<Longrightarrow> s = t"
  unfolding absorb_def by (drule avalanche_inj) (rule xor_cancel_right)

lemma absorb_inj_word:
  assumes "absorb s v = absorb s w"
  shows "v = w"
proof -
  from assms have "s XOR v * 0x9e3779b97f4a7c15 = s XOR w * 0x9e3779b97f4a7c15"
    unfolding absorb_def by (rule avalanche_inj)
  then have "v * 0x9e3779b97f4a7c15 = w * 0x9e3779b97f4a7c15" by (rule xor_cancel_left)
  then show ?thesis by (rule mult_unit_inj [rotated, where d = "0xf1de83e19937733d"]) simp
qed

interpretation crest: absorber absorb
  by unfold_locales (fact absorb_inj_state, fact absorb_inj_word)

text \<open>The words a root binds, in the order they are absorbed.\<close>

definition gpu_words :: "QuantumGpuState \<Rightarrow> u64 list" where
  "gpu_words gpu =
    [ucast (gpu_vendor_id gpu), ucast (gpu_device_id gpu), ucast (gpu_revision gpu),
     ucast (gpu_gsp_wire_major gpu), ucast (gpu_gsp_wire_minor gpu), ucast (gpu_gsp_epoch gpu),
     gpu_negotiated_features gpu, gpu_firmware_version gpu, ucast (gpu_temperature_q16 gpu),
     ucast (gpu_pressure_q16 gpu), ucast (gpu_corrected_faults gpu), ucast (gpu_fatal_faults gpu)]"

definition blacklab_words :: "QuantumBlackLabState \<Rightarrow> u64 list" where
  "blacklab_words bl =
    [bl_policy_epoch bl, ucast (bl_risk bl), ucast (bl_severity bl), ucast (bl_action bl),
     ucast (bl_temporal_violations bl), ucast (bl_evidence_votes bl), ucast (bl_plan_steps bl),
     ucast (bl_required_quorum bl), bl_ledger_epoch bl, bl_ledger_root bl, bl_evidence_root bl,
     bl_plan_root bl, bl_forecast_tick bl]"

definition display_words :: "QuantumDisplayState \<Rightarrow> u64 list" where
  "display_words d =
    [ucast (disp_width d), ucast (disp_height d), ucast (disp_pitch d), ucast (disp_format d),
     ucast (disp_refresh_millihertz d), ucast (disp_beam_position d), disp_present_sequence d,
     disp_frame_budget_ticks d, disp_predicted_render_ticks d, ucast (disp_damage_tiles d),
     ucast (disp_total_tiles d)]"

definition snapshot_words :: "QuantumSystemSnapshot \<Rightarrow> u64 list" where
  "snapshot_words s =
    [ucast (snap_abi_version s), snap_sequence s, snap_epoch s, snap_logical_tick s,
     snap_topology_epoch s, snap_capability_epoch s, snap_flags s]
    @ gpu_words (snap_gpu s) @ blacklab_words (snap_blacklab s) @ display_words (snap_display s)
    @ [snap_desktop_rights s, snap_desktop_session s, ucast (snap_desktop_generation s)]"

definition command_words :: "QuantumDesktopCommand \<Rightarrow> u64 list" where
  "command_words c =
    [ucast (cmd_abi_version c), cmd_sequence c, cmd_epoch c, cmd_session c,
     ucast (cmd_generation c), ucast (cmd_opcode c), cmd_flags c, cmd_object c, cmd_deadline_tick c]
    @ cmd_arguments c @ [ucast (cmd_payload_length c)]
    @ map bytes_word (chunks 8 (cmd_payload c))"

lemma foldl_comp_map: "foldl (\<lambda>st x. f st (g x)) a xs = foldl f a (map g xs)"
  by (induction xs arbitrary: a) simp_all

lemma snapshot_root_words:
  "snapshot_root secret s =
    avalanche (foldl absorb (domain secret 0x534e415053484f54) (snapshot_words s)
      XOR word_rotl 17 secret)"
  by (simp only: snapshot_root_def snapshot_words_def absorb_gpu_def absorb_blacklab_def
      absorb_display_def gpu_words_def blacklab_words_def display_words_def Let_def foldl_append)

lemma command_root_words:
  "command_root secret c =
    avalanche (foldl absorb (domain secret 0x434f4d4d414e4421) (command_words c)
      XOR word_rotr 9 secret)"
  by (simp only: command_root_def command_words_def Let_def foldl_append foldl_comp_map foldl_Cons
      foldl_Nil)

lemma sealed_foldl_neq:
  assumes "i < length ws" and "w \<noteq> ws ! i"
  shows "avalanche (foldl absorb st (ws[i := w]) XOR k) \<noteq> avalanche (foldl absorb st ws XOR k)"
proof
  assume "avalanche (foldl absorb st (ws[i := w]) XOR k) = avalanche (foldl absorb st ws XOR k)"
  then have "foldl absorb st (ws[i := w]) = foldl absorb st ws"
    using avalanche_inj xor_cancel_right by blast
  with crest.foldl_update_neq [OF assms] show False by blast
qed

lemma snapshot_seal_words [simp]: "snapshot_words (snapshot_seal s k) = snapshot_words s"
  by (simp add: snapshot_seal_def snapshot_words_def Let_def)

lemma snapshot_root_seal [simp]: "snapshot_root k (snapshot_seal s k') = snapshot_root k s"
  by (simp add: snapshot_root_words)

lemma snap_root_seal: "snap_root (snapshot_seal s k) = snapshot_root k s"
  by (simp add: snapshot_seal_def Let_def snapshot_root_words snapshot_words_def)

lemma command_seal_words [simp]: "command_words (command_seal c k) = command_words c"
  by (simp add: command_seal_def command_words_def Let_def)

lemma command_root_seal [simp]: "command_root k (command_seal c k') = command_root k c"
  by (simp add: command_root_words)

lemma cmd_root_seal: "cmd_root (command_seal c k) = command_root k c"
  by (simp add: command_seal_def Let_def command_root_words command_words_def)

lemma crest_sizes:
  "size_of QuantumSystemSnapshot_layout = 256"
  "size_of QuantumDesktopCommand_layout = 272"
  "size_of QuantumDesktopReply_layout = 176"
  "QuantumCrestPage_layout = (4096, 4096)"
  by (code_simp)+

lemma unat_ucast_byte: "unat (ucast (b :: u8) :: u64) = unat b"
proof -
  have "unat b < 2 ^ 8" using unsigned_less [of b, where ?'a = nat] by simp
  then show ?thesis by (simp add: unsigned_ucast_eq take_bit_eq_mod)
qed

lemma from_le_bytes_Cons: "from_le_bytes (b # bs) = ucast b + 256 * from_le_bytes bs"
  by (simp add: from_le_bytes_def)

lemma from_le_bytes_bound:
  "length bs \<le> 8 \<Longrightarrow> unat (from_le_bytes bs) < 256 ^ length bs"
proof (induction bs)
  case Nil then show ?case by (simp add: from_le_bytes_def)
next
  case (Cons b bs)
  have "unat (ucast b + 256 * from_le_bytes bs) \<le> unat b + 256 * unat (from_le_bytes bs)"
    by (simp add: unat_word_ariths unat_ucast_byte)
  moreover have "unat b < 256" using unsigned_less [of b, where ?'a = nat] by simp
  moreover have "unat (from_le_bytes bs) < 256 ^ length bs" using Cons by simp
  ultimately show ?case by (simp add: from_le_bytes_Cons)
qed

lemma unat_from_le_bytes_Cons:
  assumes "length bs \<le> 7"
  shows "unat (from_le_bytes (b # bs)) = unat b + 256 * unat (from_le_bytes bs)"
proof -
  have "unat b < 256" using unsigned_less [of b, where ?'a = nat] by simp
  moreover have "unat (from_le_bytes bs) < 256 ^ length bs" using assms from_le_bytes_bound by simp
  moreover have "(256::nat) ^ length bs \<le> 256 ^ 7" using assms by (rule power_increasing) simp
  ultimately have "unat b + 256 * unat (from_le_bytes bs) < 2 ^ 64" by simp
  then show ?thesis
    by (simp add: from_le_bytes_Cons unat_word_ariths unat_ucast_byte)
qed

lemma from_le_bytes_inj:
  "length as = length bs \<Longrightarrow> length bs \<le> 8 \<Longrightarrow> from_le_bytes as = from_le_bytes bs \<Longrightarrow> as = bs"
proof (induction as bs rule: list_induct2)
  case (Cons a as b bs)
  have b8: "unat x < 256" for x :: u8 using unsigned_less [of x, where ?'a = nat] by simp
  from Cons have "length as \<le> 7" "length bs \<le> 7" by simp_all
  then have eq: "unat a + 256 * unat (from_le_bytes as) = unat b + 256 * unat (from_le_bytes bs)"
    using Cons.prems(2) unat_from_le_bytes_Cons by metis
  have "unat a = unat b" using arg_cong [OF eq, of "\<lambda>n. n mod 256"] b8 [of a] b8 [of b] by simp
  moreover from this eq have "unat (from_le_bytes as) = unat (from_le_bytes bs)" by simp
  ultimately show ?case using Cons by (simp add: word_unat_eq_iff)
qed simp

lemma length_copy_zero: "length xs \<le> 8 \<Longrightarrow> length (copy_prefix (replicate 8 0) xs) = 8"
  by simp

lemma bytes_word_inj:
  assumes "length as = length bs" "length bs \<le> 8" "bytes_word as = bytes_word bs"
  shows "as = bs"
proof -
  from assms have "copy_prefix (replicate 8 0) as = copy_prefix (replicate 8 0) bs"
    unfolding bytes_word_def by (intro from_le_bytes_inj) simp_all
  with assms(1) show ?thesis by (metis take_copy_prefix)
qed

lemma chunks_update:
  "0 < n \<Longrightarrow> j < length xs \<Longrightarrow>
    chunks n (xs[j := x]) = (chunks n xs)[j div n := ((chunks n xs) ! (j div n))[j mod n := x]]"
proof (induction n xs arbitrary: j rule: chunks.induct)
  case (1 n xs)
  then have ne: "xs \<noteq> []" by auto
  have unf: "chunks n xs = take n xs # chunks n (drop n xs)"
    using 1 ne by (subst chunks.simps) simp
  have unf': "chunks n (xs[j := x]) = take n (xs[j := x]) # chunks n (drop n (xs[j := x]))"
    using 1 ne by (subst chunks.simps) simp
  show ?case
  proof (cases "j < n")
    case True
    then show ?thesis by (simp add: unf unf' take_update_swap drop_update_cancel)
  next
    case False
    then obtain m where m: "j = n + m" using le_Suc_ex not_le by blast
    have "chunks n ((drop n xs)[m := x]) =
        (chunks n (drop n xs))[m div n := (chunks n (drop n xs) ! (m div n))[m mod n := x]]"
      using 1 ne m by (intro "1.IH") auto
    moreover have "(n + m) div n = Suc (m div n)" using "1.prems" by (simp add: div_add_self1)
    ultimately show ?thesis using m unf' by (simp add: unf drop_update_swap)
  qed
qed

lemma chunks_nth_length:
  "0 < n \<Longrightarrow> j < length xs \<Longrightarrow>
    j div n < length (chunks n xs) \<and> length (chunks n xs ! (j div n)) \<le> n
    \<and> j mod n < length (chunks n xs ! (j div n)) \<and> chunks n xs ! (j div n) ! (j mod n) = xs ! j"
proof (induction n xs arbitrary: j rule: chunks.induct)
  case (1 n xs)
  then have ne: "xs \<noteq> []" by auto
  have unf: "chunks n xs = take n xs # chunks n (drop n xs)"
    using 1 ne by (subst chunks.simps) simp
  show ?case
  proof (cases "j < n")
    case True
    with 1 show ?thesis by (simp add: unf)
  next
    case False
    then obtain m where m: "j = n + m" using le_Suc_ex not_le by blast
    with 1 ne have "m div n < length (chunks n (drop n xs))
      \<and> length (chunks n (drop n xs) ! (m div n)) \<le> n
      \<and> m mod n < length (chunks n (drop n xs) ! (m div n))
      \<and> chunks n (drop n xs) ! (m div n) ! (m mod n) = drop n xs ! m"
      by (intro "1.IH") auto
    moreover have "(n + m) div n = Suc (m div n)" using "1.prems" by (simp add: div_add_self1)
    ultimately show ?thesis using m "1.prems" by (simp add: unf)
  qed
qed

lemma command_words_payload_update:
  assumes j: "j < length (cmd_payload c)" and x: "x \<noteq> cmd_payload c ! j"
  shows "\<exists>i w. i < length (command_words c) \<and> w \<noteq> command_words c ! i
    \<and> command_words (c\<lparr>cmd_payload := (cmd_payload c)[j := x]\<rparr>) = (command_words c)[i := w]"
proof -
  let ?cs = "chunks 8 (cmd_payload c)"
  let ?pre = "[ucast (cmd_abi_version c), cmd_sequence c, cmd_epoch c, cmd_session c,
     ucast (cmd_generation c), ucast (cmd_opcode c), cmd_flags c, cmd_object c, cmd_deadline_tick c]
    @ cmd_arguments c @ [ucast (cmd_payload_length c)]"
  let ?k = "j div 8"
  let ?new = "(?cs ! ?k)[j mod 8 := x]"
  have words: "command_words c = ?pre @ map bytes_word ?cs" by (simp add: command_words_def)
  have k: "?k < length ?cs" "length (?cs ! ?k) \<le> 8" "j mod 8 < length (?cs ! ?k)"
      "?cs ! ?k ! (j mod 8) = cmd_payload c ! j"
    using chunks_nth_length [of 8 j "cmd_payload c"] j by simp_all
  have neq: "bytes_word ?new \<noteq> bytes_word (?cs ! ?k)"
  proof
    assume "bytes_word ?new = bytes_word (?cs ! ?k)"
    then have "?new = ?cs ! ?k" using k(2) by (intro bytes_word_inj) simp_all
    with k(3,4) x show False by (metis nth_list_update_eq)
  qed
  have upd: "command_words (c\<lparr>cmd_payload := (cmd_payload c)[j := x]\<rparr>)
      = ?pre @ (map bytes_word ?cs)[?k := bytes_word ?new]"
    using chunks_update [of 8 j "cmd_payload c" x] j by (simp add: command_words_def map_update)
  show ?thesis
  proof (intro exI conjI)
    show "length ?pre + ?k < length (command_words c)" using k(1) by (simp add: words)
    show "bytes_word ?new \<noteq> command_words c ! (length ?pre + ?k)"
      using k(1) neq by (simp only: words nth_append_length_plus nth_map not_False_eq_True)
    show "command_words (c\<lparr>cmd_payload := (cmd_payload c)[j := x]\<rparr>)
        = (command_words c)[length ?pre + ?k := bytes_word ?new]"
      by (simp only: upd words list_update_append1 list_update_length list_update_append) simp
  qed
qed

lemma rep_root_seal: "rep_root (reply_seal r k) = reply_root k (reply_seal r k)"
  by (simp add: reply_seal_def Let_def reply_root_def)

section \<open>The page as three independent queues\<close>

datatype page_op =
    Publish_Snapshot QuantumSystemSnapshot
  | Read_Snapshot
  | Submit_Command QuantumDesktopCommand
  | Take_Command
  | Publish_Reply QuantumDesktopReply
  | Take_Reply

record page_log =
  snaps_in :: "QuantumSystemSnapshot list"
  snaps_out :: "QuantumSystemSnapshot list"
  cmds_in :: "QuantumDesktopCommand list"
  cmds_out :: "QuantumDesktopCommand list"
  reps_in :: "QuantumDesktopReply list"
  reps_out :: "QuantumDesktopReply list"

definition log_put :: "'x \<Rightarrow> ('e, unit) result \<Rightarrow> 'x list \<Rightarrow> 'x list" where
  "log_put x r xs = (case r of Inl _ \<Rightarrow> xs | Inr _ \<Rightarrow> xs @ [x])"

definition log_get :: "('e, 'x option) result \<Rightarrow> 'x list \<Rightarrow> 'x list" where
  "log_get r xs = (case r of Inr (Some x) \<Rightarrow> xs @ [x] | _ \<Rightarrow> xs)"

fun page_step :: "QuantumCrestPage \<times> page_log \<Rightarrow> page_op \<Rightarrow> QuantumCrestPage \<times> page_log" where
  "page_step (p, l) (Publish_Snapshot s) =
    (case kernel_publish_snapshot p s of (p', r) \<Rightarrow> (p', l\<lparr>snaps_in := log_put s r (snaps_in l)\<rparr>))"
| "page_step (p, l) Read_Snapshot =
    (case user_read_snapshot p of (p', r) \<Rightarrow> (p', l\<lparr>snaps_out := log_get r (snaps_out l)\<rparr>))"
| "page_step (p, l) (Submit_Command c) =
    (case user_submit_command p c of (p', r) \<Rightarrow> (p', l\<lparr>cmds_in := log_put c r (cmds_in l)\<rparr>))"
| "page_step (p, l) Take_Command =
    (case kernel_take_command p of (p', r) \<Rightarrow> (p', l\<lparr>cmds_out := log_get r (cmds_out l)\<rparr>))"
| "page_step (p, l) (Publish_Reply r0) =
    (case kernel_publish_reply p r0 of (p', r) \<Rightarrow> (p', l\<lparr>reps_in := log_put r0 r (reps_in l)\<rparr>))"
| "page_step (p, l) Take_Reply =
    (case user_take_reply p of (p', r) \<Rightarrow> (p', l\<lparr>reps_out := log_get r (reps_out l)\<rparr>))"

definition page_log_empty :: page_log where
  "page_log_empty = \<lparr>snaps_in = [], snaps_out = [], cmds_in = [], cmds_out = [], reps_in = [], reps_out = []\<rparr>"

definition channel_ok :: "'v mailbox \<Rightarrow> 'v list \<Rightarrow> 'v list \<Rightarrow> bool" where
  "channel_ok m put got \<longleftrightarrow> mailbox_wf m \<and> put = got @ mailbox_contents m"

definition page_inv :: "QuantumCrestPage \<times> page_log \<Rightarrow> bool" where
  "page_inv pl \<longleftrightarrow>
     channel_ok (page_snapshot (fst pl)) (snaps_in (snd pl)) (snaps_out (snd pl))
   \<and> channel_ok (page_command (fst pl)) (cmds_in (snd pl)) (cmds_out (snd pl))
   \<and> channel_ok (page_reply (fst pl)) (reps_in (snd pl)) (reps_out (snd pl))
   \<and> (\<forall>s \<in> set (snaps_in (snd pl)). snap_epoch s \<noteq> 0 \<and> snap_sequence s \<noteq> 0)
   \<and> (\<forall>c \<in> set (cmds_in (snd pl)). cmd_epoch c \<noteq> 0 \<and> cmd_sequence c \<noteq> 0)
   \<and> (\<forall>r \<in> set (reps_in (snd pl)). rep_command_sequence r \<noteq> 0)"

lemma channel_put:
  "channel_ok m put got \<Longrightarrow> mailbox_publish m x = (m', r) \<Longrightarrow> channel_ok m' (log_put x r put) got"
  by (auto simp: channel_ok_def log_put_def mailbox_defs split: if_splits)

lemma channel_get:
  "channel_ok m put got \<Longrightarrow> mailbox_take m = (m', r) \<Longrightarrow> channel_ok m' put (log_get r got)"
  by (auto simp: channel_ok_def log_get_def mailbox_defs split: if_splits)

lemma set_log_put: "x' \<in> set (log_put x r xs) \<Longrightarrow> x' = x \<or> x' \<in> set xs"
  by (auto simp: log_put_def split: sum.splits)

lemmas page_ops = kernel_publish_snapshot_def user_read_snapshot_def user_submit_command_def
  kernel_take_command_def kernel_publish_reply_def user_take_reply_def
  SnapshotCell_publish_def SnapshotCell_take_def CommandMailbox_submit_def CommandMailbox_take_def
  ReplyMailbox_publish_def ReplyMailbox_take_def

lemma log_put_err [simp]: "log_put x (Inl e) xs = xs"
  by (simp add: log_put_def)

lemma page_step_inv: "page_inv (p, l) \<Longrightarrow> page_inv (page_step (p, l) op)"
  by (cases op)
    (auto simp: page_inv_def page_ops Let_def split: prod.splits if_splits
      dest: channel_put channel_get set_log_put)

lemma page_inv_new: "page_inv (page_new, page_log_empty)"
  by (simp add: page_inv_def page_new_def page_log_empty_def channel_ok_def SnapshotCell_new_def
      CommandMailbox_new_def ReplyMailbox_new_def)

lemma page_run_inv: "page_inv pl \<Longrightarrow> page_inv (foldl page_step pl ops)"
proof (induction ops arbitrary: pl)
  case (Cons op ops)
  then have "page_inv (page_step pl op)" by (cases pl) (auto intro: page_step_inv)
  with Cons.IH show ?case by simp
qed simp

section \<open>Properties\<close>

text \<open>
  C20. Sealing and verification agree: a record sealed under a secret verifies under that secret
  exactly when its header is acceptable (ABI major 1, advertised size at least the record size, the
  identifying numbers nonzero, payload length within the payload array).
\<close>

theorem seal_then_verify:
  "(snapshot_verify (snapshot_seal s k) k \<longleftrightarrow>
      drop_bit 16 (snap_abi_version s) = 1 \<and> 256 \<le> unat (snap_struct_size s)
    \<and> snap_sequence s \<noteq> 0 \<and> snap_epoch s \<noteq> 0 \<and> snap_desktop_session s \<noteq> 0
    \<and> snap_desktop_generation s \<noteq> 0)
   \<and> (command_verify (command_seal c k) k \<longleftrightarrow>
      drop_bit 16 (cmd_abi_version c) = 1 \<and> 272 \<le> unat (cmd_struct_size c)
    \<and> cmd_sequence c \<noteq> 0 \<and> cmd_epoch c \<noteq> 0 \<and> cmd_session c \<noteq> 0 \<and> cmd_generation c \<noteq> 0
    \<and> cmd_opcode c \<noteq> 0 \<and> unat (cmd_payload_length c) \<le> 128)
   \<and> (reply_verify (reply_seal r k) k \<longleftrightarrow>
      drop_bit 16 (rep_abi_version r) = 1 \<and> 176 \<le> unat (rep_struct_size r)
    \<and> rep_command_sequence r \<noteq> 0)"
  by (simp add: snapshot_verify_def snap_root_seal command_verify_def cmd_root_seal
      reply_verify_def rep_root_seal crest_sizes QUANTUM_CREST_ABI_MAJOR_def
      QUANTUM_CREST_PAYLOAD_BYTES_def)
    (simp add: snapshot_seal_def command_seal_def reply_seal_def Let_def)

text \<open>
  C27. Tamper evidence of a sealed snapshot: if exactly one of the absorbed words of a sealed
  snapshot is altered (any field of the snapshot, its GPU, BlackLab or display part, except the
  struct size and the reserved words) and the root is kept, verification under the sealing secret
  fails.
\<close>

theorem snapshot_single_word_tamper:
  assumes "snap_root t = snap_root (snapshot_seal s k)"
    and "snapshot_words t = (snapshot_words s)[i := w]"
    and "i < length (snapshot_words s)" and "w \<noteq> snapshot_words s ! i"
  shows "\<not> snapshot_verify t k"
proof -
  have "snapshot_root k t \<noteq> snapshot_root k s"
    using sealed_foldl_neq [OF assms(3,4)] by (simp add: snapshot_root_words assms(2))
  with assms(1) show ?thesis by (simp add: snapshot_verify_def snap_root_seal)
qed

theorem snapshot_single_word_tamper_witness:
  "\<not> snapshot_verify ((snapshot_seal (snapshot_empty\<lparr>snap_sequence := 1\<rparr>) 7)\<lparr>snap_flags := 1\<rparr>) 7"
  by (rule snapshot_single_word_tamper
      [where s = "snapshot_empty\<lparr>snap_sequence := 1\<rparr>" and i = 6 and w = 1])
    (simp_all add: snapshot_words_def snapshot_seal_def Let_def snapshot_empty_def)

text \<open>
  Tamper evidence of a sealed command, down to the payload bytes: changing one byte of the
  payload array of a sealed command makes verification fail.
\<close>

theorem command_payload_byte_tamper:
  assumes "j < length (cmd_payload c)" and "x \<noteq> cmd_payload c ! j"
  shows "\<not> command_verify ((command_seal c k)\<lparr>cmd_payload := (cmd_payload c)[j := x]\<rparr>) k"
proof -
  let ?t = "(command_seal c k)\<lparr>cmd_payload := (cmd_payload c)[j := x]\<rparr>"
  obtain i w where i: "i < length (command_words c)" "w \<noteq> command_words c ! i"
    and eq: "command_words (c\<lparr>cmd_payload := (cmd_payload c)[j := x]\<rparr>) = (command_words c)[i := w]"
    using command_words_payload_update [OF assms] by blast
  have "command_words ?t = (command_words c)[i := w]"
    unfolding eq [symmetric] by (simp add: command_words_def command_seal_def Let_def)
  then have "command_root k ?t \<noteq> command_root k c"
    using sealed_foldl_neq [OF i] by (simp add: command_root_words)
  moreover have "cmd_root ?t = command_root k c"
    using cmd_root_seal [of c k] by simp
  ultimately show ?thesis by (simp add: command_verify_def)
qed

theorem command_payload_byte_tamper_witness:
  "\<not> command_verify ((command_seal command_empty 7)\<lparr>cmd_payload := (replicate 128 0)[5 := 1]\<rparr>) 7"
  using command_payload_byte_tamper [of 5 command_empty 1 7]
  by (simp add: command_empty_def QUANTUM_CREST_PAYLOAD_BYTES_def)


text \<open>
  C29. The page as a transport: for every sequence of calls on a fresh page, in any order, each of
  the three channels delivers a prefix of what it accepted, in order and without loss (at most one
  message is pending), the channels do not disturb each other, and no record with a zero epoch or
  sequence number is ever accepted.
\<close>

theorem page_channels_fifo:
  assumes "foldl page_step (page_new, page_log_empty) ops = (p, l)"
  shows "(\<exists>pending. snaps_in l = snaps_out l @ pending \<and> length pending \<le> 1)
    \<and> (\<exists>pending. cmds_in l = cmds_out l @ pending \<and> length pending \<le> 1)
    \<and> (\<exists>pending. reps_in l = reps_out l @ pending \<and> length pending \<le> 1)
    \<and> (\<forall>s \<in> set (snaps_out l). snap_epoch s \<noteq> 0 \<and> snap_sequence s \<noteq> 0)
    \<and> (\<forall>c \<in> set (cmds_out l). cmd_epoch c \<noteq> 0 \<and> cmd_sequence c \<noteq> 0)
    \<and> (\<forall>r \<in> set (reps_out l). rep_command_sequence r \<noteq> 0)"
proof -
  have inv: "page_inv (p, l)"
    using page_run_inv [OF page_inv_new, of ops] assms by simp
  from inv show ?thesis
    by (auto simp: page_inv_def channel_ok_def mailbox_contents_def)
qed

theorem page_channels_fifo_witness:
  "\<exists>p l. foldl page_step (page_new, page_log_empty)
      [Submit_Command (command_empty\<lparr>cmd_epoch := 7, cmd_sequence := 1\<rparr>), Take_Command, Take_Command]
      = (p, l) \<and> length (cmds_out l) = 1
    \<and> (\<exists>pending. cmds_in l = cmds_out l @ pending \<and> length pending \<le> 1)"
proof -
  let ?ops = "[Submit_Command (command_empty\<lparr>cmd_epoch := 7, cmd_sequence := 1\<rparr>), Take_Command, Take_Command]"
  obtain p l where run: "foldl page_step (page_new, page_log_empty) ?ops = (p, l)"
    by (cases "foldl page_step (page_new, page_log_empty) ?ops") blast
  then have "length (cmds_out l) = 1"
    by (auto simp: page_ops page_new_def page_log_empty_def CommandMailbox_new_def mailbox_new_def
        mailbox_defs log_put_def log_get_def)
  with run page_channels_fifo [OF run] show ?thesis by blast
qed

text \<open>
  A refused publication is not free of effects: publishing a valid snapshot or submitting a
  valid command into an occupied slot is refused as busy and leaves all three mailboxes unchanged,
  but the epoch word has already been overwritten with the epoch of the refused record.
\<close>

theorem busy_publication_moves_epoch:
  assumes "mb_state (page_snapshot p) \<noteq> MAILBOX_FREE" and "snap_epoch s \<noteq> 0" and "snap_sequence s \<noteq> 0"
    and "mb_state (page_command p) \<noteq> MAILBOX_FREE" and "cmd_epoch c \<noteq> 0" and "cmd_sequence c \<noteq> 0"
  shows "kernel_publish_snapshot p s = (p\<lparr>page_kernel_epoch := snap_epoch s\<rparr>, Err PortalBusy)
    \<and> user_submit_command p c = (p\<lparr>page_user_epoch := cmd_epoch c\<rparr>, Err PortalBusy)"
  using assms by (simp add: page_ops mailbox_publish_def mailbox_cas_def)

theorem busy_publication_moves_epoch_witness:
  "page_epochs (fst (kernel_publish_snapshot
      (page_new\<lparr>page_snapshot := (mailbox_new snapshot_empty)\<lparr>mb_state := MAILBOX_READY\<rparr>,
                page_command := (mailbox_new command_empty)\<lparr>mb_state := MAILBOX_READY\<rparr>\<rparr>)
      (snapshot_empty\<lparr>snap_epoch := 9, snap_sequence := 2\<rparr>))) = (9, 0)"
  using busy_publication_moves_epoch
    [of "page_new\<lparr>page_snapshot := (mailbox_new snapshot_empty)\<lparr>mb_state := MAILBOX_READY\<rparr>,
                page_command := (mailbox_new command_empty)\<lparr>mb_state := MAILBOX_READY\<rparr>\<rparr>"
       "snapshot_empty\<lparr>snap_epoch := 9, snap_sequence := 2\<rparr>"
       "command_empty\<lparr>cmd_epoch := 9, cmd_sequence := 2\<rparr>"]
  by (simp add: page_epochs_def page_new_def mailbox_states)

end
