(* ===== verification/Hermes_Manifold.thy ===== *)
theory Hermes_Manifold
  imports Quantum_Crest
begin

text \<open>
  The Hermes phase manifold, \<open>hermes_manifold.rs\<close>: the bring-up state machine of the GPU service
  processor.  A manifold carries its phase, the evidence collected so far, the sealed certificate
  and the fault counters; every operation is a guarded transition that may fail.
\<close>

section \<open>Phases\<close>

datatype HermesPhase =
    Offline
  | Probed
  | Firmwared
  | Queued
  | Negotiated
  | Online
  | Recovering
  | Quarantined

fun as_u8 :: "HermesPhase \<Rightarrow> u8" where
  "as_u8 Offline = 0"
| "as_u8 Probed = 1"
| "as_u8 Firmwared = 2"
| "as_u8 Queued = 3"
| "as_u8 Negotiated = 4"
| "as_u8 Online = 5"
| "as_u8 Recovering = 6"
| "as_u8 Quarantined = 7"

definition from_u8 :: "u8 \<Rightarrow> HermesPhase option" where
  "from_u8 v =
    (if v = 0 then Some Offline
     else if v = 1 then Some Probed
     else if v = 2 then Some Firmwared
     else if v = 3 then Some Queued
     else if v = 4 then Some Negotiated
     else if v = 5 then Some Online
     else if v = 6 then Some Recovering
     else if v = 7 then Some Quarantined
     else None)"

fun phase_label :: "HermesPhase \<Rightarrow> string" where
  "phase_label Offline = ''OFFLINE''"
| "phase_label Probed = ''PROBED''"
| "phase_label Firmwared = ''FIRMWARED''"
| "phase_label Queued = ''QUEUED''"
| "phase_label Negotiated = ''NEGOTIATED''"
| "phase_label Online = ''ONLINE''"
| "phase_label Recovering = ''RECOVERING''"
| "phase_label Quarantined = ''QUARANTINED''"

definition is_live :: "HermesPhase \<Rightarrow> bool" where
  "is_live p \<longleftrightarrow> p = Online"

definition is_degraded :: "HermesPhase \<Rightarrow> bool" where
  "is_degraded p \<longleftrightarrow> p = Recovering \<or> p = Quarantined"

text \<open>The derived \<open>Ord\<close> orders phases by discriminant.\<close>

lemma as_u8_inj: "as_u8 p = as_u8 q \<Longrightarrow> p = q"
  by (cases p; cases q) simp_all

instantiation HermesPhase :: linorder
begin

definition less_eq_HermesPhase :: "HermesPhase \<Rightarrow> HermesPhase \<Rightarrow> bool" where
  "p \<le> q \<longleftrightarrow> as_u8 p \<le> as_u8 q"

definition less_HermesPhase :: "HermesPhase \<Rightarrow> HermesPhase \<Rightarrow> bool" where
  "p < q \<longleftrightarrow> as_u8 p < as_u8 q"

instance
  by standard (auto simp: less_eq_HermesPhase_def less_HermesPhase_def intro: as_u8_inj)

end

section \<open>Feature lattice\<close>

definition BOOT_RPC :: u64 where "BOOT_RPC = push_bit 0 1"
definition COMMAND_RING :: u64 where "COMMAND_RING = push_bit 1 1"
definition EVENT_RING :: u64 where "EVENT_RING = push_bit 2 1"
definition RECOVERY :: u64 where "RECOVERY = push_bit 3 1"
definition DISPLAY :: u64 where "DISPLAY = push_bit 4 1"
definition COMPUTE :: u64 where "COMPUTE = push_bit 5 1"
definition COPY_ENGINE :: u64 where "COPY_ENGINE = push_bit 6 1"
definition TELEMETRY :: u64 where "TELEMETRY = push_bit 7 1"
definition POWER :: u64 where "POWER = push_bit 8 1"
definition MEMORY_MANAGEMENT :: u64 where "MEMORY_MANAGEMENT = push_bit 9 1"

lemmas feature_bits = BOOT_RPC_def COMMAND_RING_def EVENT_RING_def DISPLAY_def COMPUTE_def
  TELEMETRY_def POWER_def MEMORY_MANAGEMENT_def

definition well_formed :: "u64 \<Rightarrow> bool" where
  "well_formed bits =
    (if bits = 0 then True
     else if bits AND BOOT_RPC = 0 then False
     else if bits AND (COMMAND_RING OR EVENT_RING) \<noteq> 0
        \<and> (bits AND COMMAND_RING = 0 \<or> bits AND EVENT_RING = 0) then False
     else if bits AND DISPLAY \<noteq> 0 \<and> bits AND COMMAND_RING = 0 then False
     else if bits AND COMPUTE \<noteq> 0 \<and> bits AND MEMORY_MANAGEMENT = 0 then False
     else if bits AND POWER \<noteq> 0 \<and> bits AND TELEMETRY = 0 then False
     else True)"

section \<open>Evidence and certificate\<close>

datatype ManifoldFault =
    InvalidPhaseJump
  | MissingPci
  | MissingFirmware
  | MissingIommu
  | MissingDomain
  | MissingWpr
  | MissingMailbox
  | MissingReadyQueue
  | EmptyFeatures
  | IllFormedFeatures
  | GenerationMismatch
  | CertificateMissing

fun fault_label :: "ManifoldFault \<Rightarrow> string" where
  "fault_label InvalidPhaseJump = ''invalid phase jump''"
| "fault_label MissingPci = ''pci identity missing''"
| "fault_label MissingFirmware = ''firmware unmeasured''"
| "fault_label MissingIommu = ''iommu isolation missing''"
| "fault_label MissingDomain = ''dma domain missing''"
| "fault_label MissingWpr = ''wpr unlocked''"
| "fault_label MissingMailbox = ''boot mailbox failed''"
| "fault_label MissingReadyQueue = ''ready queue silent''"
| "fault_label EmptyFeatures = ''feature negotiation empty''"
| "fault_label IllFormedFeatures = ''feature lattice ill-formed''"
| "fault_label GenerationMismatch = ''generation mismatch''"
| "fault_label CertificateMissing = ''online certificate missing''"

record HermesEvidence =
  pci_matched :: bool
  firmware_measured :: bool
  iommu_isolated :: bool
  ev_dma_domain :: u32
  wpr_locked :: bool
  boot_mailbox_ok :: bool
  ready_queue_observed :: bool
  ev_negotiated_features :: u64

definition evidence_empty :: HermesEvidence where
  "evidence_empty = \<lparr>pci_matched = False, firmware_measured = False, iommu_isolated = False,
    ev_dma_domain = 0, wpr_locked = False, boot_mailbox_ok = False, ready_queue_observed = False,
    ev_negotiated_features = 0\<rparr>"

definition online_ready :: "HermesEvidence \<Rightarrow> (ManifoldFault, unit) result" where
  "online_ready e =
    (if \<not> pci_matched e then Err MissingPci
     else if \<not> firmware_measured e then Err MissingFirmware
     else if \<not> iommu_isolated e then Err MissingIommu
     else if ev_dma_domain e = 0 then Err MissingDomain
     else if \<not> wpr_locked e then Err MissingWpr
     else if \<not> boot_mailbox_ok e then Err MissingMailbox
     else if \<not> ready_queue_observed e then Err MissingReadyQueue
     else if ev_negotiated_features e = 0 then Err EmptyFeatures
     else if \<not> well_formed (ev_negotiated_features e) then Err IllFormedFeatures
     else Ok ())"

record OnlineCertificate =
  oc_generation :: u32
  oc_dma_domain :: u32
  oc_negotiated_features :: u64
  oc_root :: u64

definition certificate_seal ::
  "u32 \<Rightarrow> HermesEvidence \<Rightarrow> (ManifoldFault, OnlineCertificate) result" where
  "certificate_seal gen e =
    and_then (online_ready e) (\<lambda>_.
      let s0 = 0x4845524d45534d4e;
          s1 = (s0 XOR word_rotl 7 (ucast gen)) * 0x9e3779b185ebca87;
          s2 = (s1 XOR word_rotl 13 (ucast (ev_dma_domain e))) * 0x9e3779b185ebca87;
          s3 = (s2 XOR word_rotl 19 (ev_negotiated_features e)) * 0x9e3779b185ebca87;
          root = (if s3 = 0 then 1 else s3)
      in Ok \<lparr>oc_generation = gen, oc_dma_domain = ev_dma_domain e,
             oc_negotiated_features = ev_negotiated_features e, oc_root = root\<rparr>)"

section \<open>The manifold\<close>

record HermesManifold =
  hm_generation :: u32
  hm_phase :: HermesPhase
  hm_evidence :: HermesEvidence
  hm_certificate :: "OnlineCertificate option"
  hm_corrected_faults :: u32
  hm_fatal_faults :: u32

definition dark :: "u32 \<Rightarrow> HermesManifold" where
  "dark gen = \<lparr>hm_generation = gen, hm_phase = Offline, hm_evidence = evidence_empty,
    hm_certificate = None, hm_corrected_faults = 0, hm_fatal_faults = 0\<rparr>"

definition is_online :: "HermesManifold \<Rightarrow> bool" where
  "is_online m \<longleftrightarrow> is_live (hm_phase m) \<and> hm_certificate m \<noteq> None"

definition snapshot_flags :: "HermesManifold \<Rightarrow> u64" where
  "snapshot_flags m =
    (let f0 = 0;
         f1 = (if is_online m then f0 OR SNAPSHOT_FLAG_HERMES_ONLINE else f0);
         f2 = (if hm_phase m = Recovering then f1 OR SNAPSHOT_FLAG_RECOVERY_PENDING else f1);
         f3 = (if hm_phase m = Quarantined
               then f2 OR (SNAPSHOT_FLAG_QUARANTINE_ACTIVE OR SNAPSHOT_FLAG_DMA_REVOKED) else f2)
     in f3)"

type_synonym manifold_result = "HermesManifold \<times> (ManifoldFault, unit) result"

definition observe_probe :: "HermesManifold \<Rightarrow> bool \<Rightarrow> manifold_result" where
  "observe_probe m matched =
    (if hm_phase m \<noteq> Offline then (m, Err InvalidPhaseJump)
     else if \<not> matched then (m, Err MissingPci)
     else (m\<lparr>hm_evidence := (hm_evidence m)\<lparr>pci_matched := True\<rparr>, hm_phase := Probed\<rparr>, Ok ()))"

definition observe_firmware :: "HermesManifold \<Rightarrow> bool \<Rightarrow> manifold_result" where
  "observe_firmware m measured =
    (if hm_phase m \<noteq> Probed then (m, Err InvalidPhaseJump)
     else if \<not> measured then (m, Err MissingFirmware)
     else (m\<lparr>hm_evidence := (hm_evidence m)\<lparr>firmware_measured := True\<rparr>, hm_phase := Firmwared\<rparr>, Ok ()))"

definition arm_queues :: "HermesManifold \<Rightarrow> bool \<Rightarrow> u32 \<Rightarrow> manifold_result" where
  "arm_queues m iommu dma =
    (if hm_phase m \<noteq> Firmwared then (m, Err InvalidPhaseJump)
     else if \<not> iommu then (m, Err MissingIommu)
     else if dma = 0 then (m, Err MissingDomain)
     else (m\<lparr>hm_evidence := (hm_evidence m)\<lparr>iommu_isolated := True, ev_dma_domain := dma\<rparr>,
             hm_phase := Queued\<rparr>, Ok ()))"

definition negotiate :: "HermesManifold \<Rightarrow> u64 \<Rightarrow> manifold_result" where
  "negotiate m features =
    (if hm_phase m \<noteq> Queued then (m, Err InvalidPhaseJump)
     else if features = 0 then (m, Err EmptyFeatures)
     else if \<not> well_formed features then (m, Err IllFormedFeatures)
     else (m\<lparr>hm_evidence := (hm_evidence m)\<lparr>ev_negotiated_features := features\<rparr>,
             hm_phase := Negotiated\<rparr>, Ok ()))"

definition ignite :: "HermesManifold \<Rightarrow> bool \<Rightarrow> bool \<Rightarrow> bool \<Rightarrow> manifold_result" where
  "ignite m wpr mbox ready =
    (if hm_phase m \<noteq> Negotiated then (m, Err InvalidPhaseJump)
     else
       let m1 = m\<lparr>hm_evidence := (hm_evidence m)\<lparr>wpr_locked := wpr, boot_mailbox_ok := mbox,
                   ready_queue_observed := ready\<rparr>\<rparr>
       in case certificate_seal (hm_generation m1) (hm_evidence m1) of
            Inl e \<Rightarrow> (m1, Err e)
          | Inr c \<Rightarrow> (m1\<lparr>hm_certificate := Some c, hm_phase := Online\<rparr>, Ok ()))"

definition detect_fault :: "HermesManifold \<Rightarrow> bool \<Rightarrow> manifold_result" where
  "detect_fault m fatal =
    (if hm_phase m \<noteq> Online then (m, Err InvalidPhaseJump)
     else if hm_certificate m = None then (m, Err CertificateMissing)
     else
       let m1 = (if fatal then m\<lparr>hm_fatal_faults := saturating_add (hm_fatal_faults m) 1\<rparr>
                 else m\<lparr>hm_corrected_faults := saturating_add (hm_corrected_faults m) 1\<rparr>)
       in (m1\<lparr>hm_phase := Recovering\<rparr>, Ok ()))"

definition restore :: "HermesManifold \<Rightarrow> manifold_result" where
  "restore m =
    (if hm_phase m \<noteq> Recovering then (m, Err InvalidPhaseJump)
     else if hm_certificate m = None then (m, Err CertificateMissing)
     else (m\<lparr>hm_phase := Online\<rparr>, Ok ()))"

definition contain :: "HermesManifold \<Rightarrow> manifold_result" where
  "contain m =
    (if hm_phase m \<noteq> Recovering then (m, Err InvalidPhaseJump)
     else (m\<lparr>hm_phase := Quarantined\<rparr>, Ok ()))"

definition release :: "HermesManifold \<Rightarrow> manifold_result" where
  "release m =
    (if hm_phase m \<noteq> Quarantined then (m, Err InvalidPhaseJump)
     else (dark (hm_generation m + 1), Ok ()))"

section \<open>Calls and reachable manifolds\<close>

datatype hermes_op =
    Observe_Probe bool
  | Observe_Firmware bool
  | Arm_Queues bool u32
  | Negotiate u64
  | Ignite bool bool bool
  | Detect_Fault bool
  | Restore
  | Contain
  | Release

fun hermes_exec :: "HermesManifold \<Rightarrow> hermes_op \<Rightarrow> manifold_result" where
  "hermes_exec m (Observe_Probe b) = observe_probe m b"
| "hermes_exec m (Observe_Firmware b) = observe_firmware m b"
| "hermes_exec m (Arm_Queues b d) = arm_queues m b d"
| "hermes_exec m (Negotiate f) = negotiate m f"
| "hermes_exec m (Ignite w b r) = ignite m w b r"
| "hermes_exec m (Detect_Fault f) = detect_fault m f"
| "hermes_exec m Restore = restore m"
| "hermes_exec m Contain = contain m"
| "hermes_exec m Release = release m"

inductive hermes_reachable :: "u32 \<Rightarrow> HermesManifold \<Rightarrow> bool" for g where
  start: "hermes_reachable g (dark g)"
| call: "hermes_reachable g m \<Longrightarrow> hermes_exec m op = (m', r) \<Longrightarrow> hermes_reachable g m'"

lemmas hermes_ops = observe_probe_def observe_firmware_def arm_queues_def negotiate_def ignite_def
  detect_fault_def restore_def contain_def release_def

section \<open>Invariant\<close>

text \<open>
  What each phase guarantees.  The gates accumulate: a phase keeps the evidence of the phases before
  it; from \<open>Online\<close> on, the certificate is the seal of the current generation and evidence.
\<close>

definition manifold_inv :: "HermesManifold \<Rightarrow> bool" where
  "manifold_inv m \<longleftrightarrow>
     (let e = hm_evidence m; p = hm_phase m in
       (Probed \<le> p \<longrightarrow> pci_matched e)
     \<and> (Firmwared \<le> p \<longrightarrow> firmware_measured e)
     \<and> (Queued \<le> p \<longrightarrow> iommu_isolated e \<and> ev_dma_domain e \<noteq> 0)
     \<and> (Negotiated \<le> p \<longrightarrow> ev_negotiated_features e \<noteq> 0 \<and> well_formed (ev_negotiated_features e))
     \<and> (Online \<le> p \<longrightarrow> (\<exists>c. hm_certificate m = Some c \<and> certificate_seal (hm_generation m) e = Inr c))
     \<and> (p < Online \<longrightarrow> hm_certificate m = None \<and> hm_corrected_faults m = 0 \<and> hm_fatal_faults m = 0))"

lemma phase_order [simp]:
  "\<not> Probed \<le> Offline" "\<not> Firmwared \<le> Probed" "\<not> Queued \<le> Firmwared" "\<not> Negotiated \<le> Queued"
  "\<not> Online \<le> Negotiated"
  by (simp_all add: less_eq_HermesPhase_def word_le_nat_alt)

lemmas phase_le = less_eq_HermesPhase_def less_HermesPhase_def word_le_nat_alt word_less_nat_alt

lemma manifold_inv_dark: "manifold_inv (dark g)"
  by (simp add: manifold_inv_def dark_def phase_le Let_def)

lemma manifold_inv_exec:
  assumes "manifold_inv m" and "hermes_exec m op = (m', r)"
  shows "manifold_inv m'"
proof (cases op)
  case (Ignite w b q)
  with assms show ?thesis
    by (auto simp: manifold_inv_def hermes_ops Let_def phase_le split: if_splits sum.splits)
next
  case Release
  with assms show ?thesis
    by (auto simp: release_def manifold_inv_dark split: if_splits)
qed (use assms in \<open>auto simp: manifold_inv_def hermes_ops Let_def phase_le split: if_splits\<close>)

lemma hermes_reachable_inv: "hermes_reachable g m \<Longrightarrow> manifold_inv m"
  by (induction rule: hermes_reachable.induct) (auto intro: manifold_inv_dark manifold_inv_exec)

lemma hermes_reachable_run:
  "hermes_reachable g m \<Longrightarrow> hermes_reachable g (foldl (\<lambda>m op. fst (hermes_exec m op)) m ops)"
proof (induction ops arbitrary: m)
  case (Cons op ops)
  obtain m' r where x: "hermes_exec m op = (m', r)" by (cases "hermes_exec m op") blast
  from Cons.prems x have "hermes_reachable g m'" by (rule hermes_reachable.call)
  then have "hermes_reachable g (foldl (\<lambda>m op. fst (hermes_exec m op)) m' ops)" by (rule Cons.IH)
  with x show ?case by simp
qed simp

lemma certificate_seal_Inr:
  "certificate_seal g e = Inr c \<Longrightarrow>
    online_ready e = Inr () \<and> oc_generation c = g \<and> oc_dma_domain c = ev_dma_domain e
    \<and> oc_negotiated_features c = ev_negotiated_features e \<and> oc_root c \<noteq> 0"
  by (auto simp: certificate_seal_def Let_def and_then_Inr_iff split: if_splits)

lemma online_ready_iff:
  "online_ready e = Inr () \<longleftrightarrow>
     pci_matched e \<and> firmware_measured e \<and> iommu_isolated e \<and> ev_dma_domain e \<noteq> 0 \<and> wpr_locked e
   \<and> boot_mailbox_ok e \<and> ready_queue_observed e \<and> ev_negotiated_features e \<noteq> 0
   \<and> well_formed (ev_negotiated_features e)"
  by (simp add: online_ready_def)

lemma flag_bits:
  "bit (snapshot_flags m) 0 \<longleftrightarrow> is_online m"
  "bit (snapshot_flags m) 5 \<longleftrightarrow> hm_phase m = Recovering"
  "bit (snapshot_flags m) 3 \<longleftrightarrow> hm_phase m = Quarantined"
  "bit (snapshot_flags m) 4 \<longleftrightarrow> hm_phase m = Quarantined"
  by (auto simp: snapshot_flags_def Let_def is_online_def is_live_def SNAPSHOT_FLAG_HERMES_ONLINE_def
      SNAPSHOT_FLAG_QUARANTINE_ACTIVE_def SNAPSHOT_FLAG_DMA_REVOKED_def
      SNAPSHOT_FLAG_RECOVERY_PENDING_def bit_or_iff bit_push_bit_iff)

section \<open>Properties\<close>

text \<open>
  C10. Online is never fabricated: in every manifold reachable by any sequence of calls, successful
  or not, the Online phase (and the HERMES_ONLINE snapshot flag) implies that every gate was passed
  and that the stored certificate is sealed over exactly the current generation, DMA domain and
  features, with a nonzero root.
\<close>

theorem online_implies_evidence:
  assumes "hermes_reachable g m" and "hm_phase m = Online"
  shows "is_online m \<and> bit (snapshot_flags m) 0 \<and> online_ready (hm_evidence m) = Ok ()
    \<and> (\<exists>c. hm_certificate m = Some c \<and> oc_generation c = hm_generation m
         \<and> oc_dma_domain c = ev_dma_domain (hm_evidence m)
         \<and> oc_negotiated_features c = ev_negotiated_features (hm_evidence m) \<and> oc_root c \<noteq> 0)"
proof -
  from hermes_reachable_inv [OF assms(1)] assms(2) obtain c where
    c: "hm_certificate m = Some c" "certificate_seal (hm_generation m) (hm_evidence m) = Inr c"
    by (auto simp: manifold_inv_def Let_def)
  moreover from c(1) assms(2) have "is_online m" by (simp add: is_online_def is_live_def)
  ultimately show ?thesis
    using certificate_seal_Inr [OF c(2)] by (simp add: flag_bits)
qed

definition demo_bring_up :: "hermes_op list" where
  "demo_bring_up = [Observe_Probe True, Observe_Firmware True, Arm_Queues True 3, Negotiate 7,
    Ignite True True True]"

lemma well_formed_7: "well_formed 7"
  by code_simp

lemmas demo_run = demo_bring_up_def hermes_ops dark_def Let_def certificate_seal_def online_ready_def
  is_online_def is_live_def well_formed_7

theorem online_implies_evidence_witness:
  "\<exists>m c. hermes_reachable 7 m \<and> hm_phase m = Online \<and> hm_certificate m = Some c
    \<and> oc_generation c = 7 \<and> oc_root c \<noteq> 0"
proof -
  let ?m = "foldl (\<lambda>m op. fst (hermes_exec m op)) (dark 7) demo_bring_up"
  have r: "hermes_reachable 7 ?m" by (rule hermes_reachable_run [OF hermes_reachable.start])
  have p: "hm_phase ?m = Online" and g: "hm_generation ?m = 7" by (simp_all add: demo_run)
  from online_implies_evidence [OF r p] g obtain c where
    "hm_certificate ?m = Some c" "oc_generation c = 7" "oc_root c \<noteq> 0" by auto
  with r p show ?thesis by blast
qed

text \<open>
  The phase lattice: a call either fails and keeps phase, generation, certificate and fault
  counters (only a failed ignition records its three observations in the evidence), or it succeeds
  along one of the nine edges of the lattice.  No call reaches Online except ignition from
  Negotiated and restoration from Recovering, and only a release changes the generation.
\<close>

theorem hermes_edges:
  assumes "hermes_exec m op = (m', r)"
  shows "case r of
      Inl e \<Rightarrow> hm_phase m' = hm_phase m \<and> hm_generation m' = hm_generation m
        \<and> hm_certificate m' = hm_certificate m \<and> hm_corrected_faults m' = hm_corrected_faults m
        \<and> hm_fatal_faults m' = hm_fatal_faults m \<and> e \<noteq> GenerationMismatch
        \<and> (m' \<noteq> m \<longrightarrow> hm_phase m = Negotiated \<and> (\<exists>w b q. op = Ignite w b q))
    | Inr _ \<Rightarrow> (hm_phase m, hm_phase m') \<in>
          {(Offline, Probed), (Probed, Firmwared), (Firmwared, Queued), (Queued, Negotiated),
           (Negotiated, Online), (Online, Recovering), (Recovering, Online),
           (Recovering, Quarantined), (Quarantined, Offline)}
        \<and> hm_generation m' = (if op = Release then hm_generation m + 1 else hm_generation m)"
  using assms
  by (cases op) (auto simp: hermes_ops Let_def dark_def certificate_seal_def online_ready_def
      split: if_splits sum.splits)

theorem hermes_edges_witness:
  "\<exists>m' e. hermes_exec (dark 1) (Ignite True True True) = (m', Inl e) \<and> hm_phase m' = Offline"
proof -
  obtain m' r where x: "hermes_exec (dark 1) (Ignite True True True) = (m', r)" by fastforce
  then have "r = Inl InvalidPhaseJump" by (auto simp: ignite_def dark_def)
  with hermes_edges [OF x] x show ?thesis by (auto simp: dark_def)
qed

text \<open>
  Feature well-formedness is the lattice the comment states: nothing at all, or boot RPC with
  the two rings together or absent, display only with the command ring, compute only with memory
  management, power only with telemetry.
\<close>

theorem well_formed_lattice:
  "well_formed f \<longleftrightarrow> f = 0 \<or>
     bit f 0 \<and> (bit f 1 \<longleftrightarrow> bit f 2) \<and> (bit f 4 \<longrightarrow> bit f 1) \<and> (bit f 5 \<longrightarrow> bit f 9) \<and> (bit f 8 \<longrightarrow> bit f 7)"
proof -
  have mask: "f AND push_bit n 1 = 0 \<longleftrightarrow> \<not> bit f n" for n
    by (simp add: push_bit_of_1 and_exp_eq_0_iff_not_bit)
  have rings: "f AND (push_bit 1 1 OR push_bit 2 1) = 0 \<longleftrightarrow> \<not> bit f 1 \<and> \<not> bit f 2"
    by (simp only: bit.conj_disj_distrib or_eq_0_iff mask)
  show ?thesis
    unfolding well_formed_def feature_bits
    by (auto simp only: mask rings split: if_splits)
qed

theorem well_formed_lattice_witness: "well_formed 0x3a7 \<and> \<not> well_formed 0x11"
  unfolding well_formed_lattice by simp

text \<open>
  Bring-up succeeds: from a dark manifold the five gates, given matching observations, a nonzero
  domain and nonzero well-formed features, reach Online with a certificate for that generation.
\<close>

theorem bring_up_reaches_online:
  assumes "d \<noteq> 0" and "f \<noteq> 0" and "well_formed f"
  shows "\<exists>m. foldl (\<lambda>m op. fst (hermes_exec m op)) (dark g)
      [Observe_Probe True, Observe_Firmware True, Arm_Queues True d, Negotiate f, Ignite True True True]
      = m \<and> is_online m \<and> hm_generation m = g \<and> hm_phase m = Online"
  using assms
  by (simp add: hermes_ops dark_def Let_def certificate_seal_def online_ready_def is_online_def
      is_live_def)

theorem bring_up_reaches_online_witness:
  "is_online (foldl (\<lambda>m op. fst (hermes_exec m op)) (dark 9)
      [Observe_Probe True, Observe_Firmware True, Arm_Queues True 3, Negotiate 7, Ignite True True True])"
  using bring_up_reaches_online [of 3 7 9] well_formed_7 by simp

text \<open>
  Phase codes round-trip, and exactly the codes 0 to 7 decode.
\<close>

theorem phase_code_roundtrip:
  "from_u8 (as_u8 p) = Some p \<and> (from_u8 v = Some p \<longleftrightarrow> v = as_u8 p) \<and> (from_u8 v = None \<longleftrightarrow> 7 < v)"
proof -
  have "7 < v \<longleftrightarrow> v \<noteq> 0 \<and> v \<noteq> 1 \<and> v \<noteq> 2 \<and> v \<noteq> 3 \<and> v \<noteq> 4 \<and> v \<noteq> 5 \<and> v \<noteq> 6 \<and> v \<noteq> 7"
    by (simp add: word_less_nat_alt word_unat_eq_iff) linarith
  then show ?thesis
    by (cases p) (auto simp: from_u8_def split: if_splits)
qed

end
