(* ===== verification/Service_Calculus.thy ===== *)
theory Service_Calculus
  imports Quantum_Crest
begin

text \<open>
  The service calculus, \<open>service_calculus.rs\<close>: the rate-latency curve and its deterministic delay
  bound, the fixed-capacity conformal residual calibrator, and the admission controller with its
  sealed admission certificates.

  The const generic \<open>N\<close> is the length of the residual array.  \<open>usize\<close> counters of the calibrator are
  naturals with \<open>checked_usize\<close> where the code uses checked arithmetic; tick values are 64-bit words.
\<close>

section \<open>Mixing\<close>

definition mix :: "u64 \<Rightarrow> u64 \<Rightarrow> u64" where
  "mix state word =
    (let s1 = state XOR word * 0x9e3779b97f4a7c15;
         s2 = s1 XOR drop_bit 30 s1;
         s3 = s2 * 0xbf58476d1ce4e5b9;
         s4 = s3 XOR drop_bit 27 s3;
         s5 = s4 * 0x94d049bb133111eb
     in s5 XOR drop_bit 31 s5)"

section \<open>Service curve\<close>

definition Q16_ONE :: u64 where "Q16_ONE = push_bit 16 1"
definition DEFAULT_CONFORMAL_NUMERATOR :: u8 where "DEFAULT_CONFORMAL_NUMERATOR = 15"
definition DEFAULT_CONFORMAL_DENOMINATOR :: u8 where "DEFAULT_CONFORMAL_DENOMINATOR = 16"

record ServiceCurve =
  minimum_completions_per_window :: u16
  maximum_admissions_per_window :: u16
  window_ticks :: u64
  latency_ticks :: u64
  maximum_backlog :: u16

definition curve_valid :: "ServiceCurve \<Rightarrow> bool" where
  "curve_valid c \<longleftrightarrow>
     minimum_completions_per_window c \<noteq> 0 \<and> maximum_admissions_per_window c \<noteq> 0
   \<and> window_ticks c \<noteq> 0 \<and> maximum_backlog c \<noteq> 0
   \<and> minimum_completions_per_window c \<le> maximum_backlog c
   \<and> maximum_admissions_per_window c \<le> maximum_backlog c"

definition deterministic_delay :: "ServiceCurve \<Rightarrow> usize \<Rightarrow> u64 option" where
  "deterministic_delay c backlog_before =
    (if \<not> curve_valid c \<or> backlog_before \<ge> ucast (maximum_backlog c) then None
     else
       Option.bind (checked_add backlog_before 1) (\<lambda>demand.
       let service = ucast (minimum_completions_per_window c) in
       Option.bind (checked_add demand (service - 1)) (\<lambda>num.
       Option.bind (checked_div num service) (\<lambda>windows.
       Option.bind (checked_mul windows (window_ticks c)) (\<lambda>span.
       checked_add (latency_ticks c) span)))))"

section \<open>Residual calibrator\<close>

datatype CalibrationFault =
    ZeroCapacity
  | InvalidCoverage
  | CalTimeRegression
  | CalArithmeticOverflow
  | CorruptCertificate

record ResidualCalibrator =
  cal_residuals :: "u64 list"
  cal_length :: nat
  cal_cursor :: nat
  cal_samples :: u64
  cal_coverage_numerator :: u8
  cal_coverage_denominator :: u8
  cal_additive_slack :: u64
  cal_maximum_guard :: u64
  cal_secret :: u64
  cal_root :: u64

definition calibrator_root :: "ResidualCalibrator \<Rightarrow> u64" where
  "calibrator_root k =
    (let s0 = mix (cal_secret k) (cal_samples k);
         s1 = mix s0 (of_nat (cal_length k));
         s2 = mix s1 (of_nat (cal_cursor k));
         s3 = mix s2 (ucast (cal_coverage_numerator k) OR push_bit 8 (ucast (cal_coverage_denominator k)));
         s4 = mix s3 (cal_additive_slack k);
         s5 = mix s4 (cal_maximum_guard k)
     in foldl mix s5 (take (cal_length k) (cal_residuals k)))"

definition calibrator_seal :: "ResidualCalibrator \<Rightarrow> ResidualCalibrator" where
  "calibrator_seal k = k\<lparr>cal_root := calibrator_root k\<rparr>"

definition calibrator_new ::
  "nat \<Rightarrow> u8 \<Rightarrow> u8 \<Rightarrow> u64 \<Rightarrow> u64 \<Rightarrow> u64 \<Rightarrow> (CalibrationFault, ResidualCalibrator) result" where
  "calibrator_new N num den slack max_guard secret =
    (if N = 0 then Err ZeroCapacity
     else if num = 0 \<or> den = 0 \<or> num \<ge> den \<or> max_guard = 0 \<or> secret = 0 then Err InvalidCoverage
     else Ok (calibrator_seal \<lparr>cal_residuals = replicate N 0, cal_length = 0, cal_cursor = 0,
       cal_samples = 0, cal_coverage_numerator = num, cal_coverage_denominator = den,
       cal_additive_slack = slack, cal_maximum_guard = max_guard, cal_secret = secret,
       cal_root = 0\<rparr>))"

definition calibrator_kernel_default ::
  "nat \<Rightarrow> u64 \<Rightarrow> u64 \<Rightarrow> u64 \<Rightarrow> (CalibrationFault, ResidualCalibrator) result" where
  "calibrator_kernel_default N slack max_guard secret =
    calibrator_new N DEFAULT_CONFORMAL_NUMERATOR DEFAULT_CONFORMAL_DENOMINATOR slack max_guard secret"

definition calibrator_guard :: "ResidualCalibrator \<Rightarrow> (CalibrationFault, u64) result" where
  "calibrator_guard k =
    (if cal_length k = 0 then Ok (min (cal_additive_slack k) (cal_maximum_guard k))
     else
       let sorted = sort (take (cal_length k) (cal_residuals k)) in
       and_then
         (ok_or CalArithmeticOverflow
           (Option.bind (checked_usize (cal_length k + 1)) (\<lambda>v.
             checked_usize (v * unat (cal_coverage_numerator k)))))
         (\<lambda>numerator.
           let denominator = unat (cal_coverage_denominator k) in
           and_then (ok_or CalArithmeticOverflow (checked_usize (numerator + (denominator - 1))))
             (\<lambda>num.
               let rank = num div denominator;
                   index = min (rank - 1) (cal_length k - 1)
               in and_then
                    (ok_or CalArithmeticOverflow
                      (checked_add (sorted ! index) (cal_additive_slack k)))
                    (\<lambda>value. Ok (min value (cal_maximum_guard k))))))"

definition calibrator_push ::
  "ResidualCalibrator \<Rightarrow> u64 \<Rightarrow> ResidualCalibrator \<times> (CalibrationFault, u64) result" where
  "calibrator_push k residual =
    (let N = length (cal_residuals k);
         bounded = min residual (cal_maximum_guard k);
         k1 = k\<lparr>cal_residuals := (cal_residuals k)[cal_cursor k := bounded],
                cal_cursor := (cal_cursor k + 1) mod N,
                cal_length := min (cal_length k + 1) N,
                cal_samples := saturating_add (cal_samples k) 1\<rparr>;
         k2 = calibrator_seal k1
     in (k2, calibrator_guard k2))"

definition calibrator_verify_root :: "ResidualCalibrator \<Rightarrow> bool" where
  "calibrator_verify_root k \<longleftrightarrow> cal_root k = calibrator_root k"

section \<open>Admission certificates\<close>

datatype AdmissionFault =
    InvalidCurve
  | BacklogSaturated
  | ArrivalEnvelopeExceeded
  | DeadlineUnsafe
  | TimeRegression
  | ArithmeticOverflow
  | StaleReservation
  | CorruptObservation

record AdmissionCertificate =
  ac_reservation_sequence :: u64
  ac_admitted_tick :: u64
  ac_window_start :: u64
  ac_backlog_before :: u16
  ac_admitted_before :: u16
  ac_deterministic_delay_ticks :: u64
  ac_uncertainty_guard_ticks :: u64
  ac_drift_penalty_ticks :: u64
  ac_delay_bound_ticks :: u64
  ac_deadline_slack_ticks :: u64
  ac_curve_root :: u64
  ac_calibration_root :: u64
  ac_certificate_root :: u64

definition certificate_valid :: "AdmissionCertificate \<Rightarrow> bool" where
  "certificate_valid a \<longleftrightarrow>
     ac_reservation_sequence a \<noteq> 0 \<and> ac_delay_bound_ticks a \<noteq> 0 \<and> ac_curve_root a \<noteq> 0
   \<and> ac_calibration_root a \<noteq> 0 \<and> ac_certificate_root a \<noteq> 0"

definition certificate_EMPTY :: AdmissionCertificate where
  "certificate_EMPTY = \<lparr>ac_reservation_sequence = 0, ac_admitted_tick = 0, ac_window_start = 0,
     ac_backlog_before = 0, ac_admitted_before = 0, ac_deterministic_delay_ticks = 0,
     ac_uncertainty_guard_ticks = 0, ac_drift_penalty_ticks = 0, ac_delay_bound_ticks = 0,
     ac_deadline_slack_ticks = 0, ac_curve_root = 0, ac_calibration_root = 0, ac_certificate_root = 0\<rparr>"

definition service_curve_root :: "u64 \<Rightarrow> ServiceCurve \<Rightarrow> u64" where
  "service_curve_root secret c = foldl mix secret
    [ucast (minimum_completions_per_window c), ucast (maximum_admissions_per_window c),
     window_ticks c, latency_ticks c, ucast (maximum_backlog c)]"

definition certificate_words :: "AdmissionCertificate \<Rightarrow> u64 list" where
  "certificate_words a =
    [ac_reservation_sequence a, ac_admitted_tick a, ac_window_start a,
     ucast (ac_backlog_before a) OR push_bit 16 (ucast (ac_admitted_before a)),
     ac_deterministic_delay_ticks a, ac_uncertainty_guard_ticks a, ac_drift_penalty_ticks a,
     ac_delay_bound_ticks a, ac_deadline_slack_ticks a, ac_curve_root a, ac_calibration_root a]"

definition admission_certificate_root :: "u64 \<Rightarrow> AdmissionCertificate \<Rightarrow> u64" where
  "admission_certificate_root secret a = foldl mix secret (certificate_words a)"

section \<open>Controller\<close>

record ServiceController =
  ctl_curve :: ServiceCurve
  ctl_secret :: u64
  ctl_window_start :: u64
  ctl_last_tick :: u64
  ctl_admitted_in_window :: u16
  ctl_reservation_sequence :: u64
  ctl_accepted :: u64
  ctl_rejected :: u64
  ctl_observed :: u64
  ctl_virtual_backlog_q16 :: u64
  ctl_curve_root :: u64
  ctl_calibrator :: ResidualCalibrator

definition controller_new ::
  "nat \<Rightarrow> ServiceCurve \<Rightarrow> u64 \<Rightarrow> u64 \<Rightarrow> (AdmissionFault, ServiceController) result" where
  "controller_new N curve now_tick secret =
    (if \<not> curve_valid curve \<or> secret = 0 \<or> N = 0 then Err InvalidCurve
     else
       let curve_root = service_curve_root secret curve in
       if curve_root = 0 then Err InvalidCurve
       else
         and_then
           (ok_or ArithmeticOverflow (checked_mul (window_ticks curve) (ucast (maximum_backlog curve))))
           (\<lambda>maximum_guard.
             and_then
               (map_err (\<lambda>_. InvalidCurve)
                 (calibrator_kernel_default N 1 (max maximum_guard 1) (mix secret 0x43414c4942524154)))
               (\<lambda>calibrator. Ok \<lparr>ctl_curve = curve, ctl_secret = secret,
                 ctl_window_start = now_tick, ctl_last_tick = now_tick, ctl_admitted_in_window = 0,
                 ctl_reservation_sequence = 0, ctl_accepted = 0, ctl_rejected = 0, ctl_observed = 0,
                 ctl_virtual_backlog_q16 = 0, ctl_curve_root = curve_root,
                 ctl_calibrator = calibrator\<rparr>)))"

definition uncertainty_guard_ticks :: "ServiceController \<Rightarrow> u64" where
  "uncertainty_guard_ticks c =
    (case calibrator_guard (ctl_calibrator c) of Inl _ \<Rightarrow> window_ticks (ctl_curve c) | Inr g \<Rightarrow> g)"

definition reject :: "ServiceController \<Rightarrow> ServiceController" where
  "reject c = c\<lparr>ctl_rejected := saturating_add (ctl_rejected c) 1\<rparr>"

definition drift_penalty_ticks :: "ServiceController \<Rightarrow> u64" where
  "drift_penalty_ticks c =
    (let jobs = drop_bit 16 (ctl_virtual_backlog_q16 c) in
     if jobs = 0 then 0
     else
       let service = ucast (minimum_completions_per_window (ctl_curve c));
           windows = saturating_add jobs (service - 1) div service
       in saturating_mul windows (window_ticks (ctl_curve c)))"

definition advance ::
  "ServiceController \<Rightarrow> u64 \<Rightarrow> ServiceController \<times> (AdmissionFault, unit) result" where
  "advance c now_tick =
    (if now_tick < ctl_last_tick c \<or> now_tick < ctl_window_start c
     then (reject c, Err TimeRegression)
     else
       let elapsed = now_tick - ctl_window_start c;
           wt = window_ticks (ctl_curve c)
       in if elapsed \<ge> wt then
            let windows = elapsed div wt in
            case Option.bind (checked_mul windows wt) (checked_add (ctl_window_start c)) of
              None \<Rightarrow> (c, Err ArithmeticOverflow)
            | Some ws \<Rightarrow>
                let c1 = c\<lparr>ctl_window_start := ws, ctl_admitted_in_window := 0\<rparr> in
                (case Option.bind
                    (checked_mul windows (ucast (minimum_completions_per_window (ctl_curve c))))
                    (\<lambda>v. checked_mul v Q16_ONE) of
                   None \<Rightarrow> (c1, Err ArithmeticOverflow)
                 | Some service \<Rightarrow>
                     (c1\<lparr>ctl_virtual_backlog_q16 := saturating_sub (ctl_virtual_backlog_q16 c) service,
                         ctl_last_tick := now_tick\<rparr>, Ok ()))
          else (c\<lparr>ctl_last_tick := now_tick\<rparr>, Ok ()))"

definition verify_certificate :: "ServiceController \<Rightarrow> AdmissionCertificate \<Rightarrow> bool" where
  "verify_certificate c a \<longleftrightarrow>
     certificate_valid a \<and> ac_curve_root a = ctl_curve_root c
   \<and> ac_certificate_root a = admission_certificate_root (ctl_secret c) a"

text \<open>The reservation itself: every mutation that follows the deadline check of \<open>admit\<close>.\<close>

definition admit_reserve ::
  "ServiceController \<Rightarrow> u64 \<Rightarrow> usize \<Rightarrow> u64 \<Rightarrow> u64 \<Rightarrow> u64 \<Rightarrow> u64 \<Rightarrow> u64
    \<Rightarrow> ServiceController \<times> (AdmissionFault, AdmissionCertificate) result" where
  "admit_reserve c now_tick backlog_before deterministic uncertainty drift_penalty delay slack =
    (case checked_add (ctl_reservation_sequence c) 1 of
       None \<Rightarrow> (c, Err ArithmeticOverflow)
     | Some reservation_sequence \<Rightarrow>
         let admitted_before = ctl_admitted_in_window c in
         (case checked_add (ctl_admitted_in_window c) 1 of
            None \<Rightarrow> (c, Err ArithmeticOverflow)
          | Some admitted \<Rightarrow>
              let c1 = c\<lparr>ctl_admitted_in_window := admitted,
                         ctl_reservation_sequence := reservation_sequence,
                         ctl_accepted := saturating_add (ctl_accepted c) 1,
                         ctl_virtual_backlog_q16 := saturating_add (ctl_virtual_backlog_q16 c) Q16_ONE\<rparr>
              in if unat backlog_before \<ge> 2 ^ 16 then (c1, Err BacklogSaturated)
                 else
                   let cert = \<lparr>ac_reservation_sequence = ctl_reservation_sequence c1,
                         ac_admitted_tick = now_tick, ac_window_start = ctl_window_start c1,
                         ac_backlog_before = ucast backlog_before,
                         ac_admitted_before = admitted_before,
                         ac_deterministic_delay_ticks = deterministic,
                         ac_uncertainty_guard_ticks = uncertainty,
                         ac_drift_penalty_ticks = drift_penalty, ac_delay_bound_ticks = delay,
                         ac_deadline_slack_ticks = slack, ac_curve_root = ctl_curve_root c1,
                         ac_calibration_root = cal_root (ctl_calibrator c1),
                         ac_certificate_root = 0\<rparr>
                   in (c1, Ok (cert\<lparr>ac_certificate_root :=
                         admission_certificate_root (ctl_secret c1) cert\<rparr>))))"

definition admit ::
  "ServiceController \<Rightarrow> u64 \<Rightarrow> u64 \<Rightarrow> usize
    \<Rightarrow> ServiceController \<times> (AdmissionFault, AdmissionCertificate) result" where
  "admit c0 now_tick deadline_tick backlog_before =
    (case advance c0 now_tick of
       (c, Inl e) \<Rightarrow> (c, Err e)
     | (c, Inr _) \<Rightarrow>
         if backlog_before \<ge> ucast (maximum_backlog (ctl_curve c))
         then (reject c, Err BacklogSaturated)
         else if ctl_admitted_in_window c \<ge> maximum_admissions_per_window (ctl_curve c)
         then (reject c, Err ArrivalEnvelopeExceeded)
         else
           (case deterministic_delay (ctl_curve c) backlog_before of
              None \<Rightarrow> (c, Err BacklogSaturated)
            | Some deterministic \<Rightarrow>
                (case calibrator_guard (ctl_calibrator c) of
                   Inl _ \<Rightarrow> (c, Err ArithmeticOverflow)
                 | Inr uncertainty \<Rightarrow>
                     let drift_penalty = drift_penalty_ticks c in
                     (case Option.bind (checked_add deterministic uncertainty)
                             (\<lambda>v. checked_add v drift_penalty) of
                        None \<Rightarrow> (c, Err ArithmeticOverflow)
                      | Some delay \<Rightarrow>
                          (case checked_add now_tick delay of
                             None \<Rightarrow> (c, Err ArithmeticOverflow)
                           | Some required_deadline \<Rightarrow>
                               if deadline_tick < required_deadline
                               then (reject c, Err DeadlineUnsafe)
                               else admit_reserve c now_tick backlog_before deterministic uncertainty
                                      drift_penalty delay (deadline_tick - required_deadline))))))"

definition rollback ::
  "ServiceController \<Rightarrow> AdmissionCertificate \<Rightarrow> ServiceController \<times> (AdmissionFault, unit) result" where
  "rollback c a =
    (if \<not> verify_certificate c a
        \<or> ac_window_start a \<noteq> ctl_window_start c
        \<or> ac_reservation_sequence a \<noteq> ctl_reservation_sequence c
        \<or> ctl_admitted_in_window c \<noteq> saturating_add (ac_admitted_before a) 1
     then (c, Err StaleReservation)
     else (c\<lparr>ctl_admitted_in_window := ac_admitted_before a,
             ctl_accepted := saturating_sub (ctl_accepted c) 1,
             ctl_virtual_backlog_q16 := saturating_sub (ctl_virtual_backlog_q16 c) Q16_ONE\<rparr>, Ok ()))"

definition observe_completion ::
  "ServiceController \<Rightarrow> AdmissionCertificate \<Rightarrow> u64
    \<Rightarrow> ServiceController \<times> (AdmissionFault, u64) result" where
  "observe_completion c0 a completion_tick =
    (if \<not> verify_certificate c0 a \<or> completion_tick < ac_admitted_tick a
     then (c0, Err CorruptObservation)
     else
       (case advance c0 completion_tick of
          (c, Inl e) \<Rightarrow> (c, Err e)
        | (c, Inr _) \<Rightarrow>
            let observed_delay = completion_tick - ac_admitted_tick a in
            (case checked_add (ac_deterministic_delay_ticks a) (ac_drift_penalty_ticks a) of
               None \<Rightarrow> (c, Err ArithmeticOverflow)
             | Some predicted \<Rightarrow>
                 let residual = saturating_sub observed_delay predicted in
                 (case calibrator_push (ctl_calibrator c) residual of
                    (k, Inl _) \<Rightarrow> (c\<lparr>ctl_calibrator := k\<rparr>, Err CorruptObservation)
                  | (k, Inr guard_ticks) \<Rightarrow>
                      let c1 = c\<lparr>ctl_calibrator := k,
                            ctl_virtual_backlog_q16 := saturating_sub (ctl_virtual_backlog_q16 c) Q16_ONE\<rparr>;
                          c2 = (if observed_delay > ac_delay_bound_ticks a then
                                  let excess = observed_delay - ac_delay_bound_ticks a;
                                      pressure =
                                        (case Option.bind (checked_mul excess Q16_ONE)
                                            (\<lambda>v. checked_div v (window_ticks (ctl_curve c1))) of
                                           None \<Rightarrow> - 1 | Some p \<Rightarrow> p)
                                  in c1\<lparr>ctl_virtual_backlog_q16 :=
                                       saturating_add (ctl_virtual_backlog_q16 c1) pressure\<rparr>
                                else c1)
                      in (c2\<lparr>ctl_observed := saturating_add (ctl_observed c2) 1\<rparr>, Ok guard_ticks)))))"

text \<open>The placeholder certificate is good for nothing, whatever controller sees it.\<close>

lemma certificate_EMPTY_refused:
  "\<not> verify_certificate c certificate_EMPTY"
  "rollback c certificate_EMPTY = (c, Err StaleReservation)"
  "observe_completion c certificate_EMPTY t = (c, Err CorruptObservation)"
  by (simp_all add: verify_certificate_def certificate_valid_def certificate_EMPTY_def rollback_def observe_completion_def)

section \<open>Roots\<close>

lemma mix_is_absorb: "mix = absorb"
  by (rule ext)+ (simp add: mix_def absorb_def avalanche_def Let_def)

interpretation calc: absorber mix
  by (simp add: mix_is_absorb crest.absorber_axioms)

text \<open>The packed word of the two 16-bit counters determines both.\<close>

lemma packed_counters_inj:
  fixes a b c d :: u16
  assumes "(ucast a OR push_bit 16 (ucast b) :: u64) = ucast c OR push_bit 16 (ucast d)"
  shows "a = c" and "b = d"
proof -
  have bits: "bit (ucast a OR push_bit 16 (ucast b) :: u64) n = bit (ucast c OR push_bit 16 (ucast d) :: u64) n" for n
    using assms by simp
  show "a = c"
  proof (rule bit_word_eqI)
    fix n assume "n < LENGTH(16)"
    with bits [of n] show "bit a n = bit c n"
      by (simp add: bit_or_iff bit_push_bit_iff bit_unsigned_iff)
  qed
  show "b = d"
  proof (rule bit_word_eqI)
    fix n assume "n < LENGTH(16)"
    with bits [of "n + 16"] show "bit b n = bit d n"
      by (auto simp: bit_or_iff bit_push_bit_iff bit_unsigned_iff dest: bit_imp_le_length)
  qed
qed


section \<open>Service curve lemmas\<close>

lemma checked_mul_add_Some_iff [rust_arith]:
  fixes a w l d :: "'a::len word"
  shows "Option.bind (checked_mul a w) (checked_add l) = Some d \<longleftrightarrow> unat d = unat l + unat a * unat w"
proof
  assume "Option.bind (checked_mul a w) (checked_add l) = Some d"
  then show "unat d = unat l + unat a * unat w"
    by (auto simp: bind_eq_Some_conv checked_add_Some_iff checked_mul_Some_iff)
next
  assume d: "unat d = unat l + unat a * unat w"
  have "unat d < 2 ^ LENGTH('a)" by (rule unsigned_less)
  with d have fits: "unat a * unat w < 2 ^ LENGTH('a)" by linarith
  then have "checked_mul a w = Some (a * w)" by (simp add: checked_mul_def)
  moreover from fits have "unat (a * w) = unat a * unat w" by (simp add: unat_word_ariths)
  ultimately show "Option.bind (checked_mul a w) (checked_add l) = Some d"
    using d by (simp add: checked_add_Some_iff)
qed

lemma deterministic_delay_Some_iff:
  "deterministic_delay c b = Some d \<longleftrightarrow>
     curve_valid c \<and> unat b < unat (maximum_backlog c)
   \<and> unat d = unat (latency_ticks c)
       + (unat b + unat (minimum_completions_per_window c)) div unat (minimum_completions_per_window c)
         * unat (window_ticks c)"
proof -
  let ?m = "minimum_completions_per_window c"
  have small: "curve_valid c \<Longrightarrow> unat b < unat (maximum_backlog c) \<Longrightarrow>
      unat b + unat ?m < 18446744073709551616"
    using unat_u16_less [of "maximum_backlog c"] unat_u16_less [of ?m] by linarith
  show ?thesis
  proof (cases "curve_valid c \<and> unat b < unat (maximum_backlog c)")
    case False
    then show ?thesis by (auto simp: deterministic_delay_def word_le_nat_alt)
  next
    case True
    then have mpos: "?m \<noteq> 0" by (simp add: curve_valid_def)
    then have m1: "1 \<le> unat ?m" by (simp add: Suc_le_eq unat_gt_0)
    have sub: "unat (ucast ?m - 1 :: u64) = unat ?m - 1"
      using m1 by (simp add: unat_sub word_le_nat_alt)
    have cast0: "(ucast ?m :: u64) \<noteq> 0" using mpos
      by (metis unat_u16_u64 unat_0 unat_eq_zero)
    have add1: "checked_add b 1 = Some (b + 1)" and b1: "unat (b + 1) = unat b + 1"
      using small True m1 by (auto simp: checked_add_def unat_word_ariths)
    have add2: "checked_add (b + 1) (ucast ?m - 1) = Some (b + 1 + (ucast ?m - 1))"
      and num: "unat (b + 1 + (ucast ?m - 1)) = unat b + unat ?m"
      using small True m1 b1 sub by (auto simp: checked_add_def unat_word_ariths)
    have windows: "unat ((b + 1 + (ucast ?m - 1)) div ucast ?m) = (unat b + unat ?m) div unat ?m"
      by (simp only: unat_div num unat_u16_u64)
    have "deterministic_delay c b = Option.bind
        (checked_mul ((b + 1 + (ucast ?m - 1)) div ucast ?m) (window_ticks c)) (checked_add (latency_ticks c))"
      using True cast0
      by (simp add: deterministic_delay_def Let_def word_le_nat_alt add1 add2 checked_div_def)
    with True show ?thesis by (simp only: checked_mul_add_Some_iff windows simp_thms)
  qed
qed

lemma deterministic_delay_None_iff:
  "deterministic_delay c b = None \<longleftrightarrow>
     \<not> curve_valid c \<or> unat (maximum_backlog c) \<le> unat b
   \<or> 2 ^ 64 \<le> unat (latency_ticks c)
       + (unat b + unat (minimum_completions_per_window c)) div unat (minimum_completions_per_window c)
         * unat (window_ticks c)" (is "_ \<longleftrightarrow> ?v \<or> ?b \<or> 2 ^ 64 \<le> ?d")
proof
  assume none: "deterministic_delay c b = None"
  { assume "\<not> (?v \<or> ?b \<or> 2 ^ 64 \<le> ?d)"
    then have "deterministic_delay c b = Some (of_nat ?d)"
      by (subst deterministic_delay_Some_iff) (simp add: unat_of_nat take_bit_nat_eq_self del: of_nat_add of_nat_mult)
    with none have False by simp }
  then show "?v \<or> ?b \<or> 2 ^ 64 \<le> ?d" by blast
next
  assume bad: "?v \<or> ?b \<or> 2 ^ 64 \<le> ?d"
  { fix d assume "deterministic_delay c b = Some d"
    with bad unat_u64_less [of d] have False by (auto simp: deterministic_delay_Some_iff) }
  then show "deterministic_delay c b = None" by (cases "deterministic_delay c b") auto
qed

section \<open>Advancing the window\<close>

text \<open>The number of whole windows between the window start and a tick, and the service they owe.\<close>

definition whole_windows :: "ServiceController \<Rightarrow> u64 \<Rightarrow> nat" where
  "whole_windows c t = (unat t - unat (ctl_window_start c)) div unat (window_ticks (ctl_curve c))"

definition owed_service :: "ServiceController \<Rightarrow> u64 \<Rightarrow> nat" where
  "owed_service c t = whole_windows c t * unat (minimum_completions_per_window (ctl_curve c)) * 2 ^ 16"

lemma Q16_ONE_nat [simp]: "unat Q16_ONE = 65536"
  by (simp add: Q16_ONE_def)

lemma service_product:
  fixes w m :: u64
  shows "Option.bind (checked_mul w m) (\<lambda>v. checked_mul v Q16_ONE)
       = (if unat w * unat m * 65536 < 2 ^ 64 then Some (w * m * Q16_ONE) else None)"
proof (cases "unat w * unat m < 2 ^ 64")
  case True
  then have "unat (w * m) = unat w * unat m" by (simp add: unat_word_ariths)
  with True show ?thesis by (simp add: checked_mul_def mult.commute)
next
  case False
  then show ?thesis by (simp add: checked_mul_def mult.commute)
qed

text \<open>\<open>advance\<close> in closed form: the window-start arithmetic itself never overflows.\<close>

lemma advance_cases:
  assumes wt: "window_ticks (ctl_curve c) \<noteq> 0"
  shows "advance c t =
    (if t < ctl_last_tick c \<or> t < ctl_window_start c then (reject c, Err TimeRegression)
     else if whole_windows c t = 0 then (c\<lparr>ctl_last_tick := t\<rparr>, Ok ())
     else
       let c1 = c\<lparr>ctl_window_start := of_nat (unat (ctl_window_start c)
                    + whole_windows c t * unat (window_ticks (ctl_curve c))),
                  ctl_admitted_in_window := 0\<rparr>
       in if owed_service c t < 2 ^ 64
          then (c1\<lparr>ctl_virtual_backlog_q16 := saturating_sub (ctl_virtual_backlog_q16 c)
                      (of_nat (owed_service c t)),
                   ctl_last_tick := t\<rparr>, Ok ())
          else (c1, Err ArithmeticOverflow))"
proof (cases "t < ctl_last_tick c \<or> t < ctl_window_start c")
  case True
  then show ?thesis by (simp add: advance_def)
next
  case False
  let ?e = "t - ctl_window_start c" and ?w = "window_ticks (ctl_curve c)"
  let ?m = "ucast (minimum_completions_per_window (ctl_curve c)) :: u64"
  have e: "unat ?e = unat t - unat (ctl_window_start c)"
    using False by (simp add: unat_sub not_less)
  have n: "unat (?e div ?w) = whole_windows c t" by (simp add: whole_windows_def unat_div e)
  have wpos: "0 < unat ?w" using wt by (simp add: unat_gt_0)
  have lt: "whole_windows c t = 0 \<longleftrightarrow> \<not> ?w \<le> ?e"
    using wpos by (simp add: whole_windows_def word_le_nat_alt e div_eq_0_iff not_le)
  show ?thesis
  proof (cases "?w \<le> ?e")
    case small: False
    with False lt show ?thesis by (simp add: advance_def Let_def)
  next
    case True
    have "whole_windows c t * unat ?w \<le> unat ?e"
      unfolding whole_windows_def e by (metis div_times_less_eq_dividend)
    then have fit: "unat (ctl_window_start c) + whole_windows c t * unat ?w \<le> unat t"
      using e False unfolding word_less_nat_alt by linarith
    then have ws: "Option.bind (checked_mul (?e div ?w) ?w) (checked_add (ctl_window_start c))
        = Some (of_nat (unat (ctl_window_start c) + whole_windows c t * unat ?w))"
      using unat_u64_less [of t]
      by (simp add: checked_mul_add_Some_iff n unat_of_nat take_bit_nat_eq_self del: of_nat_add of_nat_mult)
    have sv: "?e div ?w * ?m * Q16_ONE = of_nat (owed_service c t)"
      by (simp add: owed_service_def n [symmetric] Q16_ONE_def)
    have "unat (?e div ?w) * unat ?m * 65536 = owed_service c t"
      by (simp add: owed_service_def n)
    with ws sv True False lt show ?thesis
      by (simp add: advance_def Let_def service_product del: of_nat_add of_nat_mult)
  qed
qed

lemma advance_frame:
  assumes "advance c t = (c', r)"
  shows "ctl_curve c' = ctl_curve c" "ctl_secret c' = ctl_secret c" "ctl_curve_root c' = ctl_curve_root c"
    "ctl_calibrator c' = ctl_calibrator c" "ctl_reservation_sequence c' = ctl_reservation_sequence c"
    "ctl_accepted c' = ctl_accepted c" "ctl_observed c' = ctl_observed c"
  using assms by (auto simp: advance_def reject_def Let_def split: if_splits option.splits)


lemma moved_start:
  assumes "\<not> t < ctl_window_start c"
  shows "unat (of_nat (unat (ctl_window_start c) + whole_windows c t * unat (window_ticks (ctl_curve c))) :: u64)
    = unat (ctl_window_start c) + whole_windows c t * unat (window_ticks (ctl_curve c))"
proof -
  have "whole_windows c t * unat (window_ticks (ctl_curve c)) \<le> unat t - unat (ctl_window_start c)"
    unfolding whole_windows_def by (metis div_times_less_eq_dividend)
  then have "unat (ctl_window_start c) + whole_windows c t * unat (window_ticks (ctl_curve c)) < 2 ^ 64"
    using assms unat_u64_less [of t] unfolding word_less_nat_alt by simp
  then show ?thesis by (simp add: unat_of_nat take_bit_nat_eq_self del: of_nat_add of_nat_mult)
qed

lemma advance_Ok:
  assumes adv: "advance c t = (c', Ok u)" and wt: "window_ticks (ctl_curve c) \<noteq> 0"
  shows "ctl_last_tick c \<le> t" and "ctl_last_tick c' = t"
    and "ctl_window_start c \<le> ctl_window_start c'" and "ctl_window_start c' \<le> t"
    and "unat t < unat (ctl_window_start c') + unat (window_ticks (ctl_curve c))"
    and "unat (ctl_window_start c') = unat (ctl_window_start c)
          + whole_windows c t * unat (window_ticks (ctl_curve c))"
    and "ctl_admitted_in_window c' = (if whole_windows c t = 0 then ctl_admitted_in_window c else 0)"
    and "unat (ctl_virtual_backlog_q16 c') = unat (ctl_virtual_backlog_q16 c) - owed_service c t"
    and "ctl_rejected c' = ctl_rejected c"
proof -
  let ?w = "unat (window_ticks (ctl_curve c))" and ?n = "whole_windows c t"
  from adv have reg: "\<not> (t < ctl_last_tick c \<or> t < ctl_window_start c)"
    by (auto simp: advance_def)
  then have order: "unat (ctl_last_tick c) \<le> unat t" "unat (ctl_window_start c) \<le> unat t"
    by (simp_all add: word_less_nat_alt)
  have wpos: "0 < ?w" using wt by (simp add: unat_gt_0)
  have lo: "?n * ?w \<le> unat t - unat (ctl_window_start c)"
    unfolding whole_windows_def by (metis div_times_less_eq_dividend)
  have hi: "unat t - unat (ctl_window_start c) < ?n * ?w + ?w"
    unfolding whole_windows_def
    using div_mult_mod_eq [of "unat t - unat (ctl_window_start c)" ?w] mod_less_divisor [OF wpos]
    by (metis add_less_cancel_left)
  have ws: "unat (of_nat (unat (ctl_window_start c) + ?n * ?w) :: u64) = unat (ctl_window_start c) + ?n * ?w"
    using reg by (intro moved_start) simp
  show start: "unat (ctl_window_start c') = unat (ctl_window_start c) + ?n * ?w"
    using adv reg ws by (auto simp: advance_cases [OF wt] Let_def split: if_splits)
  show "ctl_last_tick c \<le> t" using reg by (simp add: not_less)
  show "ctl_last_tick c' = t" "ctl_rejected c' = ctl_rejected c"
    "ctl_admitted_in_window c' = (if ?n = 0 then ctl_admitted_in_window c else 0)"
    using adv reg by (auto simp: advance_cases [OF wt] Let_def split: if_splits)
  show "ctl_window_start c \<le> ctl_window_start c'" "ctl_window_start c' \<le> t"
    "unat t < unat (ctl_window_start c') + ?w"
    using start lo hi order by (simp_all add: word_le_nat_alt)
  show "unat (ctl_virtual_backlog_q16 c') = unat (ctl_virtual_backlog_q16 c) - owed_service c t"
    using adv reg
    by (auto simp: advance_cases [OF wt] Let_def unat_saturating_sub unat_of_nat take_bit_nat_eq_self
          owed_service_def split: if_splits simp del: of_nat_add of_nat_mult)
qed

lemma advance_Err:
  assumes adv: "advance c t = (c', Err e)" and wt: "window_ticks (ctl_curve c) \<noteq> 0"
  shows "e = TimeRegression \<and> c' = reject c \<or>
         e = ArithmeticOverflow \<and> 2 ^ 64 \<le> owed_service c t \<and> whole_windows c t \<noteq> 0
         \<and> ctl_last_tick c \<le> t
         \<and> c' = c\<lparr>ctl_window_start := of_nat (unat (ctl_window_start c)
                    + whole_windows c t * unat (window_ticks (ctl_curve c))),
                  ctl_admitted_in_window := 0\<rparr>"
  using adv by (auto simp: advance_cases [OF wt] Let_def not_less split: if_splits)

section \<open>Admission\<close>

text \<open>The controller after a reservation: the part of \<open>admit\<close> that commits.\<close>

definition reserved :: "ServiceController \<Rightarrow> ServiceController" where
  "reserved c = c\<lparr>ctl_admitted_in_window := ctl_admitted_in_window c + 1,
     ctl_reservation_sequence := ctl_reservation_sequence c + 1,
     ctl_accepted := saturating_add (ctl_accepted c) 1,
     ctl_virtual_backlog_q16 := saturating_add (ctl_virtual_backlog_q16 c) Q16_ONE\<rparr>"

lemma admit_reserve_Ok:
  assumes "admit_reserve c now b det g drift delay slack = (c', Ok a)"
  shows "c' = reserved c"
    and "unat (ctl_reservation_sequence c') = unat (ctl_reservation_sequence c) + 1"
    and "unat (ctl_admitted_in_window c') = unat (ctl_admitted_in_window c) + 1"
    and "unat (ac_backlog_before a) = unat b"
    and "ac_reservation_sequence a = ctl_reservation_sequence c'" "ac_admitted_tick a = now"
    "ac_window_start a = ctl_window_start c" "ac_admitted_before a = ctl_admitted_in_window c"
    "ac_deterministic_delay_ticks a = det" "ac_uncertainty_guard_ticks a = g"
    "ac_drift_penalty_ticks a = drift" "ac_delay_bound_ticks a = delay"
    "ac_deadline_slack_ticks a = slack" "ac_curve_root a = ctl_curve_root c"
    "ac_calibration_root a = cal_root (ctl_calibrator c)"
    "ac_certificate_root a = admission_certificate_root (ctl_secret c) a"
proof -
  from assms obtain s n where s: "checked_add (ctl_reservation_sequence c) 1 = Some s"
    and n: "checked_add (ctl_admitted_in_window c) 1 = Some n" and b: "unat b < 65536"
    by (auto simp: admit_reserve_def Let_def split: option.splits if_splits)
  from s have s': "s = ctl_reservation_sequence c + 1" by (auto simp: checked_add_def split: if_splits)
  from n have n': "n = ctl_admitted_in_window c + 1" by (auto simp: checked_add_def split: if_splits)
  have c': "c' = reserved c"
    using assms s n b by (auto simp: admit_reserve_def reserved_def Let_def s' n')
  show "c' = reserved c" by (rule c')
  show "unat (ctl_reservation_sequence c') = unat (ctl_reservation_sequence c) + 1"
    using s s' by (simp add: c' reserved_def checked_add_Some_iff)
  show "unat (ctl_admitted_in_window c') = unat (ctl_admitted_in_window c) + 1"
    using n n' by (simp add: c' reserved_def checked_add_Some_iff)
  have a: "a = (let cert = \<lparr>ac_reservation_sequence = ctl_reservation_sequence c', ac_admitted_tick = now,
      ac_window_start = ctl_window_start c, ac_backlog_before = ucast b,
      ac_admitted_before = ctl_admitted_in_window c, ac_deterministic_delay_ticks = det,
      ac_uncertainty_guard_ticks = g, ac_drift_penalty_ticks = drift, ac_delay_bound_ticks = delay,
      ac_deadline_slack_ticks = slack, ac_curve_root = ctl_curve_root c,
      ac_calibration_root = cal_root (ctl_calibrator c), ac_certificate_root = 0\<rparr>
    in cert\<lparr>ac_certificate_root := admission_certificate_root (ctl_secret c) cert\<rparr>)"
    using assms s n b by (auto simp: admit_reserve_def reserved_def Let_def)
  show "unat (ac_backlog_before a) = unat b"
    using b by (simp add: a Let_def unsigned_ucast_eq take_bit_nat_eq_self)
  show "ac_reservation_sequence a = ctl_reservation_sequence c'" "ac_admitted_tick a = now"
    "ac_window_start a = ctl_window_start c" "ac_admitted_before a = ctl_admitted_in_window c"
    "ac_deterministic_delay_ticks a = det" "ac_uncertainty_guard_ticks a = g"
    "ac_drift_penalty_ticks a = drift" "ac_delay_bound_ticks a = delay"
    "ac_deadline_slack_ticks a = slack" "ac_curve_root a = ctl_curve_root c"
    "ac_calibration_root a = cal_root (ctl_calibrator c)"
    "ac_certificate_root a = admission_certificate_root (ctl_secret c) a"
    by (simp_all add: a Let_def admission_certificate_root_def certificate_words_def)
qed

lemma admit_OkE:
  assumes "admit c0 now dl b = (c', Ok a)"
  obtains c det g delay req where "advance c0 now = (c, Ok ())"
    and "unat b < unat (maximum_backlog (ctl_curve c))"
    and "ctl_admitted_in_window c < maximum_admissions_per_window (ctl_curve c)"
    and "deterministic_delay (ctl_curve c) b = Some det"
    and "calibrator_guard (ctl_calibrator c) = Ok g"
    and "unat delay = unat det + unat g + unat (drift_penalty_ticks c)"
    and "unat req = unat now + unat delay" and "req \<le> dl"
    and "admit_reserve c now b det g (drift_penalty_ticks c) delay (dl - req) = (c', Ok a)"
proof -
  obtain c r where adv: "advance c0 now = (c, r)" by (cases "advance c0 now")
  with assms have r: "r = Ok ()" by (cases r) (auto simp: admit_def)
  note A = assms [unfolded admit_def adv r, simplified]
  from A have b: "\<not> ucast (maximum_backlog (ctl_curve c)) \<le> b" by (auto split: if_splits)
  note A = A [simplified b, simplified]
  from A have e: "\<not> maximum_admissions_per_window (ctl_curve c) \<le> ctl_admitted_in_window c"
    by (auto split: if_splits)
  note A = A [simplified e, simplified]
  from A obtain det where det: "deterministic_delay (ctl_curve c) b = Some det"
    by (auto split: option.splits)
  note A = A [simplified det, simplified]
  from A obtain g where g: "calibrator_guard (ctl_calibrator c) = Ok g"
    by (auto split: sum.splits)
  note A = A [simplified g, simplified Let_def, simplified]
  from A obtain delay where delay: "Option.bind (checked_add det g) (\<lambda>v. checked_add v (drift_penalty_ticks c)) = Some delay"
    by (auto split: option.splits)
  note A = A [simplified delay, simplified]
  from A obtain req where req: "checked_add now delay = Some req"
    by (auto split: option.splits)
  note A = A [simplified req, simplified]
  from A have dl: "\<not> dl < req" by (auto split: if_splits)
  note A = A [simplified dl, simplified]
  show thesis
  proof
    show "advance c0 now = (c, Ok ())" using adv r by simp
    show "unat b < unat (maximum_backlog (ctl_curve c))" using b by (simp add: word_le_nat_alt)
    show "ctl_admitted_in_window c < maximum_admissions_per_window (ctl_curve c)" using e by simp
    show "deterministic_delay (ctl_curve c) b = Some det" by (rule det)
    show "calibrator_guard (ctl_calibrator c) = Ok g" by (rule g)
    show "unat delay = unat det + unat g + unat (drift_penalty_ticks c)"
      using delay by (auto simp: bind_eq_Some_conv checked_add_Some_iff)
    show "unat req = unat now + unat delay" using req by (simp add: checked_add_Some_iff)
    show "req \<le> dl" using dl by simp
    show "admit_reserve c now b det g (drift_penalty_ticks c) delay (dl - req) = (c', Ok a)" by (rule A)
  qed
qed

lemma admitted_certificate:
  assumes valid: "curve_valid (ctl_curve c0)" and adm: "admit c0 now dl b = (c', Ok a)"
  shows "unat now + unat (ac_delay_bound_ticks a) + unat (ac_deadline_slack_ticks a) = unat dl"
    and "unat (ac_delay_bound_ticks a) = unat (ac_deterministic_delay_ticks a)
           + unat (ac_uncertainty_guard_ticks a) + unat (ac_drift_penalty_ticks a)"
    and "deterministic_delay (ctl_curve c0) b = Some (ac_deterministic_delay_ticks a)"
    and "calibrator_guard (ctl_calibrator c0) = Ok (ac_uncertainty_guard_ticks a)"
    and "unat (ac_reservation_sequence a) = unat (ctl_reservation_sequence c0) + 1"
    and "ac_window_start a \<le> now \<and> unat now < unat (ac_window_start a) + unat (window_ticks (ctl_curve c0))"
    and "ac_admitted_before a < maximum_admissions_per_window (ctl_curve c0)"
    and "unat (ac_backlog_before a) = unat b"
    and "verify_certificate c' a \<longleftrightarrow> ctl_curve_root c0 \<noteq> 0 \<and> cal_root (ctl_calibrator c0) \<noteq> 0
           \<and> ac_certificate_root a \<noteq> 0"
proof -
  from adm obtain c det g delay req where adv: "advance c0 now = (c, Ok ())"
    and env: "ctl_admitted_in_window c < maximum_admissions_per_window (ctl_curve c)"
    and det: "deterministic_delay (ctl_curve c) b = Some det"
    and g: "calibrator_guard (ctl_calibrator c) = Ok g"
    and delay: "unat delay = unat det + unat g + unat (drift_penalty_ticks c)"
    and req: "unat req = unat now + unat delay" and dl: "req \<le> dl"
    and res: "admit_reserve c now b det g (drift_penalty_ticks c) delay (dl - req) = (c', Ok a)"
    by (rule admit_OkE)
  note R = admit_reserve_Ok [OF res]
  note F = advance_frame [OF adv]
  from valid have wt: "window_ticks (ctl_curve c0) \<noteq> 0" and m: "minimum_completions_per_window (ctl_curve c0) \<noteq> 0"
    by (simp_all add: curve_valid_def)
  note V = advance_Ok [OF adv wt]
  show "unat now + unat (ac_delay_bound_ticks a) + unat (ac_deadline_slack_ticks a) = unat dl"
    using dl req by (simp add: R unat_sub word_le_nat_alt)
  show "unat (ac_delay_bound_ticks a) = unat (ac_deterministic_delay_ticks a)
           + unat (ac_uncertainty_guard_ticks a) + unat (ac_drift_penalty_ticks a)"
    by (simp add: R delay)
  show "deterministic_delay (ctl_curve c0) b = Some (ac_deterministic_delay_ticks a)"
    "calibrator_guard (ctl_calibrator c0) = Ok (ac_uncertainty_guard_ticks a)"
    "unat (ac_backlog_before a) = unat b"
    "ac_admitted_before a < maximum_admissions_per_window (ctl_curve c0)"
    using det g env by (simp_all add: R F)
  show seq: "unat (ac_reservation_sequence a) = unat (ctl_reservation_sequence c0) + 1"
    by (simp add: R(2,5) F)
  show "ac_window_start a \<le> now \<and> unat now < unat (ac_window_start a) + unat (window_ticks (ctl_curve c0))"
    using V(4,5) by (simp add: R F)
  have "1 * unat (window_ticks (ctl_curve c0))
      \<le> (unat b + unat (minimum_completions_per_window (ctl_curve c0)))
        div unat (minimum_completions_per_window (ctl_curve c0)) * unat (window_ticks (ctl_curve c0))"
    using m by (intro mult_right_mono) (simp_all add: unat_gt_0 div_add_self2)
  then have "unat det \<noteq> 0"
    using det wt by (auto simp: F deterministic_delay_Some_iff unat_eq_zero)
  then have "ac_delay_bound_ticks a \<noteq> 0" using delay by (auto simp: R)
  moreover have "ac_reservation_sequence a \<noteq> 0" using seq by auto
  moreover have "ctl_secret c' = ctl_secret c" "ctl_curve_root c' = ctl_curve_root c"
    by (simp_all add: R(1) reserved_def)
  ultimately show "verify_certificate c' a \<longleftrightarrow> ctl_curve_root c0 \<noteq> 0 \<and> cal_root (ctl_calibrator c0) \<noteq> 0
           \<and> ac_certificate_root a \<noteq> 0"
    using R(14-16) by (auto simp: verify_certificate_def certificate_valid_def F)
qed

text \<open>The curve of the unit tests.\<close>

definition sample_curve :: ServiceCurve where
  "sample_curve = \<lparr>minimum_completions_per_window = 2, maximum_admissions_per_window = 4,
     window_ticks = 100, latency_ticks = 20, maximum_backlog = 8\<rparr>"

definition sample_controller :: ServiceController where
  "sample_controller = \<lparr>ctl_curve = sample_curve, ctl_secret = 7,
     ctl_window_start = 1000, ctl_last_tick = 1000, ctl_admitted_in_window = 0,
     ctl_reservation_sequence = 0, ctl_accepted = 0, ctl_rejected = 0, ctl_observed = 0,
     ctl_virtual_backlog_q16 = 0, ctl_curve_root = service_curve_root 7 sample_curve,
     ctl_calibrator = calibrator_seal \<lparr>cal_residuals = replicate 8 0, cal_length = 0, cal_cursor = 0,
       cal_samples = 0, cal_coverage_numerator = 15, cal_coverage_denominator = 16,
       cal_additive_slack = 1, cal_maximum_guard = 800, cal_secret = mix 7 0x43414c4942524154,
       cal_root = 0\<rparr>\<rparr>"

lemma sample_roots:
  "service_curve_root 7 sample_curve \<noteq> 0" "mix 7 0x43414c4942524154 \<noteq> 0"
  by code_simp+

lemma sample_controller_new: "controller_new 8 sample_curve 1000 7 = Ok sample_controller"
  using sample_roots
  by (simp add: controller_new_def sample_controller_def curve_valid_def calibrator_kernel_default_def
      calibrator_new_def DEFAULT_CONFORMAL_NUMERATOR_def DEFAULT_CONFORMAL_DENOMINATOR_def
      checked_mul_def Let_def sample_curve_def)

lemma sample_controller_valid: "curve_valid (ctl_curve sample_controller)"
  by (simp add: sample_controller_def sample_curve_def curve_valid_def)

lemma sample_admits: "is_ok (snd (admit sample_controller 1000 1500 0))"
  by (simp add: admit_def admit_reserve_def sample_controller_def sample_curve_def advance_def
      deterministic_delay_def curve_valid_def checked_add_def checked_mul_def checked_div_def
      calibrator_guard_def calibrator_seal_def drift_penalty_ticks_def Let_def min_def)


section \<open>Rollback\<close>

lemma saturating_inverse:
  fixes a b :: "'a::len word"
  assumes "unat a + unat b < 2 ^ LENGTH('a)"
  shows "saturating_sub (saturating_add a b) b = a"
proof -
  have "unat (saturating_sub (saturating_add a b) b) = unat a"
    using assms by (simp add: unat_saturating_sub unat_saturating_add)
  then show ?thesis by (simp add: word_unat_eq_iff)
qed

lemma rollback_Ok:
  assumes "rollback c a = (c', Ok u)"
  shows "verify_certificate c a" and "ac_window_start a = ctl_window_start c"
    and "ac_reservation_sequence a = ctl_reservation_sequence c"
    and "ctl_admitted_in_window c = saturating_add (ac_admitted_before a) 1"
    and "c' = c\<lparr>ctl_admitted_in_window := ac_admitted_before a,
             ctl_accepted := saturating_sub (ctl_accepted c) 1,
             ctl_virtual_backlog_q16 := saturating_sub (ctl_virtual_backlog_q16 c) Q16_ONE\<rparr>"
  using assms by (auto simp: rollback_def split: if_splits)

lemma rollback_Err: "rollback c a = (c', Err e) \<Longrightarrow> c' = c \<and> e = StaleReservation"
  by (auto simp: rollback_def split: if_splits)

lemma verify_certificate_cong:
  assumes "ctl_secret c = ctl_secret c'" and "ctl_curve_root c = ctl_curve_root c'"
  shows "verify_certificate c a = verify_certificate c' a"
  using assms by (simp add: verify_certificate_def)

lemma admit_then_rollback:
  assumes valid: "curve_valid (ctl_curve c0)" and adm: "admit c0 now dl b = (c1, Ok a)"
    and ver: "verify_certificate c1 a"
    and acc: "ctl_accepted c0 \<noteq> - 1" and vb: "unat (ctl_virtual_backlog_q16 c0) + 65536 < 2 ^ 64"
  shows "\<exists>c. advance c0 now = (c, Ok ())
     \<and> rollback c1 a = (c\<lparr>ctl_reservation_sequence := ctl_reservation_sequence c + 1\<rparr>, Ok ())"
proof -
  from adm obtain c det g delay req where adv: "advance c0 now = (c, Ok ())"
    and res: "admit_reserve c now b det g (drift_penalty_ticks c) delay (dl - req) = (c1, Ok a)"
    by (rule admit_OkE)
  note R = admit_reserve_Ok [OF res]
  note F = advance_frame [OF adv]
  from valid have wt: "window_ticks (ctl_curve c0) \<noteq> 0" by (simp add: curve_valid_def)
  from advance_Ok(8) [OF adv wt] vb have vb': "unat (ctl_virtual_backlog_q16 c) + 65536 < 2 ^ 64"
    by linarith
  have add1: "unat (ctl_accepted c) + unat (1 :: u64) < 2 ^ LENGTH(64)"
    using acc unat_wrapping_next [of "ctl_accepted c"] unat_u64_less [of "wrapping_next (ctl_accepted c)"]
    by (simp add: F)
  have n: "saturating_add (ctl_admitted_in_window c) 1 = ctl_admitted_in_window c + 1"
    using R(1,3) unat_u16_less [of "ctl_admitted_in_window c1"]
    by (simp add: saturating_add_def)
  have guards: "ac_window_start a = ctl_window_start c1"
    "ac_reservation_sequence a = ctl_reservation_sequence c1"
    "ctl_admitted_in_window c1 = saturating_add (ac_admitted_before a) 1"
    using R(5,7,8) n by (simp_all add: R(1) reserved_def)
  have "saturating_sub (saturating_add (ctl_virtual_backlog_q16 c) Q16_ONE) Q16_ONE = ctl_virtual_backlog_q16 c"
    using vb' by (intro saturating_inverse) simp
  moreover have "saturating_sub (saturating_add (ctl_accepted c) 1) 1 = ctl_accepted c"
    using add1 by (rule saturating_inverse)
  ultimately have "rollback c1 a = (c\<lparr>ctl_reservation_sequence := ctl_reservation_sequence c + 1\<rparr>, Ok ())"
    using ver guards R(8) by (simp add: rollback_def R(1) reserved_def)
  with adv show ?thesis by blast
qed

lemma rollback_twice:
  assumes first: "rollback c a = (c', Ok u)" and adm: "ac_admitted_before a \<noteq> - 1"
  shows "rollback c' a = (c', Err StaleReservation)"
proof -
  have "ctl_admitted_in_window c' \<noteq> saturating_add (ac_admitted_before a) 1"
  proof
    assume "ctl_admitted_in_window c' = saturating_add (ac_admitted_before a) 1"
    then have "unat (ac_admitted_before a) = min (unat (ac_admitted_before a) + 1) 65535"
      using rollback_Ok(5) [OF first] by (simp add: word_unat_eq_iff unat_saturating_add)
    then have "unat (ac_admitted_before a) = 65535" by linarith
    then have "ac_admitted_before a = - 1"
      by (simp add: word_unat_eq_iff unsigned_minus_1_eq_mask mask_eq_exp_minus_1)
    with adm show False by simp
  qed
  then show ?thesis by (simp add: rollback_def)
qed


section \<open>Runs of the controller\<close>

text \<open>
  A run is any sequence of calls by the client.  Beside the controller it carries, as ghost state,
  the certificates issued and the certificates whose rollback succeeded, latest first.
\<close>

datatype ctl_op =
    OpAdmit u64 u64 usize
  | OpRollback AdmissionCertificate
  | OpObserve AdmissionCertificate u64

type_synonym ctl_trace = "ServiceController \<times> AdmissionCertificate list \<times> AdmissionCertificate list"

fun ctl_exec :: "ctl_trace \<Rightarrow> ctl_op \<Rightarrow> ctl_trace" where
  "ctl_exec (c, issued, rolled) (OpAdmit now dl b) =
     (case admit c now dl b of (c', Inr a) \<Rightarrow> (c', a # issued, rolled) | (c', Inl _) \<Rightarrow> (c', issued, rolled))"
| "ctl_exec (c, issued, rolled) (OpRollback a) =
     (case rollback c a of (c', Inr _) \<Rightarrow> (c', issued, a # rolled) | (c', Inl _) \<Rightarrow> (c', issued, rolled))"
| "ctl_exec (c, issued, rolled) (OpObserve a t) = (fst (observe_completion c a t), issued, rolled)"

definition in_window :: "u64 \<Rightarrow> AdmissionCertificate list \<Rightarrow> nat" where
  "in_window w as = length (filter (\<lambda>a. ac_window_start a = w) as)"

lemma in_window_simps [simp]:
  "in_window w [] = 0"
  "in_window w (a # as) = (if ac_window_start a = w then 1 else 0) + in_window w as"
  by (simp_all add: in_window_def)

fun trace_inv :: "u64 \<Rightarrow> ServiceCurve \<Rightarrow> ctl_trace \<Rightarrow> bool" where
  "trace_inv s0 cv (c, issued, rolled) \<longleftrightarrow>
     ctl_curve c = cv
   \<and> ctl_admitted_in_window c \<le> maximum_admissions_per_window cv
   \<and> in_window (ctl_window_start c) issued
       \<le> in_window (ctl_window_start c) rolled + unat (ctl_admitted_in_window c)
   \<and> (\<forall>w > ctl_window_start c. in_window w issued = 0)
   \<and> (\<forall>w. in_window w issued \<le> in_window w rolled + unat (maximum_admissions_per_window cv))
   \<and> sorted_wrt (>) (map ac_reservation_sequence issued)
   \<and> (\<forall>a \<in> set issued. s0 < ac_reservation_sequence a
        \<and> ac_reservation_sequence a \<le> ctl_reservation_sequence c)
   \<and> s0 \<le> ctl_reservation_sequence c"

text \<open>Moving the window (or not) keeps the invariant; so do changes of the other fields.\<close>

lemma trace_inv_window:
  assumes inv: "trace_inv s0 cv (c, issued, rolled)"
    and "ctl_curve c' = ctl_curve c" and seq: "ctl_reservation_sequence c' = ctl_reservation_sequence c"
    and win: "ctl_window_start c' = ctl_window_start c \<and> ctl_admitted_in_window c' = ctl_admitted_in_window c
      \<or> ctl_window_start c < ctl_window_start c' \<and> ctl_admitted_in_window c' = 0"
  shows "trace_inv s0 cv (c', issued, rolled)"
  using win
proof
  assume "ctl_window_start c' = ctl_window_start c \<and> ctl_admitted_in_window c' = ctl_admitted_in_window c"
  with inv assms(2) seq show ?thesis by simp
next
  assume w: "ctl_window_start c < ctl_window_start c' \<and> ctl_admitted_in_window c' = 0"
  with inv have "in_window (ctl_window_start c') issued = 0" by simp
  moreover from inv w have "\<forall>w > ctl_window_start c'. in_window w issued = 0" by auto
  ultimately show ?thesis using inv assms(2) seq w by simp
qed

lemma advance_window:
  assumes adv: "advance c t = (c', r)" and wt: "window_ticks (ctl_curve c) \<noteq> 0"
  shows "ctl_window_start c' = ctl_window_start c \<and> ctl_admitted_in_window c' = ctl_admitted_in_window c
      \<or> ctl_window_start c < ctl_window_start c' \<and> ctl_admitted_in_window c' = 0"
proof -
  let ?w = "unat (window_ticks (ctl_curve c))" and ?n = "whole_windows c t"
  show ?thesis
  proof (cases "t < ctl_last_tick c \<or> t < ctl_window_start c \<or> ?n = 0")
    case True
    then show ?thesis using adv by (auto simp: advance_cases [OF wt] reject_def split: if_splits)
  next
    case False
    then have c': "ctl_window_start c' = of_nat (unat (ctl_window_start c) + ?n * ?w)"
        "ctl_admitted_in_window c' = 0"
      using adv by (auto simp: advance_cases [OF wt] Let_def split: if_splits)
    have "unat (ctl_window_start c') = unat (ctl_window_start c) + ?n * ?w"
      unfolding c' using False by (intro moved_start) simp
    moreover have "0 < ?n * ?w" using False wt by (simp add: unat_gt_0)
    ultimately show ?thesis using c' by (simp add: word_less_nat_alt)
  qed
qed

lemma trace_inv_advance:
  assumes "trace_inv s0 cv (c, issued, rolled)" and "advance c t = (c', r)" and "window_ticks cv \<noteq> 0"
  shows "trace_inv s0 cv (c', issued, rolled)"
proof -
  from assms have "window_ticks (ctl_curve c) \<noteq> 0" by simp
  with assms show ?thesis
    by (intro trace_inv_window [OF assms(1)] advance_window) (auto simp: advance_frame)
qed


lemma admit_Err_frame:
  assumes "admit c0 now dl b = (c', Err e)"
  shows "\<exists>c r. advance c0 now = (c, r) \<and> (c' = c \<or> c' = reject c)"
proof -
  obtain c r where adv: "advance c0 now = (c, r)" by (cases "advance c0 now")
  have fits: "unat b < 65536" if "\<not> ucast (maximum_backlog (ctl_curve c)) \<le> b"
    using that unat_u16_less [of "maximum_backlog (ctl_curve c)"] by (simp add: word_le_nat_alt)
  have "c' = c \<or> c' = reject c"
    using assms fits
    by (auto simp: admit_def adv admit_reserve_def Let_def
        split: sum.splits if_splits option.splits)
  with adv show ?thesis by blast
qed

lemma observe_completion_frame:
  assumes "observe_completion c0 a t = (c', r)"
  shows "c' = c0 \<or> (\<exists>c q. advance c0 t = (c, q) \<and> ctl_curve c' = ctl_curve c
     \<and> ctl_reservation_sequence c' = ctl_reservation_sequence c
     \<and> ctl_window_start c' = ctl_window_start c \<and> ctl_admitted_in_window c' = ctl_admitted_in_window c)"
proof -
  obtain c q where adv: "advance c0 t = (c, q)" by (cases "advance c0 t")
  show ?thesis
    using assms
    by (auto simp: observe_completion_def adv Let_def split: sum.splits if_splits option.splits prod.splits)
qed


lemma trace_inv_reserve:
  assumes inv: "trace_inv s0 cv (c, issued, rolled)"
    and env: "ctl_admitted_in_window c < maximum_admissions_per_window cv"
    and res: "admit_reserve c now b det g drift delay slack = (c', Ok a)"
  shows "trace_inv s0 cv (c', a # issued, rolled)"
proof -
  note R = admit_reserve_Ok [OF res]
  have seq: "ctl_reservation_sequence c < ac_reservation_sequence a" using R(2,5) by (simp add: word_less_nat_alt)
  have fields: "ctl_curve c' = ctl_curve c" "ctl_window_start c' = ctl_window_start c"
    by (simp_all add: R(1) reserved_def)
  have adm: "unat (ctl_admitted_in_window c') \<le> unat (maximum_admissions_per_window cv)"
    using R(3) env by (simp add: word_less_nat_alt)
  have cur: "in_window (ctl_window_start c) (a # issued)
      \<le> in_window (ctl_window_start c) rolled + unat (ctl_admitted_in_window c')"
    using inv R(3,7) by simp
  have all: "in_window w (a # issued) \<le> in_window w rolled + unat (maximum_admissions_per_window cv)" for w
    using inv cur adm R(7) by (cases "w = ctl_window_start c") (auto intro: le_trans)
  have old: "\<forall>x \<in> set issued. s0 < ac_reservation_sequence x \<and> ac_reservation_sequence x < ac_reservation_sequence a"
    using inv seq by auto
  have s0: "s0 < ac_reservation_sequence a" using inv seq by (auto intro: le_less_trans)
  have future: "in_window w (a # issued) = 0" if "ctl_window_start c < w" for w
    using inv R(7) that by auto
  have adm': "ctl_admitted_in_window c' \<le> maximum_admissions_per_window cv"
    using adm by (simp add: word_le_nat_alt)
  show ?thesis
    using inv adm' cur all old s0 future R(5) fields
    by (auto intro: less_imp_le)
qed

lemma trace_inv_rollback:
  assumes inv: "trace_inv s0 cv (c, issued, rolled)" and rb: "rollback c a = (c', Ok u)"
  shows "trace_inv s0 cv (c', issued, a # rolled)"
proof -
  note R = rollback_Ok [OF rb]
  have step: "unat (ctl_admitted_in_window c) \<le> unat (ctl_admitted_in_window c') + 1"
    "ctl_admitted_in_window c' \<le> ctl_admitted_in_window c"
    using R(4) by (auto simp: R(5) word_le_nat_alt unat_saturating_add unat_u16_less
        intro: le_trans [OF less_imp_le [OF unat_u16_less]] simp del: unat_u16_u64)
      (use unat_u16_less [of "ac_admitted_before a"] in linarith)
  have fields: "ctl_curve c' = ctl_curve c" "ctl_window_start c' = ctl_window_start c"
    "ctl_reservation_sequence c' = ctl_reservation_sequence c"
    by (simp_all add: R(5))
  have cur: "in_window (ctl_window_start c) issued
      \<le> in_window (ctl_window_start c) (a # rolled) + unat (ctl_admitted_in_window c')"
    using inv step(1) R(2) by simp
  have all: "in_window w issued \<le> in_window w (a # rolled) + unat (maximum_admissions_per_window cv)" for w
    using inv by (simp add: trans_le_add1 le_SucI)
  show ?thesis using inv step(2) cur all fields by (auto intro: order_trans)
qed

lemma trace_inv_admit_Err:
  assumes inv: "trace_inv s0 cv (c, issued, rolled)" and wt: "window_ticks cv \<noteq> 0"
    and adm: "admit c now dl b = (c', Err e)"
  shows "trace_inv s0 cv (c', issued, rolled)"
proof -
  from admit_Err_frame [OF adm] obtain d q where adv: "advance c now = (d, q)"
    and c': "c' = d \<or> c' = reject d" by blast
  have d: "trace_inv s0 cv (d, issued, rolled)" using inv adv wt by (rule trace_inv_advance)
  then have "trace_inv s0 cv (reject d, issued, rolled)"
    by (rule trace_inv_window) (simp_all add: reject_def)
  with d c' show ?thesis by auto
qed

lemma trace_inv_admit_Ok:
  assumes inv: "trace_inv s0 cv (c, issued, rolled)" and wt: "window_ticks cv \<noteq> 0"
    and adm: "admit c now dl b = (c', Ok a)"
  shows "trace_inv s0 cv (c', a # issued, rolled)"
proof -
  from adm obtain d det g delay req where adv: "advance c now = (d, Ok ())"
    and env: "ctl_admitted_in_window d < maximum_admissions_per_window (ctl_curve d)"
    and res: "admit_reserve d now b det g (drift_penalty_ticks d) delay (dl - req) = (c', Ok a)"
    by (rule admit_OkE)
  have d: "trace_inv s0 cv (d, issued, rolled)" using inv adv wt by (rule trace_inv_advance)
  then have "ctl_curve d = cv" by simp
  with d env res show ?thesis by (intro trace_inv_reserve) auto
qed

lemma trace_inv_observe:
  assumes inv: "trace_inv s0 cv (c, issued, rolled)" and wt: "window_ticks cv \<noteq> 0"
    and ob: "observe_completion c a t = (c', r)"
  shows "trace_inv s0 cv (c', issued, rolled)"
proof (cases "c' = c")
  case False
  with observe_completion_frame [OF ob] obtain d q where adv: "advance c t = (d, q)"
    and f: "ctl_curve c' = ctl_curve d" "ctl_reservation_sequence c' = ctl_reservation_sequence d"
    "ctl_window_start c' = ctl_window_start d" "ctl_admitted_in_window c' = ctl_admitted_in_window d"
    by blast
  have "trace_inv s0 cv (d, issued, rolled)" using inv adv wt by (rule trace_inv_advance)
  then show ?thesis by (rule trace_inv_window) (simp_all add: f)
qed (use inv in simp)

lemma trace_inv_exec:
  assumes inv: "trace_inv s0 cv (c, issued, rolled)" and wt: "window_ticks cv \<noteq> 0"
  shows "trace_inv s0 cv (ctl_exec (c, issued, rolled) op)"
proof (cases op)
  case (OpAdmit now dl b)
  then show ?thesis
    using trace_inv_admit_Ok [OF inv wt] trace_inv_admit_Err [OF inv wt]
    by (auto split: prod.split sum.split simp del: trace_inv.simps)
next
  case (OpRollback a)
  then show ?thesis
    using trace_inv_rollback [OF inv] rollback_Err [of c a] inv
    by (auto split: prod.split sum.split simp del: trace_inv.simps)
next
  case (OpObserve a t)
  then show ?thesis
    using trace_inv_observe [OF inv wt, of a t] by (simp add: prod_eq_iff del: trace_inv.simps)
qed

lemma trace_inv_run:
  assumes "trace_inv s0 cv st" and "window_ticks cv \<noteq> 0"
  shows "trace_inv s0 cv (foldl ctl_exec st ops)"
  using assms
proof (induction ops arbitrary: st)
  case (Cons op ops)
  then have "trace_inv s0 cv (ctl_exec st op)" by (cases st) (blast intro: trace_inv_exec)
  with Cons show ?case by (simp del: trace_inv.simps)
qed simp

lemma controller_new_Ok:
  assumes "controller_new N cv t s = Ok c"
  shows "curve_valid cv" "ctl_curve c = cv" "ctl_admitted_in_window c = 0" "ctl_reservation_sequence c = 0"
    "ctl_secret c = s" "ctl_curve_root c = service_curve_root s cv" "ctl_curve_root c \<noteq> 0"
  using assms by (auto simp: controller_new_def Let_def and_then_Inr_iff split: if_splits)

section \<open>The residual window\<close>

definition cal_inv :: "ResidualCalibrator \<Rightarrow> bool" where
  "cal_inv k \<longleftrightarrow>
     cal_cursor k < length (cal_residuals k) \<and> cal_length k \<le> length (cal_residuals k)
   \<and> (cal_length k < length (cal_residuals k) \<longrightarrow> cal_cursor k = cal_length k)
   \<and> (\<forall>r \<in> set (cal_residuals k). r \<le> cal_maximum_guard k)
   \<and> 0 < cal_coverage_numerator k \<and> cal_coverage_numerator k < cal_coverage_denominator k"

text \<open>The retained residuals, oldest first.\<close>

definition cal_history :: "ResidualCalibrator \<Rightarrow> u64 list" where
  "cal_history k =
    (if cal_length k < length (cal_residuals k) then take (cal_length k) (cal_residuals k)
     else drop (cal_cursor k) (cal_residuals k) @ take (cal_cursor k) (cal_residuals k))"

definition last_n :: "nat \<Rightarrow> 'a list \<Rightarrow> 'a list" where
  "last_n n xs = drop (length xs - n) xs"

lemma last_n_append1: "0 < n \<Longrightarrow> last_n n (last_n n xs @ [x]) = last_n n (xs @ [x])"
  by (cases "n \<le> length xs") (auto simp: last_n_def Suc_diff_le)

lemma calibrator_push_fields:
  defines "k' k r \<equiv> fst (calibrator_push k r)"
  shows "cal_residuals (k' k r) = (cal_residuals k)[cal_cursor k := min r (cal_maximum_guard k)]"
    "cal_cursor (k' k r) = (cal_cursor k + 1) mod length (cal_residuals k)"
    "cal_length (k' k r) = min (cal_length k + 1) (length (cal_residuals k))"
    "cal_maximum_guard (k' k r) = cal_maximum_guard k"
    "cal_coverage_numerator (k' k r) = cal_coverage_numerator k"
    "cal_coverage_denominator (k' k r) = cal_coverage_denominator k"
    "cal_additive_slack (k' k r) = cal_additive_slack k"
    "calibrator_verify_root (k' k r)"
  by (simp_all add: k'_def calibrator_push_def calibrator_seal_def calibrator_root_def
      calibrator_verify_root_def Let_def)

lemma take_update_at:
  "i < length xs \<Longrightarrow> take (Suc i) (xs[i := v]) = take i xs @ [v]"
  by (simp add: take_Suc_conv_app_nth)

lemma calibrator_push_refines:
  assumes inv: "cal_inv k"
  shows "cal_inv (fst (calibrator_push k r))"
    and "cal_history (fst (calibrator_push k r))
       = last_n (length (cal_residuals k)) (cal_history k @ [min r (cal_maximum_guard k)])"
proof -
  let ?n = "length (cal_residuals k)" and ?c = "cal_cursor k" and ?b = "min r (cal_maximum_guard k)"
  from inv have c: "?c < ?n" and l: "cal_length k \<le> ?n" by (simp_all add: cal_inv_def)
  have wrap: "cal_cursor (fst (calibrator_push k r)) = (if Suc ?c = ?n then 0 else Suc ?c)"
    using c by (auto simp: calibrator_push_fields)
  note fields = wrap calibrator_push_fields(1,3-)
  have bounded: "\<forall>x \<in> set ((cal_residuals k)[?c := ?b]). x \<le> cal_maximum_guard k"
    using inv set_update_subset_insert [of "cal_residuals k" ?c ?b] by (auto simp: cal_inv_def)
  show "cal_inv (fst (calibrator_push k r))"
    unfolding cal_inv_def fields
    using inv bounded c by (auto simp: cal_inv_def)
  note upd = take_update_at [OF c, of ?b]
  show "cal_history (fst (calibrator_push k r)) = last_n ?n (cal_history k @ [?b])"
  proof (cases "cal_length k < ?n")
    case True
    with inv have cl: "?c = cal_length k" by (simp add: cal_inv_def)
    have hist: "cal_history k = take ?c (cal_residuals k)" using True cl by (simp add: cal_history_def)
    have whole: "(cal_residuals k)[?c := ?b] = take ?c (cal_residuals k) @ [?b]" if "Suc ?c = ?n"
      using upd that by (metis length_list_update order_refl take_all)
    show ?thesis
      using True c cl upd whole
      by (auto simp: hist cal_history_def fields last_n_def)
  next
    case False
    with l have full: "cal_length k = ?n" by simp
    have hist: "cal_history k = cal_residuals k ! ?c # drop (Suc ?c) (cal_residuals k) @ take ?c (cal_residuals k)"
      using full c by (simp add: cal_history_def Cons_nth_drop_Suc [symmetric])
    have "cal_history (fst (calibrator_push k r)) = drop (Suc ?c) (cal_residuals k) @ take ?c (cal_residuals k) @ [?b]"
    proof (cases "Suc ?c = ?n")
      case True
      then have "(cal_residuals k)[?c := ?b] = take ?c (cal_residuals k) @ [?b]"
        using upd by (metis length_list_update order_refl take_all)
      with True full show ?thesis by (simp add: cal_history_def fields)
    next
      case False
      with full upd show ?thesis by (simp add: cal_history_def fields)
    qed
    moreover have "Suc (Suc (?n - Suc 0)) - ?n = 1" using c by arith
    ultimately show ?thesis using hist c by (simp add: last_n_def)
  qed
qed

lemma calibrator_new_inv:
  assumes "calibrator_new N num den slack mg s = Ok k"
  shows "cal_inv k" "cal_history k = []" "length (cal_residuals k) = N" "cal_maximum_guard k = mg" "0 < N"
  using assms
  by (auto simp: calibrator_new_def cal_inv_def cal_history_def calibrator_seal_def word_neq_0_conv
      not_le split: if_splits)

lemma calibrator_run:
  assumes "cal_inv k"
  shows "cal_inv (foldl (\<lambda>k r. fst (calibrator_push k r)) k rs) \<and>
    cal_history (foldl (\<lambda>k r. fst (calibrator_push k r)) k rs)
    = last_n (length (cal_residuals k)) (cal_history k @ map (\<lambda>r. min r (cal_maximum_guard k)) rs)"
proof (induction rs rule: rev_induct)
  case Nil
  from assms show ?case by (auto simp: last_n_def cal_history_def cal_inv_def)
next
  case (snoc r rs)
  let ?k = "foldl (\<lambda>k r. fst (calibrator_push k r)) k rs"
  have "length (cal_residuals ?k) = length (cal_residuals k) \<and> cal_maximum_guard ?k = cal_maximum_guard k"
    by (induction rs rule: rev_induct) (simp_all add: calibrator_push_fields)
  moreover have "0 < length (cal_residuals k)" using assms by (auto simp: cal_inv_def)
  ultimately show ?case
    using snoc calibrator_push_refines [of ?k r]
    by (simp add: last_n_append1 flip: append_assoc)
qed


section \<open>The conformal guard\<close>

lemma sorted_filter_le_nth:
  assumes "sorted xs" and "i < length xs"
  shows "Suc i \<le> length (filter (\<lambda>x. x \<le> xs ! i) xs)"
proof -
  have "filter (\<lambda>x. x \<le> xs ! i) (take (Suc i) xs) = take (Suc i) xs"
    using assms by (auto simp: filter_id_conv in_set_conv_nth sorted_iff_nth_mono less_Suc_eq_le)
  moreover have "filter (\<lambda>x. x \<le> xs ! i) xs
      = filter (\<lambda>x. x \<le> xs ! i) (take (Suc i) xs) @ filter (\<lambda>x. x \<le> xs ! i) (drop (Suc i) xs)"
    by (metis append_take_drop_id filter_append)
  ultimately show ?thesis using assms(2) by simp
qed

lemma sorted_filter_less_nth:
  assumes "sorted xs" and "i < length xs"
  shows "length (filter (\<lambda>x. x < xs ! i) xs) \<le> i"
proof -
  have "filter (\<lambda>x. x < xs ! i) (drop i xs) = []"
    using assms by (auto simp: filter_empty_conv in_set_conv_nth not_less sorted_iff_nth_mono)
  moreover have "filter (\<lambda>x. x < xs ! i) xs
      = filter (\<lambda>x. x < xs ! i) (take i xs) @ filter (\<lambda>x. x < xs ! i) (drop i xs)"
    by (metis append_take_drop_id filter_append)
  ultimately show ?thesis using assms(2) length_filter_le [of _ "take i xs"] by (metis append_Nil2 length_take min.absorb4)
qed

lemma length_filter_mono:
  "(\<And>x. x \<in> set xs \<Longrightarrow> P x \<Longrightarrow> Q x) \<Longrightarrow> length (filter P xs) \<le> length (filter Q xs)"
  by (induction xs) (auto simp: le_SucI)

lemma filter_sort_length: "length (filter P (sort xs)) = length (filter P xs)"
  by (simp add: filter_sort)

text \<open>The number of residuals the guard has to cover, \<open>\<lceil>(n + 1) \<cdot> numerator / denominator\<rceil>\<close> capped at \<open>n\<close>.\<close>

definition conformal_rank :: "ResidualCalibrator \<Rightarrow> nat" where
  "conformal_rank k = min (cal_length k)
    (((cal_length k + 1) * unat (cal_coverage_numerator k) + (unat (cal_coverage_denominator k) - 1))
      div unat (cal_coverage_denominator k))"

lemma conformal_rank_bounds:
  assumes inv: "cal_inv k" and "0 < cal_length k"
  shows "0 < conformal_rank k" and "conformal_rank k \<le> cal_length k"
proof -
  let ?a = "unat (cal_coverage_numerator k)" and ?d = "unat (cal_coverage_denominator k)"
  have "1 \<le> ?a" "?a < ?d" using inv by (simp_all add: cal_inv_def word_less_nat_alt)
  then have "?d \<le> (cal_length k + 1) * ?a + (?d - 1)" by simp
  then have "1 \<le> ((cal_length k + 1) * ?a + (?d - 1)) div ?d"
    using \<open>?a < ?d\<close> by (simp add: Suc_le_eq div_greater_zero_iff)
  with assms(2) show "0 < conformal_rank k" by (simp add: conformal_rank_def)
qed (simp add: conformal_rank_def)

lemma calibrator_guard_value:
  assumes inv: "cal_inv k" and pos: "0 < cal_length k" and small: "length (cal_residuals k) < 2 ^ 55"
  shows "calibrator_guard k =
    (let v = sort (take (cal_length k) (cal_residuals k)) ! (conformal_rank k - 1) in
     if unat v + unat (cal_additive_slack k) < 2 ^ 64
     then Ok (min (v + cal_additive_slack k) (cal_maximum_guard k)) else Err CalArithmeticOverflow)"
proof -
  let ?a = "unat (cal_coverage_numerator k)" and ?d = "unat (cal_coverage_denominator k)"
  have a: "?a < 256" "?d < 256" using unsigned_less [of "cal_coverage_numerator k", where ?'a = nat]
      unsigned_less [of "cal_coverage_denominator k", where ?'a = nat] by simp_all
  have n: "cal_length k + 1 \<le> 2 ^ 55" using inv small by (simp add: cal_inv_def)
  then have m: "(cal_length k + 1) * ?a \<le> 2 ^ 55 * 255" using a by (intro mult_le_mono) auto
  have idx: "min (((cal_length k + 1) * ?a + (?d - 1)) div ?d - 1) (cal_length k - 1) = conformal_rank k - 1"
    by (simp only: conformal_rank_def min_diff min.commute)
  have "checked_usize (cal_length k + 1) = Some (cal_length k + 1)"
    "checked_usize ((cal_length k + 1) * ?a) = Some ((cal_length k + 1) * ?a)"
    "checked_usize ((cal_length k + 1) * ?a + (?d - 1)) = Some ((cal_length k + 1) * ?a + (?d - 1))"
    using n m a by (simp_all add: checked_usize_def)
  then show ?thesis
    using pos idx by (simp add: calibrator_guard_def Let_def checked_add_def)
qed


lemma calibrator_guard_covers:
  assumes inv: "cal_inv k" and pos: "0 < cal_length k" and small: "length (cal_residuals k) < 2 ^ 55"
    and g: "calibrator_guard k = Ok g"
  defines "rs \<equiv> take (cal_length k) (cal_residuals k)"
  shows "g \<le> cal_maximum_guard k"
    and "conformal_rank k \<le> length (filter (\<lambda>r. r \<le> g) rs)"
    and "length (filter (\<lambda>r. unat r + unat (cal_additive_slack k) < unat g) rs) < conformal_rank k"
proof -
  let ?i = "conformal_rank k - 1" and ?s = "cal_additive_slack k"
  define v where "v = sort rs ! ?i"
  note rank = conformal_rank_bounds [OF inv pos]
  have len: "length (sort rs) = cal_length k" using inv by (simp add: rs_def cal_inv_def)
  have i: "?i < length (sort rs)" using rank len by simp
  from g have fits: "unat v + unat ?s < 2 ^ 64" and g': "g = min (v + ?s) (cal_maximum_guard k)"
    by (auto simp: calibrator_guard_value [OF inv pos small] v_def rs_def Let_def split: if_splits)
  have sum: "unat (v + ?s) = unat v + unat ?s" using fits by (simp add: unat_word_ariths)
  have "v \<in> set (sort rs)" unfolding v_def using i by (rule nth_mem)
  then have "v \<le> cal_maximum_guard k"
    using inv set_take_subset [of "cal_length k" "cal_residuals k"] by (auto simp: rs_def cal_inv_def)
  then have vg: "v \<le> g" using sum by (simp add: g' word_le_nat_alt)
  have "conformal_rank k \<le> length (filter (\<lambda>r. r \<le> v) rs)"
    using sorted_filter_le_nth [OF sorted_sort i] rank by (simp add: v_def filter_sort_length)
  also have "\<dots> \<le> length (filter (\<lambda>r. r \<le> g) rs)"
    using vg by (intro length_filter_mono) auto
  finally show "conformal_rank k \<le> length (filter (\<lambda>r. r \<le> g) rs)" .
  have "length (filter (\<lambda>r. unat r + unat ?s < unat g) rs) \<le> length (filter (\<lambda>r. r < v) rs)"
    using sum by (intro length_filter_mono) (auto simp: g' word_less_nat_alt word_le_nat_alt min_def split: if_splits)
  also have "\<dots> \<le> ?i"
    using sorted_filter_less_nth [OF sorted_sort i] by (simp add: v_def filter_sort_length)
  finally show "length (filter (\<lambda>r. unat r + unat ?s < unat g) rs) < conformal_rank k"
    using rank by simp
  show "g \<le> cal_maximum_guard k" by (simp add: g')
qed

lemma calibrator_guard_total:
  assumes inv: "cal_inv k" and small: "length (cal_residuals k) < 2 ^ 55"
    and room: "unat (cal_maximum_guard k) + unat (cal_additive_slack k) < 2 ^ 64"
  shows "\<exists>g. calibrator_guard k = Ok g"
proof (cases "cal_length k = 0")
  case True
  then show ?thesis by (simp add: calibrator_guard_def)
next
  case False
  then have pos: "0 < cal_length k" by simp
  let ?rs = "take (cal_length k) (cal_residuals k)"
  have "conformal_rank k - 1 < length (sort ?rs)"
    using conformal_rank_bounds [OF inv pos] inv by (simp add: cal_inv_def)
  then have "sort ?rs ! (conformal_rank k - 1) \<in> set (sort ?rs)" by (rule nth_mem)
  then have "sort ?rs ! (conformal_rank k - 1) \<le> cal_maximum_guard k"
    using inv set_take_subset [of "cal_length k" "cal_residuals k"] by (auto simp: cal_inv_def)
  with room have "unat (sort ?rs ! (conformal_rank k - 1)) + unat (cal_additive_slack k) < 2 ^ 64"
    unfolding word_le_nat_alt by linarith
  then show ?thesis by (simp add: calibrator_guard_value [OF inv pos small] Let_def)
qed

lemma observe_completion_OkE:
  assumes "observe_completion c0 a t = (c', Ok g)"
  obtains c where "verify_certificate c0 a" and "ac_admitted_tick a \<le> t" and "advance c0 t = (c, Ok ())"
    and "\<exists>p. checked_add (ac_deterministic_delay_ticks a) (ac_drift_penalty_ticks a) = Some p"
    and "ctl_curve c' = ctl_curve c0" "ctl_secret c' = ctl_secret c0" "ctl_curve_root c' = ctl_curve_root c0"
    and "ctl_last_tick c' = ctl_last_tick c" "ctl_window_start c' = ctl_window_start c"
    and "\<exists>r. ctl_calibrator c' = fst (calibrator_push (ctl_calibrator c0) r)"
    and "ctl_observed c' = saturating_add (ctl_observed c0) 1"
proof -
  obtain c q where adv: "advance c0 t = (c, q)" by (cases "advance c0 t")
  have q: "q = Ok ()" using assms adv by (cases q) (auto simp: observe_completion_def split: if_splits)
  note F = advance_frame [OF adv]
  show thesis
  proof
    show "verify_certificate c0 a" "ac_admitted_tick a \<le> t"
      using assms by (auto simp: observe_completion_def not_less split: if_splits)
    show "advance c0 t = (c, Ok ())" using adv q by simp
    show "\<exists>p. checked_add (ac_deterministic_delay_ticks a) (ac_drift_penalty_ticks a) = Some p"
      "ctl_curve c' = ctl_curve c0" "ctl_secret c' = ctl_secret c0" "ctl_curve_root c' = ctl_curve_root c0"
      "ctl_last_tick c' = ctl_last_tick c" "ctl_window_start c' = ctl_window_start c"
      "\<exists>r. ctl_calibrator c' = fst (calibrator_push (ctl_calibrator c0) r)"
      "ctl_observed c' = saturating_add (ctl_observed c0) 1"
      using assms
      by (auto simp: observe_completion_def adv q Let_def F prod_eq_iff split: if_splits option.splits prod.splits sum.splits)
  qed
qed

lemma observe_again:
  assumes first: "observe_completion c0 a t = (c1, Ok g)" and valid: "curve_valid (ctl_curve c0)"
    and cal: "cal_inv (ctl_calibrator c0)" "length (cal_residuals (ctl_calibrator c0)) < 2 ^ 55"
    and room: "unat (cal_maximum_guard (ctl_calibrator c0)) + unat (cal_additive_slack (ctl_calibrator c0)) < 2 ^ 64"
  shows "\<exists>c2 g'. observe_completion c1 a t = (c2, Ok g')"
proof -
  from first obtain c r where ver: "verify_certificate c0 a" and t: "ac_admitted_tick a \<le> t"
    and adv: "advance c0 t = (c, Ok ())"
    and p: "\<exists>p. checked_add (ac_deterministic_delay_ticks a) (ac_drift_penalty_ticks a) = Some p"
    and f: "ctl_curve c1 = ctl_curve c0" "ctl_secret c1 = ctl_secret c0" "ctl_curve_root c1 = ctl_curve_root c0"
      "ctl_last_tick c1 = ctl_last_tick c" "ctl_window_start c1 = ctl_window_start c"
    and k: "ctl_calibrator c1 = fst (calibrator_push (ctl_calibrator c0) r)"
    by (blast elim: observe_completion_OkE)
  from valid have wt: "window_ticks (ctl_curve c0) \<noteq> 0" by (simp add: curve_valid_def)
  note V = advance_Ok [OF adv wt]
  have "whole_windows c1 t = 0"
    using V(4,5) wt by (simp add: whole_windows_def f word_le_nat_alt div_eq_0_iff)
  then have adv1: "advance c1 t = (c1\<lparr>ctl_last_tick := t\<rparr>, Ok ())"
    using V(2,4) wt by (simp add: advance_cases f not_less)
  have ver1: "verify_certificate c1 a" using ver f by (simp add: verify_certificate_def)
  let ?push = "calibrator_push (ctl_calibrator c1)"
  have "cal_inv (fst (?push r'))" for r'
    using cal by (simp add: k calibrator_push_refines(1))
  then have "\<exists>g. calibrator_guard (fst (?push r')) = Ok g" for r'
    using cal(2) room by (intro calibrator_guard_total) (simp_all add: k calibrator_push_fields)
  then have push: "\<exists>g. snd (?push r') = Ok g" for r'
    by (metis calibrator_push_def fst_conv snd_conv)
  from p obtain pr where pr: "checked_add (ac_deterministic_delay_ticks a) (ac_drift_penalty_ticks a) = Some pr"
    by blast
  obtain k2 g2 where k2: "?push (saturating_sub (t - ac_admitted_tick a) pr) = (k2, Ok g2)"
    using push by (metis prod.collapse)
  have "\<not> (\<not> verify_certificate c1 a \<or> t < ac_admitted_tick a)" using ver1 t by (simp add: not_less)
  then show ?thesis
    unfolding observe_completion_def Let_def by (simp add: adv1 pr k2)
qed

text \<open>The certificate the sample controller issues, and the controller after issuing it.\<close>

definition sample_certificate :: AdmissionCertificate where
  "sample_certificate = projr (snd (admit sample_controller 1000 1500 0))"

definition sample_reserved :: ServiceController where
  "sample_reserved = fst (admit sample_controller 1000 1500 0)"

lemma sample_admit: "admit sample_controller 1000 1500 0 = (sample_reserved, Ok sample_certificate)"
  using sample_admits by (simp add: sample_reserved_def sample_certificate_def is_ok_iff prod_eq_iff) auto

lemma sample_certificate_fields:
  "sample_certificate = (let a = \<lparr>ac_reservation_sequence = 1, ac_admitted_tick = 1000,
     ac_window_start = 1000, ac_backlog_before = 0, ac_admitted_before = 0,
     ac_deterministic_delay_ticks = 120, ac_uncertainty_guard_ticks = 1, ac_drift_penalty_ticks = 0,
     ac_delay_bound_ticks = 121, ac_deadline_slack_ticks = 379,
     ac_curve_root = service_curve_root 7 sample_curve,
     ac_calibration_root = cal_root (ctl_calibrator sample_controller), ac_certificate_root = 0\<rparr>
   in a\<lparr>ac_certificate_root := admission_certificate_root 7 a\<rparr>)"
  unfolding sample_certificate_def
  by (simp add: admit_def admit_reserve_def sample_controller_def sample_curve_def advance_def
      deterministic_delay_def curve_valid_def checked_add_def checked_mul_def checked_div_def
      calibrator_guard_def calibrator_seal_def drift_penalty_ticks_def Let_def min_def)

lemma sample_certificate_roots:
  "cal_root (ctl_calibrator sample_controller) \<noteq> 0" "ac_certificate_root sample_certificate \<noteq> 0"
  unfolding sample_certificate_fields by code_simp+

lemma sample_verifies: "verify_certificate sample_reserved sample_certificate"
  using admitted_certificate(9) [OF sample_controller_valid sample_admit] sample_certificate_roots sample_roots
  by (simp add: sample_controller_def)

section \<open>Properties\<close>



text \<open>
  C33. The arrival envelope.  Whatever sequence of calls a client makes on a fresh controller, with
  any arguments, for every window the certificates issued in it, less those rolled back, never
  exceed the curve's maximum admissions; and reservation numbers are issued in strictly increasing
  order (the latest certificate comes first), starting above zero.
\<close>

theorem arrival_envelope:
  assumes "controller_new N cv t s = Ok c0"
    and "foldl ctl_exec (c0, [], []) ops = (c, issued, rolled)"
  shows "in_window w issued \<le> in_window w rolled + unat (maximum_admissions_per_window cv)
    \<and> ctl_admitted_in_window c \<le> maximum_admissions_per_window cv
    \<and> sorted_wrt (>) (map ac_reservation_sequence issued)
    \<and> (\<forall>a \<in> set issued. 0 < ac_reservation_sequence a \<and> ac_reservation_sequence a \<le> ctl_reservation_sequence c)"
proof -
  note N = controller_new_Ok [OF assms(1)]
  have "trace_inv 0 cv (c0, [], [])" using N by simp
  moreover have "window_ticks cv \<noteq> 0" using N(1) by (simp add: curve_valid_def)
  ultimately have "trace_inv 0 cv (c, issued, rolled)" using trace_inv_run assms(2) by metis
  then show ?thesis by simp
qed

theorem arrival_envelope_witness:
  "\<exists>c issued rolled. foldl ctl_exec (sample_controller, [], []) [OpAdmit 1000 1500 0, OpAdmit 1001 1500 0] = (c, issued, rolled)
    \<and> in_window 1000 issued \<le> in_window 1000 rolled + 4"
proof -
  obtain c issued rolled where
    x: "foldl ctl_exec (sample_controller, [], []) [OpAdmit 1000 1500 0, OpAdmit 1001 1500 0] = (c, issued, rolled)"
    by (cases "foldl ctl_exec (sample_controller, [], []) [OpAdmit 1000 1500 0, OpAdmit 1001 1500 0]")
  from arrival_envelope [OF sample_controller_new x, of 1000] x show ?thesis
    by (simp add: sample_curve_def del: foldl_Cons)
qed




text \<open>
  The conformal guard is an order statistic.  With at least one retained residual, the guard
  never exceeds the configured maximum, at least \<open>min(n, \<lceil>(n + 1) \<cdot> numerator / denominator\<rceil>)\<close> of the
  \<open>n\<close> retained residuals are at most the guard, and fewer than that many stay below it by more than
  the additive slack, so the guard is no larger than coverage demands.
\<close>

theorem conformal_guard_is_order_statistic:
  assumes "cal_inv k" and "0 < cal_length k" and "length (cal_residuals k) < 2 ^ 55"
    and "calibrator_guard k = Ok g"
  shows "g \<le> cal_maximum_guard k
    \<and> conformal_rank k \<le> length (filter (\<lambda>r. r \<le> g) (take (cal_length k) (cal_residuals k)))
    \<and> length (filter (\<lambda>r. unat r + unat (cal_additive_slack k) < unat g)
        (take (cal_length k) (cal_residuals k))) < conformal_rank k
    \<and> 0 < conformal_rank k"
  using calibrator_guard_covers [OF assms] conformal_rank_bounds [OF assms(1,2)] by simp

definition sample_calibrator :: ResidualCalibrator where
  "sample_calibrator = \<lparr>cal_residuals = [5, 9, 0, 0], cal_length = 2, cal_cursor = 2, cal_samples = 2,
     cal_coverage_numerator = 15, cal_coverage_denominator = 16, cal_additive_slack = 1,
     cal_maximum_guard = 1000, cal_secret = 7, cal_root = 0\<rparr>"

theorem conformal_guard_is_order_statistic_witness:
  "calibrator_guard sample_calibrator = Ok 10
   \<and> conformal_rank sample_calibrator \<le> length (filter (\<lambda>r. r \<le> 10) [5 :: u64, 9])"
proof -
  have inv: "cal_inv sample_calibrator"
    by (simp add: cal_inv_def sample_calibrator_def word_le_nat_alt word_less_nat_alt)
  have g: "calibrator_guard sample_calibrator = Ok 10"
    by (simp add: calibrator_guard_def sample_calibrator_def checked_usize_def checked_add_def Let_def
        insort_key.simps sort_key_def)
  from conformal_guard_is_order_statistic [OF inv _ _ g] g show ?thesis
    by (simp add: sample_calibrator_def del: filter.simps)
qed

text \<open>
  C37. The residual array is a sliding window: after any sequence of residuals pushed into a fresh
  calibrator of capacity \<open>N\<close>, the retained history is exactly the last \<open>N\<close> of them, oldest first,
  each capped at the maximum guard.
\<close>

theorem calibrator_keeps_last_n:
  assumes "calibrator_new N num den slack mg s = Ok k"
  shows "cal_history (foldl (\<lambda>k r. fst (calibrator_push k r)) k rs) = last_n N (map (\<lambda>r. min r mg) rs)"
  using calibrator_run [of k rs] calibrator_new_inv [OF assms] by simp

theorem calibrator_keeps_last_n_witness:
  "\<exists>k. calibrator_new 2 15 16 1 800 7 = Ok k
    \<and> cal_history (foldl (\<lambda>k r. fst (calibrator_push k r)) k [3, 4, 900]) = [4, 800]"
proof -
  obtain k where k: "calibrator_new 2 15 16 1 800 7 = Ok k"
    by (simp add: calibrator_new_def word_le_nat_alt)
  from calibrator_keeps_last_n [OF k, of "[3, 4, 900]"] k show ?thesis
    by (simp add: last_n_def min_def word_le_nat_alt)
qed

text \<open>
  C38. The deterministic bound is the min-plus horizontal deviation: latency plus the least number of
  whole windows whose guaranteed completions cover the backlog and the new job; it is refused only
  for an invalid curve, a full backlog, or when that sum does not fit 64 bits.
\<close>

theorem deterministic_delay_is_least:
  "(deterministic_delay c b = Some d \<longleftrightarrow>
      curve_valid c \<and> unat b < unat (maximum_backlog c)
    \<and> unat d = unat (latency_ticks c)
        + (LEAST k. unat b + 1 \<le> k * unat (minimum_completions_per_window c)) * unat (window_ticks c))
   \<and> (deterministic_delay c b = None \<longleftrightarrow>
      (if curve_valid c \<and> unat b < unat (maximum_backlog c)
       then 2 ^ 64 \<le> unat (latency_ticks c)
        + (LEAST k. unat b + 1 \<le> k * unat (minimum_completions_per_window c)) * unat (window_ticks c)
       else True))"
proof (cases "curve_valid c")
  case True
  let ?m = "unat (minimum_completions_per_window c)"
  have m: "0 < ?m" using True by (simp add: curve_valid_def unat_gt_0)
  have "(LEAST k. unat b + 1 \<le> k * ?m) = (unat b + ?m) div ?m"
  proof (rule Least_equality)
    show "unat b + 1 \<le> (unat b + ?m) div ?m * ?m"
      using div_mult_mod_eq [of "unat b + ?m" ?m] mod_less_divisor [OF m, of "unat b + ?m"] by linarith
  next
    fix k assume "unat b + 1 \<le> k * ?m"
    then have "unat b + ?m < (k + 1) * ?m" by simp
    then have "(unat b + ?m) div ?m < k + 1" using m by (simp add: div_less_iff_less_mult)
    then show "(unat b + ?m) div ?m \<le> k" by simp
  qed
  then show ?thesis by (auto simp: deterministic_delay_Some_iff deterministic_delay_None_iff)
next
  case False
  then show ?thesis by (simp add: deterministic_delay_def)
qed

text \<open>
  C39. \<open>advance\<close> keeps the clock window-aligned and is not transactional.  On success the tick lies
  in the window recorded, the window moved by a whole number of window lengths, the admission count
  is reset exactly when it moved, and the virtual backlog is drained by the service owed.  A tick
  that goes backwards only counts a rejection.  When the service owed does not fit 64 bits the error
  leaves a half-updated controller: the window has moved and the admission count is reset, while the
  backlog is not drained and the last tick is not recorded.
\<close>

theorem advance_outcomes:
  assumes "curve_valid (ctl_curve c)" and "advance c t = (c', r)"
  shows "case r of
      Inr _ \<Rightarrow> ctl_last_tick c \<le> t \<and> ctl_last_tick c' = t \<and> ctl_window_start c' \<le> t
        \<and> unat t < unat (ctl_window_start c') + unat (window_ticks (ctl_curve c))
        \<and> unat (ctl_window_start c') = unat (ctl_window_start c) + whole_windows c t * unat (window_ticks (ctl_curve c))
        \<and> ctl_admitted_in_window c' = (if whole_windows c t = 0 then ctl_admitted_in_window c else 0)
        \<and> unat (ctl_virtual_backlog_q16 c') = unat (ctl_virtual_backlog_q16 c) - owed_service c t
    | Inl e \<Rightarrow> e = TimeRegression \<and> c' = reject c
        \<or> e = ArithmeticOverflow \<and> 2 ^ 64 \<le> owed_service c t
          \<and> ctl_window_start c < ctl_window_start c' \<and> ctl_admitted_in_window c' = 0
          \<and> ctl_virtual_backlog_q16 c' = ctl_virtual_backlog_q16 c \<and> ctl_last_tick c' = ctl_last_tick c"
proof -
  have wt: "window_ticks (ctl_curve c) \<noteq> 0" using assms(1) by (simp add: curve_valid_def)
  show ?thesis
  proof (cases r)
    case (Inr u)
    with assms(2) have "advance c t = (c', Ok u)" by simp
    from advance_Ok [OF this wt] Inr show ?thesis by simp
  next
    case (Inl e)
    with assms(2) have err: "advance c t = (c', Err e)" by simp
    have start: "unat (of_nat (unat (ctl_window_start c) + whole_windows c t * unat (window_ticks (ctl_curve c))) :: u64)
        = unat (ctl_window_start c) + whole_windows c t * unat (window_ticks (ctl_curve c))"
      if "e = ArithmeticOverflow" using err that by (intro moved_start) (auto simp: advance_def)
    from advance_Err [OF err wt] start Inl wt show ?thesis
      by (auto simp: word_less_nat_alt unat_gt_0 simp del: of_nat_add of_nat_mult)
  qed
qed

definition stalled_controller :: ServiceController where
  "stalled_controller = sample_controller\<lparr>ctl_curve := sample_curve\<lparr>minimum_completions_per_window := 8,
     window_ticks := 1\<rparr>, ctl_window_start := 0, ctl_last_tick := 0, ctl_admitted_in_window := 3,
     ctl_virtual_backlog_q16 := 65536\<rparr>"

theorem advance_outcomes_witness:
  "\<exists>c'. advance stalled_controller (- 1) = (c', Err ArithmeticOverflow)
     \<and> ctl_admitted_in_window c' = 0 \<and> ctl_virtual_backlog_q16 c' = 65536 \<and> ctl_last_tick c' = 0"
proof -
  obtain c' r where x: "advance stalled_controller (- 1) = (c', r)" by fastforce
  have v: "curve_valid (ctl_curve stalled_controller)"
    by (simp add: stalled_controller_def sample_curve_def curve_valid_def word_le_nat_alt)
  have r: "r = Err ArithmeticOverflow"
    using x by (auto simp: advance_def stalled_controller_def sample_controller_def sample_curve_def Let_def
        checked_mul_def checked_add_def unsigned_minus_1_eq_mask mask_eq_exp_minus_1 split: if_splits)
  from advance_outcomes [OF v x] x r show ?thesis
    by (auto simp: stalled_controller_def)
qed

text \<open>
  Completions are not consumed.  A certificate whose completion was just recorded is accepted
  again at the same tick, and the observation counter moves each time: the controller keeps no
  record of which certificates are outstanding.
\<close>

theorem completion_is_replayable:
  assumes "observe_completion c0 a t = (c1, Ok g)" and "curve_valid (ctl_curve c0)"
    and "cal_inv (ctl_calibrator c0)" and "length (cal_residuals (ctl_calibrator c0)) < 2 ^ 55"
    and "unat (cal_maximum_guard (ctl_calibrator c0)) + unat (cal_additive_slack (ctl_calibrator c0)) < 2 ^ 64"
  shows "\<exists>c2 g'. observe_completion c1 a t = (c2, Ok g')
     \<and> ctl_observed c2 = saturating_add (saturating_add (ctl_observed c0) 1) 1"
proof -
  from observe_again [OF assms] obtain c2 g' where x: "observe_completion c1 a t = (c2, Ok g')" by blast
  then have "ctl_observed c2 = saturating_add (ctl_observed c1) 1" by (rule observe_completion_OkE)
  moreover from assms(1) have "ctl_observed c1 = saturating_add (ctl_observed c0) 1"
    by (rule observe_completion_OkE)
  ultimately show ?thesis using x by simp
qed

lemma sample_reserved_eq: "sample_reserved = reserved sample_controller"
proof -
  have adv: "advance sample_controller 1000 = (sample_controller, Ok ())"
    by (simp add: advance_def sample_controller_def sample_curve_def Let_def)
  from sample_admit obtain c det g delay req where "advance sample_controller 1000 = (c, Ok ())"
    and "admit_reserve c 1000 0 det g (drift_penalty_ticks c) delay (1500 - req) = (sample_reserved, Ok sample_certificate)"
    by (rule admit_OkE)
  with adv show ?thesis by (auto dest: admit_reserve_Ok(1))
qed

lemma sample_observes: "is_ok (snd (observe_completion sample_reserved sample_certificate 1000))"
proof -
  have cal: "cal_inv (ctl_calibrator sample_controller)"
    "length (cal_residuals (ctl_calibrator sample_controller)) = 8"
    "cal_maximum_guard (ctl_calibrator sample_controller) = 800"
    "cal_additive_slack (ctl_calibrator sample_controller) = 1"
    by (simp_all add: sample_controller_def calibrator_seal_def cal_inv_def word_less_nat_alt word_le_nat_alt)
  have push: "is_ok (snd (calibrator_push (ctl_calibrator sample_controller) x))" for x
  proof -
    have "\<exists>g. calibrator_guard (fst (calibrator_push (ctl_calibrator sample_controller) x)) = Ok g"
      using cal by (intro calibrator_guard_total calibrator_push_refines(1))
        (simp_all add: calibrator_push_fields)
    then show ?thesis by (simp add: is_ok_iff calibrator_push_def Let_def)
  qed
  have tick: "ac_admitted_tick sample_certificate = 1000"
    "ac_deterministic_delay_ticks sample_certificate = 120" "ac_drift_penalty_ticks sample_certificate = 0"
    by (simp_all add: sample_certificate_fields Let_def)
  have adv: "advance sample_reserved 1000 = (sample_reserved, Ok ())"
    by (simp add: sample_reserved_eq reserved_def advance_def sample_controller_def sample_curve_def Let_def)
  have k: "ctl_calibrator sample_reserved = ctl_calibrator sample_controller"
    by (simp add: sample_reserved_eq reserved_def)
  obtain kk g where "calibrator_push (ctl_calibrator sample_controller) (saturating_sub 0 120) = (kk, Ok g)"
    using push [of "saturating_sub 0 120"] by (metis is_ok_iff prod.collapse)
  then show ?thesis
    by (simp add: observe_completion_def sample_verifies tick adv k checked_add_def Let_def)
qed

theorem completion_is_replayable_witness:
  "\<exists>c1 g c2 g'. observe_completion sample_reserved sample_certificate 1000 = (c1, Ok g)
     \<and> observe_completion c1 sample_certificate 1000 = (c2, Ok g')"
proof -
  obtain c1 g where x: "observe_completion sample_reserved sample_certificate 1000 = (c1, Ok g)"
    using sample_observes by (metis is_ok_iff prod.collapse)
  have r: "ctl_curve sample_reserved = ctl_curve sample_controller"
    "ctl_calibrator sample_reserved = ctl_calibrator sample_controller"
    by (simp_all add: sample_reserved_eq reserved_def)
  have "curve_valid (ctl_curve sample_reserved)" using sample_controller_valid r by simp
  moreover have "cal_inv (ctl_calibrator sample_reserved)"
    "length (cal_residuals (ctl_calibrator sample_reserved)) < 2 ^ 55"
    "unat (cal_maximum_guard (ctl_calibrator sample_reserved)) + unat (cal_additive_slack (ctl_calibrator sample_reserved)) < 2 ^ 64"
    by (simp_all add: r sample_controller_def calibrator_seal_def cal_inv_def word_less_nat_alt word_le_nat_alt)
  ultimately show ?thesis using completion_is_replayable [OF x] x by blast
qed

text \<open>
  A certificate cannot be altered in one word: whatever the controller's secret, changing exactly
  one of the eleven absorbed words of a verifying certificate, keeping its root, makes it fail.
\<close>

theorem certificate_single_word_tamper:
  assumes "verify_certificate c a" and "i < length (certificate_words a)"
    and "certificate_words a' = (certificate_words a)[i := v]" and "v \<noteq> certificate_words a ! i"
    and "ac_certificate_root a' = ac_certificate_root a"
  shows "\<not> verify_certificate c a'"
proof
  assume "verify_certificate c a'"
  with assms(1,3,5) have "foldl mix (ctl_secret c) ((certificate_words a)[i := v])
      = foldl mix (ctl_secret c) (certificate_words a)"
    by (simp add: verify_certificate_def admission_certificate_root_def)
  with calc.foldl_update_neq [OF assms(2,4)] show False by blast
qed

theorem certificate_single_word_tamper_witness:
  "\<not> verify_certificate sample_reserved (sample_certificate\<lparr>ac_delay_bound_ticks := 0xffff\<rparr>)"
  by (rule certificate_single_word_tamper [OF sample_verifies, where i = 7 and v = "0xffff"])
    (simp_all add: certificate_words_def sample_certificate_fields Let_def)

end
