(* ===== verification/Block_Pool.thy ===== *)
theory Block_Pool
  imports Slope_Prelude
begin

text \<open>
  The contract of an allocator of equal-sized blocks, as the slab heap's pages and classes keep it:
  what \<open>alloc\<close> and \<open>dealloc\<close> do to the set of live block addresses.  Clients get, once, that a
  double free is refused, that freeing what was just allocated restores the live set, and that over
  any sequence of operations the live set is what was handed out and not returned.
\<close>

datatype pool_op = PoolAlloc | PoolFree nat

locale block_pool =
  fixes pool_alloc :: "'s \<Rightarrow> 's \<times> nat option"
    and pool_free :: "'s \<Rightarrow> nat \<Rightarrow> 's \<times> bool"
    and pool_live :: "'s \<Rightarrow> nat set"
    and pool_wf :: "'s \<Rightarrow> bool"
  assumes alloc_Some: "pool_wf s \<Longrightarrow> pool_alloc s = (s', Some a) \<Longrightarrow>
      pool_wf s' \<and> a \<notin> pool_live s \<and> pool_live s' = insert a (pool_live s)"
    and alloc_None: "pool_wf s \<Longrightarrow> pool_alloc s = (s', None) \<Longrightarrow> pool_wf s' \<and> pool_live s' = pool_live s"
    and free_True: "pool_wf s \<Longrightarrow> pool_free s a = (s', True) \<Longrightarrow>
      pool_wf s' \<and> a \<in> pool_live s \<and> pool_live s' = pool_live s - {a}"
    and free_False: "pool_wf s \<Longrightarrow> pool_free s a = (s', False) \<Longrightarrow> s' = s \<and> a \<notin> pool_live s"
begin

lemma free_iff: "pool_wf s \<Longrightarrow> snd (pool_free s a) \<longleftrightarrow> a \<in> pool_live s"
  using free_True [of s a] free_False [of s a] by (cases "pool_free s a"; cases "snd (pool_free s a)") auto

lemma free_wf: "pool_wf s \<Longrightarrow> pool_wf (fst (pool_free s a)) \<and> pool_live (fst (pool_free s a)) = pool_live s - {a}"
  using free_True [of s a] free_False [of s a] by (cases "pool_free s a"; cases "snd (pool_free s a)") auto

lemma double_free:
  assumes "pool_wf s"
  shows "pool_free (fst (pool_free s a)) a = (fst (pool_free s a), False)"
proof -
  let ?s = "fst (pool_free s a)"
  have wf: "pool_wf ?s" and live: "a \<notin> pool_live ?s" using free_wf [OF assms, of a] by auto
  then have "\<not> snd (pool_free ?s a)" by (simp add: free_iff)
  then obtain t where t: "pool_free ?s a = (t, False)" by (metis prod.collapse)
  with free_False [OF wf] show ?thesis by auto
qed

lemma alloc_then_free:
  assumes "pool_wf s" and "pool_alloc s = (s', Some a)"
  shows "\<exists>t. pool_free s' a = (t, True) \<and> pool_live t = pool_live s"
proof -
  from alloc_Some [OF assms] have wf: "pool_wf s'" and a: "a \<notin> pool_live s"
    and live: "pool_live s' = insert a (pool_live s)" by auto
  then have "snd (pool_free s' a)" by (simp add: free_iff)
  moreover have "pool_live (fst (pool_free s' a)) = pool_live s" using free_wf [OF wf, of a] live a by auto
  ultimately show ?thesis by (metis prod.collapse)
qed

fun pool_step :: "'s \<times> nat set \<Rightarrow> pool_op \<Rightarrow> 's \<times> nat set" where
  "pool_step (s, held) PoolAlloc =
     (case pool_alloc s of (s', Some a) \<Rightarrow> (s', insert a held) | (s', None) \<Rightarrow> (s', held))"
| "pool_step (s, held) (PoolFree a) = (fst (pool_free s a), held - {a})"

lemma pool_run:
  assumes "pool_wf s" and "pool_live s = held"
    and "foldl pool_step (s, held) ops = (t, held')"
  shows "pool_wf t \<and> pool_live t = held'"
  using assms
proof (induction ops arbitrary: s held)
  case (Cons op ops)
  obtain s1 h1 where step: "pool_step (s, held) op = (s1, h1)" by fastforce
  have inv: "pool_wf s1 \<and> pool_live s1 = h1"
  proof (cases op)
    case PoolAlloc
    obtain t r where t: "pool_alloc s = (t, r)" by fastforce
    show ?thesis
    proof (cases r)
      case None
      with t have "pool_alloc s = (t, None)" by simp
      from alloc_None [OF Cons.prems(1) this] t None PoolAlloc step Cons.prems(2) show ?thesis by simp
    next
      case (Some a)
      with t have "pool_alloc s = (t, Some a)" by simp
      from alloc_Some [OF Cons.prems(1) this] t Some PoolAlloc step Cons.prems(2) show ?thesis by simp
    qed
  next
    case (PoolFree a)
    from free_wf [OF Cons.prems(1), of a] PoolFree step Cons.prems(2) show ?thesis by simp
  qed
  from Cons.prems(3) step have "foldl pool_step (s1, h1) ops = (t, held')" by simp
  with inv show ?case by (intro Cons.IH) auto
qed simp

end

end
