(* ===== verification/Spooky_Cell.thy ===== *)
theory Spooky_Cell
  imports Slope_Prelude
begin

text \<open>
  The process-shared lock of \<open>sync/entanglement.rs\<close>: \<open>SpookyCell\<close>, its guard, and the endpoint
  \<open>EntangledPair\<close> with \<open>try_mutate\<close>, \<open>try_observe\<close> and the bounded retry \<open>mutate_bounded\<close>.

  A closure \<open>FnOnce(&mut T) -> R\<close> is a function from the guarded value, and from whatever mutable
  state it captures, to the updated values and its result.  The other participants of the lock are
  a parameter \<open>env\<close>: what they do to the shared state before each attempt of a retry loop.
\<close>

section \<open>Model\<close>

definition UNLOCKED :: usize where "UNLOCKED = 0"
definition LOCKED :: usize where "LOCKED = 1"

datatype EntanglementError = EntanglementBusy

record 'a SpookyCell =
  cell_lock :: usize
  cell_data :: 'a

definition spooky_new :: "'a \<Rightarrow> 'a SpookyCell" where
  "spooky_new v = \<lparr>cell_lock = UNLOCKED, cell_data = v\<rparr>"

definition try_lock :: "'a SpookyCell \<Rightarrow> (EntanglementError, 'a SpookyCell) result" where
  "try_lock c = (if cell_lock c = UNLOCKED then Ok (c\<lparr>cell_lock := LOCKED\<rparr>) else Err EntanglementBusy)"

definition drop_guard :: "'a SpookyCell \<Rightarrow> 'a SpookyCell" where
  "drop_guard c = c\<lparr>cell_lock := UNLOCKED\<rparr>"

text \<open>
  An endpoint borrows the cell of its mapping; all its operations below go to that cell, the label
  is only reported.
\<close>

record 'a EntangledPair =
  pair_cell :: "'a SpookyCell"
  dimension_id :: u32

definition from_mapping :: "'a SpookyCell \<Rightarrow> u32 \<Rightarrow> 'a EntangledPair" where
  "from_mapping cell dimension = \<lparr>pair_cell = cell, dimension_id = dimension\<rparr>"

type_synonym ('x, 'a, 'r) operation = "'x \<Rightarrow> 'a \<Rightarrow> 'x \<times> 'a \<times> 'r"

definition try_mutate ::
  "('x, 'a, 'r) operation \<Rightarrow> 'x \<times> 'a SpookyCell
    \<Rightarrow> ('x \<times> 'a SpookyCell) \<times> (EntanglementError, 'r) result" where
  "try_mutate f s =
    (case s of (x, c) \<Rightarrow>
      (case try_lock c of
         Inl e \<Rightarrow> ((x, c), Err e)
       | Inr guard \<Rightarrow>
           (case f x (cell_data guard) of (x', v, r) \<Rightarrow>
              ((x', drop_guard (guard\<lparr>cell_data := v\<rparr>)), Ok r))))"

definition try_observe ::
  "('a \<Rightarrow> 'r) \<Rightarrow> 'a SpookyCell \<Rightarrow> 'a SpookyCell \<times> (EntanglementError, 'r) result" where
  "try_observe f c =
    (case try_lock c of
       Inl e \<Rightarrow> (c, Err e)
     | Inr guard \<Rightarrow> (drop_guard guard, Ok (f (cell_data guard))))"

text \<open>The retry loop; \<open>i\<close> counts the attempts made so far.\<close>

fun mutate_attempts ::
  "(nat \<Rightarrow> 'x \<times> 'a SpookyCell \<Rightarrow> 'x \<times> 'a SpookyCell) \<Rightarrow> nat \<Rightarrow> nat
    \<Rightarrow> ('x, 'a, 'r) operation \<Rightarrow> 'x \<times> 'a SpookyCell
    \<Rightarrow> ('x \<times> 'a SpookyCell) \<times> (EntanglementError, 'r) result" where
  "mutate_attempts env i 0 f s = (s, Err EntanglementBusy)"
| "mutate_attempts env i (Suc n) f s =
    (case try_mutate f (env i s) of
       (s', Inr r) \<Rightarrow> (s', Ok r)
     | (s', Inl _) \<Rightarrow> mutate_attempts env (Suc i) n f s')"

definition mutate_bounded ::
  "(nat \<Rightarrow> 'x \<times> 'a SpookyCell \<Rightarrow> 'x \<times> 'a SpookyCell) \<Rightarrow> nat
    \<Rightarrow> ('x, 'a, 'r) operation \<Rightarrow> 'x \<times> 'a SpookyCell
    \<Rightarrow> ('x \<times> 'a SpookyCell) \<times> (EntanglementError, 'r) result" where
  "mutate_bounded env attempts f s = mutate_attempts env 0 attempts f s"

definition free_cell :: "'x \<times> 'a SpookyCell \<Rightarrow> bool" where
  "free_cell s \<longleftrightarrow> cell_lock (snd s) = UNLOCKED"

definition quiet_env :: "nat \<Rightarrow> 's \<Rightarrow> 's" where
  "quiet_env i s = s"

section \<open>Lemmas\<close>

lemma try_mutate_free:
  assumes "free_cell s"
  shows "try_mutate f s =
    (case f (fst s) (cell_data (snd s)) of (x', v, r) \<Rightarrow> ((x', \<lparr>cell_lock = UNLOCKED, cell_data = v\<rparr>), Ok r))"
  using assms
  by (cases s) (auto simp: try_mutate_def try_lock_def free_cell_def drop_guard_def split: prod.split)

lemma try_mutate_held: "\<not> free_cell s \<Longrightarrow> try_mutate f s = (s, Err EntanglementBusy)"
  by (cases s) (auto simp: try_mutate_def try_lock_def free_cell_def)

text \<open>What the shared state is after \<open>n\<close> attempts that all found the lock held.\<close>

fun waited :: "(nat \<Rightarrow> 's \<Rightarrow> 's) \<Rightarrow> nat \<Rightarrow> nat \<Rightarrow> 's \<Rightarrow> 's" where
  "waited env i 0 s = s"
| "waited env i (Suc n) s = waited env (Suc i) n (env i s)"

lemma waited_snoc: "waited env i (Suc n) s = env (i + n) (waited env i n s)"
  by (induction n arbitrary: i s) simp_all

lemma waited_quiet [simp]: "waited quiet_env i n s = s"
  by (induction n arbitrary: i) (simp_all add: quiet_env_def)

lemma mutate_attempts_cases:
  "(\<exists>k < n. free_cell (waited env i (Suc k) s) \<and> (\<forall>j < k. \<not> free_cell (waited env i (Suc j) s))
      \<and> mutate_attempts env i n f s = try_mutate f (waited env i (Suc k) s))
   \<or> (\<forall>j < n. \<not> free_cell (waited env i (Suc j) s))
      \<and> mutate_attempts env i n f s = (waited env i n s, Err EntanglementBusy)"
proof (induction n arbitrary: i s)
  case (Suc n)
  show ?case
  proof (cases "free_cell (env i s)")
    case True
    then have "mutate_attempts env i (Suc n) f s = try_mutate f (env i s)"
      by (simp add: try_mutate_free split: prod.split)
    with True show ?thesis by (intro disjI1 exI [of _ 0]) simp
  next
    case False
    then have step: "mutate_attempts env i (Suc n) f s = mutate_attempts env (Suc i) n f (env i s)"
      by (simp add: try_mutate_held)
    from Suc.IH [of "Suc i" "env i s"] show ?thesis
    proof (elim disjE exE conjE)
      fix k assume "k < n" "free_cell (waited env (Suc i) (Suc k) (env i s))"
        "\<forall>j < k. \<not> free_cell (waited env (Suc i) (Suc j) (env i s))"
        "mutate_attempts env (Suc i) n f (env i s) = try_mutate f (waited env (Suc i) (Suc k) (env i s))"
      with False step show ?thesis
        by (intro disjI1 exI [of _ "Suc k"]) (auto simp: less_Suc_eq_0_disj)
    next
      assume "\<forall>j < n. \<not> free_cell (waited env (Suc i) (Suc j) (env i s))"
        "mutate_attempts env (Suc i) n f (env i s) = (waited env (Suc i) n (env i s), Err EntanglementBusy)"
      with False step show ?thesis by (auto simp: less_Suc_eq_0_disj)
    qed
  qed
qed simp

lemma mutate_quiet_free:
  assumes "free_cell s" and "0 < n"
  shows "mutate_bounded quiet_env n f s = try_mutate f s"
  using mutate_attempts_cases [of n quiet_env 0 s f] assms
  by (auto simp: mutate_bounded_def quiet_env_def)

lemma mutate_quiet_held:
  assumes "\<not> free_cell s"
  shows "mutate_bounded quiet_env n f s = (s, Err EntanglementBusy)"
  using mutate_attempts_cases [of n quiet_env 0 s f] assms
  by (auto simp: mutate_bounded_def quiet_env_def)

section \<open>Properties\<close>

text \<open>
  C36. A bounded mutation applies its operation exactly once or not at all.  Whatever the other
  participants do between attempts: if some attempt within the budget finds the lock free, the
  operation runs once, on the value at the first such attempt, and the lock is released; otherwise
  the result is Busy and the state is what the others made of it.
\<close>

theorem mutate_bounded_at_most_once:
  "(k < n \<longrightarrow> free_cell (waited env 0 (Suc k) s) \<longrightarrow> (\<forall>j < k. \<not> free_cell (waited env 0 (Suc j) s)) \<longrightarrow>
      mutate_bounded env n f s =
        (case f (fst (waited env 0 (Suc k) s)) (cell_data (snd (waited env 0 (Suc k) s))) of
           (x', v, r) \<Rightarrow> ((x', \<lparr>cell_lock = UNLOCKED, cell_data = v\<rparr>), Ok r)))
   \<and> ((\<forall>j < n. \<not> free_cell (waited env 0 (Suc j) s)) \<longrightarrow>
      mutate_bounded env n f s = (waited env 0 n s, Err EntanglementBusy))"
proof -
  let ?free = "\<lambda>j. free_cell (waited env 0 (Suc j) s)"
  note cases = mutate_attempts_cases [of n env 0 s f, folded mutate_bounded_def]
  have "mutate_bounded env n f s = try_mutate f (waited env 0 (Suc k) s)"
    if k: "k < n" "?free k" "\<forall>j < k. \<not> ?free j"
  proof -
    from cases k obtain i where i: "?free i" "\<forall>j < i. \<not> ?free j"
      and run: "mutate_bounded env n f s = try_mutate f (waited env 0 (Suc i) s)" by blast
    have "i = k" using k(2,3) i by (metis nat_neq_iff)
    with run show ?thesis by simp
  qed
  moreover have "mutate_bounded env n f s = (waited env 0 n s, Err EntanglementBusy)"
    if "\<forall>j < n. \<not> ?free j"
    using cases that by blast
  ultimately show ?thesis by (simp add: try_mutate_free)
qed

theorem mutate_bounded_at_most_once_witness:
  "mutate_bounded (\<lambda>i s. if i = 1 then (fst s, (snd s)\<lparr>cell_lock := UNLOCKED\<rparr>) else s) 3
      (\<lambda>x v. (x, v + 3, v)) ((), \<lparr>cell_lock = LOCKED, cell_data = 5 :: nat\<rparr>)
    = (((), \<lparr>cell_lock = UNLOCKED, cell_data = 8\<rparr>), Ok 5)"
  using mutate_bounded_at_most_once [of 1 3
      "\<lambda>i s. if i = 1 then (fst s, (snd s)\<lparr>cell_lock := UNLOCKED\<rparr>) else s"
      "((), \<lparr>cell_lock = LOCKED, cell_data = 5 :: nat\<rparr>)" "\<lambda>x v. (x, v + 3, v)"]
  by (simp add: free_cell_def LOCKED_def UNLOCKED_def)

end
