(* ===== verification/Slab_Heap.thy ===== *)
theory Slab_Heap
  imports Block_Pool Spooky_Cell
begin

text \<open>
  The Sisyphean slab heap, \<open>memory/mod.rs\<close>: slab pages with their free bitmask, size classes, the
  fixed page arena, the global allocator behind the spooky lock, and slab tokens.

  Addresses are natural numbers; the address of the arena's backing array is the parameter \<open>ab\<close>,
  aligned to 4096 by the type's \<open>repr(align(4096))\<close> and nonzero.  Allocation never touches memory
  beyond the arena, so pointer arithmetic never wraps; the bitmasks and the free counter keep their
  widths.  The page reservation loop of the arena runs under the heap lock, where its
  compare-exchange succeeds at the first attempt that does not fail spuriously, so a reservation is
  one step.
\<close>

section \<open>Constants and size classes\<close>

definition PAGE_SIZE :: nat where "PAGE_SIZE = 4096"
definition MAX_SLAB_PAGES :: nat where "MAX_SLAB_PAGES = 64"
definition USER_HEAP_PAGES :: nat where "USER_HEAP_PAGES = 64"
definition USER_HEAP_BYTES :: nat where "USER_HEAP_BYTES = USER_HEAP_PAGES * PAGE_SIZE"
definition SIZE_CLASSES :: "nat list" where
  "SIZE_CLASSES = [8, 16, 32, 64, 128, 256, 512, 1024, 2048, 4096]"
definition NUM_CLASSES :: nat where "NUM_CLASSES = length SIZE_CLASSES"
definition MAX_SLOTS_PER_PAGE :: nat where "MAX_SLOTS_PER_PAGE = PAGE_SIZE div 8"
definition BITMASK_WORDS :: nat where "BITMASK_WORDS = MAX_SLOTS_PER_PAGE div 64"

definition class_for :: "nat \<Rightarrow> nat option" where
  "class_for sz = position (\<lambda>s. s \<ge> sz) SIZE_CLASSES"

definition div_ceil :: "nat \<Rightarrow> nat \<Rightarrow> nat" where
  "div_ceil a b = (a + b - 1) div b"

section \<open>Slab page\<close>

record SlabPage =
  sp_base :: nat
  sp_free_mask :: "u64 list"
  sp_object_size :: nat
  sp_slot_count :: nat
  sp_free_count :: u16

definition slab_page_new :: "nat \<Rightarrow> nat \<Rightarrow> SlabPage" where
  "slab_page_new base object_size =
    (let slot_count = PAGE_SIZE div object_size;
         word_count = div_ceil slot_count 64;
         mask = map (\<lambda>i. if i < min word_count BITMASK_WORDS then - 1 else 0) [0..<BITMASK_WORDS];
         mask' = (if slot_count mod 64 \<noteq> 0 \<and> word_count > 0
                  then let last = word_count - 1 in
                    if last < BITMASK_WORDS then mask[last := push_bit (slot_count mod 64) 1 - 1] else mask
                  else mask)
     in \<lparr>sp_base = base, sp_free_mask = mask', sp_object_size = object_size,
         sp_slot_count = slot_count, sp_free_count = of_nat (min slot_count 65535)\<rparr>)"

fun alloc_scan :: "SlabPage \<Rightarrow> nat list \<Rightarrow> SlabPage \<times> nat option" where
  "alloc_scan p [] = (p, None)"
| "alloc_scan p (wi # wis) =
    (let w = sp_free_mask p ! wi in
     if w = 0 then alloc_scan p wis
     else
       let b = trailing_zeros w; slot = wi * 64 + b in
       if slot \<ge> sp_slot_count p then alloc_scan p wis
       else (p\<lparr>sp_free_mask := (sp_free_mask p)[wi := w AND NOT (push_bit b 1)],
               sp_free_count := sp_free_count p - 1\<rparr>,
             Some (sp_base p + slot * sp_object_size p)))"

definition alloc_slot :: "SlabPage \<Rightarrow> SlabPage \<times> nat option" where
  "alloc_slot p = alloc_scan p [0..<min (div_ceil (sp_slot_count p) 64) BITMASK_WORDS]"

definition dealloc_slot :: "SlabPage \<Rightarrow> nat \<Rightarrow> SlabPage \<times> bool" where
  "dealloc_slot p ptr =
    (if ptr < sp_base p then (p, False)
     else
       let offset = ptr - sp_base p in
       if offset mod sp_object_size p \<noteq> 0 then (p, False)
       else
         let slot = offset div sp_object_size p in
         if slot \<ge> sp_slot_count p then (p, False)
         else
           let wi = slot div 64; b = slot mod 64 in
           if sp_free_mask p ! wi AND push_bit b 1 \<noteq> 0 then (p, False)
           else (p\<lparr>sp_free_mask := (sp_free_mask p)[wi := (sp_free_mask p ! wi) OR push_bit b 1],
                   sp_free_count := sp_free_count p + 1\<rparr>, True))"

definition page_has_free :: "SlabPage \<Rightarrow> bool" where
  "page_has_free p \<longleftrightarrow> sp_free_count p > 0"

section \<open>Page arena\<close>

definition allocate_page :: "nat \<Rightarrow> nat \<Rightarrow> nat \<times> nat option" where
  "allocate_page ab next_page =
    (if next_page \<ge> USER_HEAP_PAGES then (next_page, None)
     else (next_page + 1, Some (ab + next_page * PAGE_SIZE)))"

section \<open>Slab class\<close>

record SlabClass =
  sc_pages :: "SlabPage option list"
  sc_page_count :: nat
  sc_object_size :: nat

definition slab_class_uninit :: "nat \<Rightarrow> SlabClass" where
  "slab_class_uninit object_size =
    \<lparr>sc_pages = replicate MAX_SLAB_PAGES None, sc_page_count = 0, sc_object_size = object_size\<rparr>"

text \<open>The first page among those with index in the list that grants a slot.\<close>

fun alloc_pages :: "SlabClass \<Rightarrow> nat list \<Rightarrow> SlabClass \<times> nat option" where
  "alloc_pages c [] = (c, None)"
| "alloc_pages c (i # is) =
    (case sc_pages c ! i of
       None \<Rightarrow> alloc_pages c is
     | Some p \<Rightarrow>
         (case alloc_slot p of
            (p', Some ptr) \<Rightarrow> (c\<lparr>sc_pages := (sc_pages c)[i := Some p']\<rparr>, Some ptr)
          | (p', None) \<Rightarrow> alloc_pages (c\<lparr>sc_pages := (sc_pages c)[i := Some p']\<rparr>) is))"

definition class_grow :: "nat \<Rightarrow> nat \<Rightarrow> SlabClass \<Rightarrow> nat \<times> SlabClass \<times> unit option" where
  "class_grow ab next_page c =
    (if sc_page_count c \<ge> MAX_SLAB_PAGES then (next_page, c, None)
     else
       (case allocate_page ab next_page of
          (n, None) \<Rightarrow> (n, c, None)
        | (n, Some base) \<Rightarrow>
            (n, c\<lparr>sc_pages := (sc_pages c)[sc_page_count c := Some (slab_page_new base (sc_object_size c))],
                  sc_page_count := sc_page_count c + 1\<rparr>, Some ())))"

definition class_alloc :: "nat \<Rightarrow> nat \<times> SlabClass \<Rightarrow> (nat \<times> SlabClass) \<times> nat option" where
  "class_alloc ab s =
    (case s of (next_page, c) \<Rightarrow>
      (case alloc_pages c [0..<sc_page_count c] of
         (c1, Some ptr) \<Rightarrow> ((next_page, c1), Some ptr)
       | (c1, None) \<Rightarrow>
           (case class_grow ab next_page c1 of
              (n, c2, None) \<Rightarrow> ((n, c2), None)
            | (n, c2, Some _) \<Rightarrow>
                (case sc_pages c2 ! (sc_page_count c2 - 1) of
                   None \<Rightarrow> ((n, c2), None)
                 | Some p \<Rightarrow>
                     (case alloc_slot p of (p', r) \<Rightarrow>
                        ((n, c2\<lparr>sc_pages := (sc_pages c2)[sc_page_count c2 - 1 := Some p']\<rparr>), r))))))"

fun dealloc_pages :: "SlabClass \<Rightarrow> nat list \<Rightarrow> nat \<Rightarrow> SlabClass \<times> bool" where
  "dealloc_pages c [] ptr = (c, False)"
| "dealloc_pages c (i # is) ptr =
    (case sc_pages c ! i of
       None \<Rightarrow> dealloc_pages c is ptr
     | Some p \<Rightarrow>
         (case dealloc_slot p ptr of (p', done) \<Rightarrow>
            let c' = c\<lparr>sc_pages := (sc_pages c)[i := Some p']\<rparr> in
            if done then (c', True) else dealloc_pages c' is ptr))"

definition class_dealloc :: "SlabClass \<Rightarrow> nat \<Rightarrow> SlabClass \<times> bool" where
  "class_dealloc c ptr = dealloc_pages c [0..<sc_page_count c] ptr"

section \<open>Heap\<close>

record HeapState =
  hs_classes :: "SlabClass list"
  hs_alloc_count :: u64
  hs_dealloc_count :: u64
  hs_oom_count :: u64

definition heap_state_new :: HeapState where
  "heap_state_new = \<lparr>hs_classes = map slab_class_uninit SIZE_CLASSES,
     hs_alloc_count = 0, hs_dealloc_count = 0, hs_oom_count = 0\<rparr>"

record GlobalSlabHeap =
  gh_cell :: "HeapState SpookyCell"
  gh_next_page :: nat
  gh_ready :: bool

definition heap_new :: GlobalSlabHeap where
  "heap_new = \<lparr>gh_cell = spooky_new heap_state_new, gh_next_page = 0, gh_ready = False\<rparr>"

definition heap_init :: "GlobalSlabHeap \<Rightarrow> GlobalSlabHeap" where
  "heap_init g = g\<lparr>gh_ready := True\<rparr>"

record HeapStats =
  stats_alloc_count :: u64
  stats_dealloc_count :: u64
  stats_oom_count :: u64

definition heap_stats :: "GlobalSlabHeap \<Rightarrow> GlobalSlabHeap \<times> HeapStats" where
  "heap_stats g =
    (case try_observe (\<lambda>h. \<lparr>stats_alloc_count = hs_alloc_count h, stats_dealloc_count = hs_dealloc_count h,
            stats_oom_count = hs_oom_count h\<rparr>) (gh_cell g) of
       (c, r) \<Rightarrow> (g\<lparr>gh_cell := c\<rparr>,
         (case r of Inr s \<Rightarrow> s
          | Inl _ \<Rightarrow> \<lparr>stats_alloc_count = 0, stats_dealloc_count = 0, stats_oom_count = 0\<rparr>)))"

text \<open>The two closures run under the lock.  They capture the arena, whose state is the page cursor.\<close>

definition alloc_closure :: "nat \<Rightarrow> nat \<Rightarrow> (nat, HeapState, nat) operation" where
  "alloc_closure ab ci next_page h =
    (case class_alloc ab (next_page, hs_classes h ! ci) of
       ((n, c), r) \<Rightarrow>
         let h' = h\<lparr>hs_classes := (hs_classes h)[ci := c]\<rparr>;
             ptr = (case r of None \<Rightarrow> 0 | Some a \<Rightarrow> a)
         in (n, if ptr = 0 then h'\<lparr>hs_oom_count := hs_oom_count h' + 1\<rparr>
                else h'\<lparr>hs_alloc_count := hs_alloc_count h' + 1\<rparr>, ptr))"

definition dealloc_closure :: "nat \<Rightarrow> nat \<Rightarrow> (nat, HeapState, unit) operation" where
  "dealloc_closure ci ptr next_page h =
    (case class_dealloc (hs_classes h ! ci) ptr of
       (c, done) \<Rightarrow>
         let h' = h\<lparr>hs_classes := (hs_classes h)[ci := c]\<rparr>
         in (next_page, if done then h'\<lparr>hs_dealloc_count := hs_dealloc_count h' + 1\<rparr> else h', ()))"

type_synonym heap_env = "nat \<Rightarrow> nat \<times> HeapState SpookyCell \<Rightarrow> nat \<times> HeapState SpookyCell"

definition heap_alloc :: "heap_env \<Rightarrow> nat \<Rightarrow> GlobalSlabHeap \<Rightarrow> nat \<Rightarrow> nat \<Rightarrow> GlobalSlabHeap \<times> nat" where
  "heap_alloc env ab g sz align =
    (if \<not> gh_ready g then (g, 0)
     else
       (case class_for (max sz align) of
          None \<Rightarrow> (g, 0)
        | Some ci \<Rightarrow>
            (case mutate_bounded env 64 (alloc_closure ab ci) (gh_next_page g, gh_cell g) of
               ((n, c), r) \<Rightarrow>
                 (g\<lparr>gh_cell := c, gh_next_page := n\<rparr>, (case r of Inr ptr \<Rightarrow> ptr | Inl _ \<Rightarrow> 0)))))"

definition heap_dealloc :: "heap_env \<Rightarrow> GlobalSlabHeap \<Rightarrow> nat \<Rightarrow> nat \<Rightarrow> nat \<Rightarrow> GlobalSlabHeap" where
  "heap_dealloc env g ptr sz align =
    (if ptr = 0 then g
     else
       (case class_for (max sz align) of
          None \<Rightarrow> g
        | Some ci \<Rightarrow>
            (case mutate_bounded env 64 (dealloc_closure ci ptr) (gh_next_page g, gh_cell g) of
               ((n, c), _) \<Rightarrow> g\<lparr>gh_cell := c, gh_next_page := n\<rparr>)))"

section \<open>Slab token\<close>

type_synonym SlabToken = u32

definition token_pack :: "u8 \<Rightarrow> u8 \<Rightarrow> u16 \<Rightarrow> SlabToken" where
  "token_pack cls page slot = push_bit 24 (ucast cls) OR push_bit 16 (ucast page) OR ucast slot"

definition token_class :: "SlabToken \<Rightarrow> u8" where "token_class t = ucast (drop_bit 24 t)"
definition token_page :: "SlabToken \<Rightarrow> u8" where "token_page t = ucast (drop_bit 16 t)"
definition token_slot :: "SlabToken \<Rightarrow> u16" where "token_slot t = ucast t"

section \<open>Slots of a page\<close>

definition free_slots :: "SlabPage \<Rightarrow> nat set" where
  "free_slots p = {s. s < sp_slot_count p \<and> bit (sp_free_mask p ! (s div 64)) (s mod 64)}"

definition page_wf :: "SlabPage \<Rightarrow> bool" where
  "page_wf p \<longleftrightarrow>
     length (sp_free_mask p) = 8 \<and> sp_object_size p \<in> set SIZE_CLASSES
   \<and> sp_slot_count p = 4096 div sp_object_size p
   \<and> (\<forall>s < 512. bit (sp_free_mask p ! (s div 64)) (s mod 64) \<longrightarrow> s < sp_slot_count p)
   \<and> unat (sp_free_count p) = card (free_slots p)"

definition page_live :: "SlabPage \<Rightarrow> nat set" where
  "page_live p = (\<lambda>s. sp_base p + s * sp_object_size p) ` ({..<sp_slot_count p} - free_slots p)"

definition take_slot :: "SlabPage \<Rightarrow> nat \<Rightarrow> SlabPage" where
  "take_slot p s = p\<lparr>sp_free_mask := (sp_free_mask p)[s div 64 :=
      (sp_free_mask p ! (s div 64)) AND NOT (push_bit (s mod 64) 1)],
      sp_free_count := sp_free_count p - 1\<rparr>"

definition give_slot :: "SlabPage \<Rightarrow> nat \<Rightarrow> SlabPage" where
  "give_slot p s = p\<lparr>sp_free_mask := (sp_free_mask p)[s div 64 :=
      (sp_free_mask p ! (s div 64)) OR push_bit (s mod 64) 1],
      sp_free_count := sp_free_count p + 1\<rparr>"

lemma size_class_facts:
  assumes "os \<in> set SIZE_CLASSES"
  shows "0 < os" "4096 div os * os = 4096" "4096 div os \<le> 512" "0 < 4096 div os"
  using assms by (auto simp: SIZE_CLASSES_def)

lemma page_wf_count:
  assumes "page_wf p"
  shows "0 < sp_object_size p" "sp_slot_count p * sp_object_size p = 4096" "sp_slot_count p \<le> 512"
    "0 < sp_slot_count p"
  using assms size_class_facts [of "sp_object_size p"] by (simp_all add: page_wf_def)

lemma finite_free_slots [simp]: "finite (free_slots p)"
  by (simp add: free_slots_def)

lemma put_bit: "k < 64 \<Longrightarrow> bit (w OR 2 ^ k :: u64) n \<longleftrightarrow> bit w n \<or> n = k"
  by (auto simp: bit_or_iff bit_exp_iff)

lemma slot_index_eq: "(s :: nat) div 64 = t div 64 \<Longrightarrow> s mod 64 = t mod 64 \<Longrightarrow> s = t"
  by (metis div_mult_mod_eq)

lemma slot_update_bit:
  assumes "length m = 8" and "s < 512" and "t < 512"
  shows "bit ((m[s div 64 := (m ! (s div 64)) AND NOT (push_bit (s mod 64) 1)]) ! (t div 64)) (t mod 64)
      \<longleftrightarrow> bit (m ! (t div 64) :: u64) (t mod 64) \<and> t \<noteq> s"
    and "bit ((m[s div 64 := (m ! (s div 64)) OR push_bit (s mod 64) 1]) ! (t div 64)) (t mod 64)
      \<longleftrightarrow> bit (m ! (t div 64)) (t mod 64) \<or> t = s"
proof -
  have s: "s div 64 < length m" using assms by simp
  have t64: "t mod 64 < 64" "s mod 64 < 64" by simp_all
  show "bit ((m[s div 64 := (m ! (s div 64)) AND NOT (push_bit (s mod 64) 1)]) ! (t div 64)) (t mod 64)
      \<longleftrightarrow> bit (m ! (t div 64)) (t mod 64) \<and> t \<noteq> s"
    using s t64 by (cases "t div 64 = s div 64") (auto simp: clear_bit dest: slot_index_eq)
  show "bit ((m[s div 64 := (m ! (s div 64)) OR push_bit (s mod 64) 1]) ! (t div 64)) (t mod 64)
      \<longleftrightarrow> bit (m ! (t div 64)) (t mod 64) \<or> t = s"
    using s t64 by (cases "t div 64 = s div 64") (auto simp: put_bit dest: slot_index_eq)
qed

lemma unat_u16_pred: "0 < unat (c :: u16) \<Longrightarrow> unat (c - 1) = unat c - 1"
  by (simp add: unat_sub word_le_nat_alt)

lemma unat_u16_succ: "unat (c :: u16) < 65535 \<Longrightarrow> unat (c + 1) = unat c + 1"
  by (simp add: unat_word_ariths)

lemma take_slot_refines:
  assumes wf: "page_wf p" and s: "s \<in> free_slots p"
  shows "free_slots (take_slot p s) = free_slots p - {s}" and "page_wf (take_slot p s)"
    and "page_live (take_slot p s) = insert (sp_base p + s * sp_object_size p) (page_live p)"
    and "sp_base p + s * sp_object_size p \<notin> page_live p"
proof -
  note count = page_wf_count [OF wf]
  have len: "length (sp_free_mask p) = 8" using wf by (simp add: page_wf_def)
  have sl: "s < 512" "s < sp_slot_count p" using s count by (auto simp: free_slots_def)
  note bits = slot_update_bit(1) [OF len sl(1)]
  show free: "free_slots (take_slot p s) = free_slots p - {s}"
    using bits count(3) by (auto simp: free_slots_def take_slot_def)
  have "unat (sp_free_count p) = card (free_slots p)" using wf by (simp add: page_wf_def)
  moreover have "0 < card (free_slots p)" using s by (auto simp: card_gt_0_iff)
  ultimately have "unat (sp_free_count p - 1) = card (free_slots p - {s})"
    using s by (simp add: unat_u16_pred)
  with wf bits free show "page_wf (take_slot p s)"
    by (auto simp: page_wf_def take_slot_def)
  have "{..<sp_slot_count p} - (free_slots p - {s}) = insert s ({..<sp_slot_count p} - free_slots p)"
    using s sl by auto
  then show "page_live (take_slot p s) = insert (sp_base p + s * sp_object_size p) (page_live p)"
    unfolding page_live_def free by (simp add: take_slot_def)
  show "sp_base p + s * sp_object_size p \<notin> page_live p"
    using s count(1) by (auto simp: page_live_def)
qed

lemma give_slot_refines:
  assumes wf: "page_wf p" and s: "s < sp_slot_count p" "s \<notin> free_slots p"
  shows "free_slots (give_slot p s) = insert s (free_slots p)" and "page_wf (give_slot p s)"
    and "page_live (give_slot p s) = page_live p - {sp_base p + s * sp_object_size p}"
    and "sp_base p + s * sp_object_size p \<in> page_live p"
proof -
  note count = page_wf_count [OF wf]
  have len: "length (sp_free_mask p) = 8" using wf by (simp add: page_wf_def)
  have sl: "s < 512" using s count by simp
  note bits = slot_update_bit(2) [OF len sl]
  have mask: "sp_free_mask (give_slot p s) = (sp_free_mask p)[s div 64 := (sp_free_mask p ! (s div 64)) OR push_bit (s mod 64) 1]"
    and fields: "sp_slot_count (give_slot p s) = sp_slot_count p" "sp_object_size (give_slot p s) = sp_object_size p"
      "sp_base (give_slot p s) = sp_base p" "sp_free_count (give_slot p s) = sp_free_count p + 1"
    by (simp_all add: give_slot_def)
  show free: "free_slots (give_slot p s) = insert s (free_slots p)"
  proof (rule set_eqI)
    fix t
    show "t \<in> free_slots (give_slot p s) \<longleftrightarrow> t \<in> insert s (free_slots p)"
    proof (cases "t < sp_slot_count p")
      case True
      with count(3) have "t < 512" by simp
      from bits [OF this] True show ?thesis unfolding free_slots_def mem_Collect_eq mask fields by auto
    next
      case False
      with s show ?thesis by (auto simp: free_slots_def fields)
    qed
  qed
  have fc: "unat (sp_free_count p) = card (free_slots p)" using wf by (simp add: page_wf_def)
  have "card (free_slots p) \<le> card {..<sp_slot_count p}"
    by (rule card_mono) (auto simp: free_slots_def)
  then have "unat (sp_free_count p + 1) = card (insert s (free_slots p))"
    using s fc count(3) by (simp add: unat_u16_succ)
  moreover have "t < sp_slot_count p"
    if "t < 512" "bit (sp_free_mask (give_slot p s) ! (t div 64)) (t mod 64)" for t
  proof -
    have "bit (sp_free_mask p ! (t div 64)) (t mod 64) \<or> t = s" using bits [OF that(1)] that(2) unfolding mask by blast
    with wf that(1) s(1) show ?thesis unfolding page_wf_def by blast
  qed
  ultimately show "page_wf (give_slot p s)"
    using wf unfolding page_wf_def fields free by (simp add: mask)
  let ?f = "\<lambda>s. sp_base p + s * sp_object_size p"
  have inj: "inj ?f" using count(1) by (auto intro: injI)
  have "{..<sp_slot_count p} - insert s (free_slots p) = ({..<sp_slot_count p} - free_slots p) - {s}"
    by blast
  then have "page_live (give_slot p s) = ?f ` (({..<sp_slot_count p} - free_slots p) - {s})"
    unfolding page_live_def free fields by simp
  also have "\<dots> = page_live p - {?f s}"
    unfolding page_live_def using inj by (simp add: image_set_diff)
  finally show "page_live (give_slot p s) = page_live p - {?f s}" .
  show "sp_base p + s * sp_object_size p \<in> page_live p"
    unfolding page_live_def using s by (intro imageI) simp
qed

lemma alloc_scan_cases:
  assumes wf: "page_wf p" and "sorted_wrt (<) wis" and "\<forall>wi \<in> set wis. wi < 8"
  shows "(\<exists>s \<in> free_slots p. s div 64 \<in> set wis \<and> (\<forall>t \<in> free_slots p. t div 64 \<in> set wis \<longrightarrow> s \<le> t)
            \<and> alloc_scan p wis = (take_slot p s, Some (sp_base p + s * sp_object_size p)))
       \<or> (\<forall>t \<in> free_slots p. t div 64 \<notin> set wis) \<and> alloc_scan p wis = (p, None)"
  using assms(2,3)
proof (induction wis)
  case (Cons wi wis)
  let ?w = "sp_free_mask p ! wi"
  show ?case
  proof (cases "?w = 0")
    case True
    then have none: "t div 64 \<noteq> wi" if "t \<in> free_slots p" for t using that by (auto simp: free_slots_def)
    from True have skip: "alloc_scan p (wi # wis) = alloc_scan p wis" by simp
    from Cons.IH Cons.prems have "(\<exists>s \<in> free_slots p. s div 64 \<in> set wis \<and> (\<forall>t \<in> free_slots p. t div 64 \<in> set wis \<longrightarrow> s \<le> t)
            \<and> alloc_scan p wis = (take_slot p s, Some (sp_base p + s * sp_object_size p)))
       \<or> (\<forall>t \<in> free_slots p. t div 64 \<notin> set wis) \<and> alloc_scan p wis = (p, None)" by simp
    with none skip show ?thesis by (auto simp del: alloc_scan.simps)
  next
    case False
    let ?b = "trailing_zeros ?w" and ?s = "wi * 64 + trailing_zeros ?w"
    note tz = trailing_zeros_nonzero [OF False]
    have dm: "?s div 64 = wi" "?s mod 64 = ?b" using tz(1) by simp_all
    have "?s < 512" using tz(1) Cons.prems(2) by simp
    moreover have bit: "bit (sp_free_mask p ! (?s div 64)) (?s mod 64)" using tz(2) dm by simp
    ultimately have sl: "?s < sp_slot_count p" using wf unfolding page_wf_def by blast
    with bit have free: "?s \<in> free_slots p" by (simp add: free_slots_def)
    have least: "?s \<le> t" if t: "t \<in> free_slots p" "t div 64 \<in> set (wi # wis)" for t
    proof (cases "t div 64 = wi")
      case True
      with t(1) have "bit ?w (t mod 64)" by (simp add: free_slots_def)
      then have "?b \<le> t mod 64" using tz(3) by (meson not_less)
      with True show ?thesis by (metis add_left_mono div_mult_mod_eq)
    next
      case False
      with t(2) Cons.prems(1) have "wi < t div 64" by auto
      then have "(wi + 1) * 64 \<le> t div 64 * 64" by simp
      also have "\<dots> \<le> t" by (rule div_times_less_eq_dividend)
      finally show ?thesis using tz(1) by simp
    qed
    have "alloc_scan p (wi # wis) = (take_slot p ?s, Some (sp_base p + ?s * sp_object_size p))"
      using False sl dm by (simp add: Let_def take_slot_def)
    moreover have "?s div 64 \<in> set (wi # wis)" using dm by simp
    ultimately show ?thesis using free least by blast
  qed
qed simp

lemma alloc_slot_cases:
  assumes wf: "page_wf p"
  shows "(\<exists>s \<in> free_slots p. (\<forall>t \<in> free_slots p. s \<le> t)
            \<and> alloc_slot p = (take_slot p s, Some (sp_base p + s * sp_object_size p)))
       \<or> free_slots p = {} \<and> alloc_slot p = (p, None)"
proof -
  let ?m = "min (div_ceil (sp_slot_count p) 64) BITMASK_WORDS"
  note count = page_wf_count [OF wf]
  have words: "BITMASK_WORDS = 8" by (simp add: BITMASK_WORDS_def MAX_SLOTS_PER_PAGE_def PAGE_SIZE_def)
  have all: "t div 64 \<in> set [0..<?m]" if "t \<in> free_slots p" for t
  proof -
    have t: "t < sp_slot_count p" using that by (simp add: free_slots_def)
    then have "t div 64 < div_ceil (sp_slot_count p) 64" by (simp add: div_ceil_def)
    moreover have "t div 64 < 8" using t count(3) by simp
    ultimately show ?thesis by (simp add: words)
  qed
  have "sorted_wrt (<) [0..<?m]" "\<forall>wi \<in> set [0..<?m]. wi < 8" by (auto simp: words)
  from alloc_scan_cases [OF wf this] show ?thesis
    unfolding alloc_slot_def using all by blast
qed

lemma dealloc_slot_cases:
  assumes wf: "page_wf p"
  shows "if ptr \<in> page_live p
         then \<exists>s. s < sp_slot_count p \<and> s \<notin> free_slots p \<and> ptr = sp_base p + s * sp_object_size p
                \<and> dealloc_slot p ptr = (give_slot p s, True)
         else dealloc_slot p ptr = (p, False)"
proof -
  let ?os = "sp_object_size p"
  note count = page_wf_count [OF wf]
  have occupied: "sp_free_mask p ! (s div 64) AND push_bit (s mod 64) 1 = 0 \<longleftrightarrow> s \<notin> free_slots p"
    if "s < sp_slot_count p" for s
    using that by (auto simp: free_slots_def and_exp_eq_0_iff_not_bit)
  show ?thesis
  proof (cases "\<exists>s < sp_slot_count p. ptr = sp_base p + s * ?os")
    case True
    then obtain s where s: "s < sp_slot_count p" and ptr: "ptr = sp_base p + s * ?os" by blast
    have live: "ptr \<in> page_live p \<longleftrightarrow> s \<notin> free_slots p"
      using s count(1) by (auto simp: page_live_def ptr)
    have "dealloc_slot p ptr = (if s \<notin> free_slots p then (give_slot p s, True) else (p, False))"
      using s count(1) occupied [OF s] by (simp add: dealloc_slot_def ptr Let_def give_slot_def)
    with s ptr live show ?thesis by auto
  next
    case False
    then have "ptr \<notin> page_live p" by (auto simp: page_live_def)
    moreover have "dealloc_slot p ptr = (p, False)"
    proof (rule ccontr)
      assume "dealloc_slot p ptr \<noteq> (p, False)"
      then have b: "sp_base p \<le> ptr" and m: "(ptr - sp_base p) mod ?os = 0"
        and d: "(ptr - sp_base p) div ?os < sp_slot_count p"
        by (auto simp: dealloc_slot_def Let_def not_less not_le split: if_splits)
      have "ptr = sp_base p + (ptr - sp_base p) div ?os * ?os" using b m by auto
      with d False show False by blast
    qed
    ultimately show ?thesis by simp
  qed
qed

interpretation page_pool: block_pool alloc_slot dealloc_slot page_live page_wf
proof
  fix p p' :: SlabPage and a
  assume wf: "page_wf p"
  { assume "alloc_slot p = (p', Some a)"
    with alloc_slot_cases [OF wf] obtain s where "s \<in> free_slots p" "p' = take_slot p s"
      "a = sp_base p + s * sp_object_size p" by auto
    with take_slot_refines [OF wf] show "page_wf p' \<and> a \<notin> page_live p \<and> page_live p' = insert a (page_live p)"
      by simp }
  { assume "alloc_slot p = (p', None)"
    with alloc_slot_cases [OF wf] wf show "page_wf p' \<and> page_live p' = page_live p" by auto }
  { assume "dealloc_slot p a = (p', True)"
    with dealloc_slot_cases [OF wf, of a] obtain s where "s < sp_slot_count p" "s \<notin> free_slots p"
      "a = sp_base p + s * sp_object_size p" "p' = give_slot p s" by (auto split: if_splits)
    with give_slot_refines [OF wf] show "page_wf p' \<and> a \<in> page_live p \<and> page_live p' = page_live p - {a}"
      by simp }
  { assume "dealloc_slot p a = (p', False)"
    with dealloc_slot_cases [OF wf, of a] show "p' = p \<and> a \<notin> page_live p" by (auto split: if_splits) }
qed

lemma size_class_slots:
  assumes "os \<in> set SIZE_CLASSES"
  shows "4096 div os < 64 \<or> (\<exists>k. 4096 div os = 64 * k \<and> 0 < k \<and> k \<le> 8)"
proof -
  from assms have "4096 div os \<in> {512, 256, 128, 64, 32, 16, 8, 4, 2, 1}" by (auto simp: SIZE_CLASSES_def)
  moreover have "\<exists>k. n = 64 * k \<and> 0 < k \<and> k \<le> 8" if "n \<in> {512, 256, 128, 64 :: nat}" for n
    using that by (intro exI [of _ "n div 64"]) auto
  ultimately show ?thesis by auto
qed

lemma new_mask_bits:
  assumes os: "os \<in> set SIZE_CLASSES" and s: "s < 512"
  shows "bit (sp_free_mask (slab_page_new base os) ! (s div 64)) (s mod 64) \<longleftrightarrow> s < 4096 div os"
proof -
  let ?n = "4096 div os"
  have words: "BITMASK_WORDS = 8" by (simp add: BITMASK_WORDS_def MAX_SLOTS_PER_PAGE_def PAGE_SIZE_def)
  have i: "s div 64 < 8" using s by simp
  from size_class_slots [OF os] show ?thesis
  proof (elim disjE exE conjE)
    assume n: "?n < 64"
    have pos: "0 < ?n" using size_class_facts [OF os] by simp
    have one: "div_ceil ?n 64 = 1" using n pos by (simp add: div_ceil_def)
    have "sp_free_mask (slab_page_new base os) ! (s div 64) = (if s div 64 = 0 then mask ?n else 0)"
      using n pos i one
      by (auto simp: slab_page_new_def Let_def PAGE_SIZE_def words nth_list_update mask_eq_exp_minus_1)
    moreover have "s div 64 = 0 \<longleftrightarrow> s < 64" by (simp add: div_eq_0_iff)
    ultimately show ?thesis using n s by (auto simp: bit_mask_iff)
  next
    fix k assume k: "?n = 64 * k" "0 < k" "k \<le> 8"
    have "div_ceil ?n 64 = k" using k by (simp add: div_ceil_def)
    then have "sp_free_mask (slab_page_new base os) ! (s div 64) = (if s div 64 < k then - 1 else 0)"
      using k i by (auto simp: slab_page_new_def Let_def PAGE_SIZE_def words)
    moreover have "s div 64 < k \<longleftrightarrow> s < ?n" using k(1) by (auto simp: div_less_iff_less_mult mult.commute)
    ultimately show ?thesis by simp
  qed
qed

text \<open>The free count tells whether the page can serve an allocation.\<close>

lemma page_has_free_alloc: "page_wf p \<Longrightarrow> page_has_free p \<longleftrightarrow> snd (alloc_slot p) \<noteq> None"
  using alloc_slot_cases [of p]
  by (auto simp: page_has_free_def word_less_nat_alt page_wf_def card_gt_0_iff)

lemma slab_page_new_fields:
  "sp_base (slab_page_new base os) = base" "sp_object_size (slab_page_new base os) = os"
  "sp_slot_count (slab_page_new base os) = 4096 div os" "length (sp_free_mask (slab_page_new base os)) = 8"
  by (simp_all add: slab_page_new_def Let_def PAGE_SIZE_def BITMASK_WORDS_def MAX_SLOTS_PER_PAGE_def)

lemma slab_page_new_wf:
  assumes os: "os \<in> set SIZE_CLASSES"
  shows "page_wf (slab_page_new base os)" and "page_live (slab_page_new base os) = {}"
    and "free_slots (slab_page_new base os) = {..<4096 div os}"
proof -
  let ?p = "slab_page_new base os"
  note facts = size_class_facts [OF os]
  show free: "free_slots ?p = {..<4096 div os}"
    using new_mask_bits [OF os, of _ base] facts(3) by (auto simp: free_slots_def slab_page_new_fields)
  then show "page_live ?p = {}" by (simp add: page_live_def slab_page_new_fields)
  have "unat (sp_free_count ?p) = 4096 div os"
    using facts(3) by (simp add: slab_page_new_def Let_def PAGE_SIZE_def unat_of_nat take_bit_nat_eq_self)
  with free os show "page_wf ?p"
    using new_mask_bits [OF os] by (simp add: page_wf_def slab_page_new_fields)
qed

section \<open>Pages of a class\<close>

text \<open>
  A class is well formed over an arena of which \<open>n\<close> pages are reserved: its first pages are present,
  well formed, of its object size, and sit on distinct reserved arena pages.
\<close>

definition class_page :: "SlabClass \<Rightarrow> nat \<Rightarrow> SlabPage" where
  "class_page c i = the (sc_pages c ! i)"

definition page_bases :: "SlabClass \<Rightarrow> nat set" where
  "page_bases c = (\<lambda>i. sp_base (class_page c i)) ` {..<sc_page_count c}"

definition arena_pages :: "nat \<Rightarrow> nat \<Rightarrow> nat set" where
  "arena_pages ab n = (\<lambda>k. ab + k * 4096) ` {..<n}"

definition class_wf :: "nat \<Rightarrow> nat \<times> SlabClass \<Rightarrow> bool" where
  "class_wf ab s \<longleftrightarrow> (case s of (n, c) \<Rightarrow>
     n \<le> 64 \<and> sc_page_count c \<le> 64 \<and> length (sc_pages c) = 64 \<and> sc_object_size c \<in> set SIZE_CLASSES
   \<and> (\<forall>i < sc_page_count c. sc_pages c ! i = Some (class_page c i) \<and> page_wf (class_page c i)
        \<and> sp_object_size (class_page c i) = sc_object_size c)
   \<and> inj_on (\<lambda>i. sp_base (class_page c i)) {..<sc_page_count c}
   \<and> page_bases c \<subseteq> arena_pages ab n)"

definition class_live :: "SlabClass \<Rightarrow> nat set" where
  "class_live c = (\<Union>i < sc_page_count c. page_live (class_page c i))"

definition put_page :: "SlabClass \<Rightarrow> nat \<Rightarrow> SlabPage \<Rightarrow> SlabClass" where
  "put_page c i p = c\<lparr>sc_pages := (sc_pages c)[i := Some p]\<rparr>"

lemma class_page_put:
  "i < length (sc_pages c) \<Longrightarrow> class_page (put_page c i p) j = (if j = i then p else class_page c j)"
  by (simp add: class_page_def put_page_def)

lemma put_page_fields [simp]:
  "sc_page_count (put_page c i p) = sc_page_count c" "sc_object_size (put_page c i p) = sc_object_size c"
  "length (sc_pages (put_page c i p)) = length (sc_pages c)"
  by (simp_all add: put_page_def)

lemma put_page_same:
  "i < length (sc_pages c) \<Longrightarrow> sc_pages c ! i = Some p \<Longrightarrow> put_page c i p = c"
  by (metis SlabClass.unfold_congs(1) SlabClass.update_convs(1) SlabClass.cases list_update_id put_page_def SlabClass.select_convs(1))

lemma page_live_range:
  assumes "page_wf p" and "a \<in> page_live p"
  shows "sp_base p \<le> a" "a + sp_object_size p \<le> sp_base p + 4096"
proof -
  from assms(2) obtain s where s: "s < sp_slot_count p" "a = sp_base p + s * sp_object_size p"
    by (auto simp: page_live_def)
  then have "(s + 1) * sp_object_size p \<le> sp_slot_count p * sp_object_size p" by (intro mult_le_mono1) simp
  with s page_wf_count [OF assms(1)] show "sp_base p \<le> a" "a + sp_object_size p \<le> sp_base p + 4096"
    by (simp_all add: algebra_simps)
qed

lemma arena_pages_apart:
  assumes "x \<in> arena_pages ab n" and "y \<in> arena_pages ab n" and "x < y"
  shows "x + 4096 \<le> y"
proof -
  from assms(1,2) obtain i j where ij: "x = ab + i * 4096" "y = ab + j * 4096" by (auto simp: arena_pages_def)
  with assms(3) have "i + 1 \<le> j" by simp
  then have "(i + 1) * 4096 \<le> j * 4096" by (rule mult_le_mono1)
  with ij show ?thesis by simp
qed

lemma class_wfD:
  assumes "class_wf ab (n, c)"
  shows "n \<le> 64" "sc_page_count c \<le> 64" "length (sc_pages c) = 64" "sc_object_size c \<in> set SIZE_CLASSES"
    "inj_on (\<lambda>i. sp_base (class_page c i)) {..<sc_page_count c}" "page_bases c \<subseteq> arena_pages ab n"
    "i < sc_page_count c \<Longrightarrow> sc_pages c ! i = Some (class_page c i)"
    "i < sc_page_count c \<Longrightarrow> page_wf (class_page c i)"
    "i < sc_page_count c \<Longrightarrow> sp_object_size (class_page c i) = sc_object_size c"
  using assms by (simp_all add: class_wf_def)

lemma class_pages_disjoint:
  assumes wf: "class_wf ab (n, c)" and ij: "i < sc_page_count c" "j < sc_page_count c" "i \<noteq> j"
    and a: "a \<in> page_live (class_page c i)"
  shows "a \<notin> page_live (class_page c j)"
proof
  assume b: "a \<in> page_live (class_page c j)"
  let ?x = "sp_base (class_page c i)" and ?y = "sp_base (class_page c j)"
  note W = class_wfD [OF wf]
  have "?x \<noteq> ?y" using W(5) ij by (auto dest: inj_onD)
  moreover have "?x \<in> arena_pages ab n" "?y \<in> arena_pages ab n"
    using W(6) ij by (auto simp: page_bases_def)
  ultimately have "?x + 4096 \<le> ?y \<or> ?y + 4096 \<le> ?x"
    using arena_pages_apart by (metis linorder_neqE_nat)
  moreover have "0 < sc_object_size c" using W(4) size_class_facts(1) by blast
  ultimately show False
    using page_live_range [OF W(8) [OF ij(1)] a] page_live_range [OF W(8) [OF ij(2)] b] W(9) ij by simp
qed

lemma class_wf_put:
  assumes wf: "class_wf ab (n, c)" and i: "i < sc_page_count c" and p: "page_wf p"
    and same: "sp_base p = sp_base (class_page c i)" "sp_object_size p = sp_object_size (class_page c i)"
  shows "class_wf ab (n, put_page c i p)"
    and "class_live (put_page c i p) = (\<Union>j \<in> {..<sc_page_count c} - {i}. page_live (class_page c j)) \<union> page_live p"
proof -
  note W = class_wfD [OF wf]
  have len: "i < length (sc_pages c)" using W(2,3) i by simp
  have base: "sp_base (class_page (put_page c i p) j) = sp_base (class_page c j)" for j
    using len same by (simp add: class_page_put)
  have bases: "page_bases (put_page c i p) = page_bases c" by (simp add: page_bases_def base)
  have pages: "sc_pages (put_page c i p) ! j = Some (class_page (put_page c i p) j)
      \<and> page_wf (class_page (put_page c i p) j) \<and> sp_object_size (class_page (put_page c i p) j) = sc_object_size c"
    if "j < sc_page_count c" for j
    using W(7-9) [OF that] W(9) [OF i] len p same
    by (simp add: class_page_put put_page_def nth_list_update class_page_def)
  show "class_wf ab (n, put_page c i p)"
    using W pages by (simp add: class_wf_def base bases)
  have "{..<sc_page_count c} = insert i ({..<sc_page_count c} - {i})" using i by auto
  then have "class_live (put_page c i p) =
      (\<Union>j \<in> insert i ({..<sc_page_count c} - {i}). page_live (class_page (put_page c i p) j))"
    by (simp add: class_live_def)
  also have "\<dots> = (\<Union>j \<in> {..<sc_page_count c} - {i}. page_live (class_page c j)) \<union> page_live p"
    using len by (auto simp: class_page_put split: if_splits)
  finally show "class_live (put_page c i p) =
      (\<Union>j \<in> {..<sc_page_count c} - {i}. page_live (class_page c j)) \<union> page_live p" .
qed

lemma class_live_split:
  "i < sc_page_count c \<Longrightarrow> class_live c = (\<Union>j \<in> {..<sc_page_count c} - {i}. page_live (class_page c j)) \<union> page_live (class_page c i)"
  unfolding class_live_def by blast

lemma slot_ops_keep_place:
  "alloc_slot p = (p', r) \<Longrightarrow> page_wf p \<Longrightarrow> sp_base p' = sp_base p \<and> sp_object_size p' = sp_object_size p"
  "dealloc_slot p a = (p', b) \<Longrightarrow> sp_base p' = sp_base p \<and> sp_object_size p' = sp_object_size p"
  using alloc_slot_cases [of p]
  by (auto simp: take_slot_def dealloc_slot_def Let_def split: if_splits)

lemma alloc_pages_cases:
  assumes wf: "class_wf ab (n, c)" and "set is \<subseteq> {..<sc_page_count c}"
  shows "(\<exists>i p a. i < sc_page_count c \<and> alloc_slot (class_page c i) = (p, Some a)
            \<and> alloc_pages c is = (put_page c i p, Some a))
       \<or> alloc_pages c is = (c, None)"
  using assms(2)
proof (induction "is")
  case (Cons i "is")
  note W = class_wfD [OF wf]
  from Cons.prems have i: "i < sc_page_count c" by simp
  obtain p r where alloc: "alloc_slot (class_page c i) = (p, r)" by fastforce
  show ?case
  proof (cases r)
    case (Some a)
    then have "alloc_pages c (i # is) = (put_page c i p, Some a)"
      using W(7) [OF i] alloc by (simp add: put_page_def)
    with i alloc Some show ?thesis by blast
  next
    case None
    with alloc alloc_slot_cases [OF W(8) [OF i]] have "p = class_page c i" by auto
    then have "put_page c i p = c" using put_page_same W(2,3,7) i by simp
    then have "alloc_pages c (i # is) = alloc_pages c is"
      using W(7) [OF i] alloc None by (simp add: put_page_def)
    with Cons show ?thesis by simp
  qed
qed simp

lemma dealloc_pages_cases:
  assumes wf: "class_wf ab (n, c)" and "set is \<subseteq> {..<sc_page_count c}"
  shows "(\<exists>i p. i < sc_page_count c \<and> dealloc_slot (class_page c i) ptr = (p, True)
            \<and> dealloc_pages c is ptr = (put_page c i p, True))
       \<or> (\<forall>i \<in> set is. ptr \<notin> page_live (class_page c i)) \<and> dealloc_pages c is ptr = (c, False)"
  using assms(2)
proof (induction "is")
  case (Cons i "is")
  note W = class_wfD [OF wf]
  from Cons.prems have i: "i < sc_page_count c" by simp
  obtain p b where free: "dealloc_slot (class_page c i) ptr = (p, b)" by fastforce
  show ?case
  proof (cases b)
    case True
    then have "dealloc_pages c (i # is) ptr = (put_page c i p, True)"
      using W(7) [OF i] free by (simp add: put_page_def Let_def)
    with i free True show ?thesis by (intro disjI1 exI [of _ i] exI [of _ p]) simp
  next
    case False
    with free page_pool.free_False [OF W(8) [OF i]] have p: "p = class_page c i"
      and out: "ptr \<notin> page_live (class_page c i)" by auto
    then have "put_page c i p = c" using put_page_same W(2,3,7) i by simp
    then have "dealloc_pages c (i # is) ptr = dealloc_pages c is ptr"
      using W(7) [OF i] free False by (simp add: put_page_def Let_def)
    with Cons out show ?thesis by simp
  qed
qed simp

lemma class_grow_cases:
  assumes wf: "class_wf ab (n, c)" and grow: "class_grow ab n c = (n', c', r)"
  shows "(r = None \<and> n' = n \<and> c' = c) \<or>
    (r = Some () \<and> n' = n + 1 \<and> n < 64 \<and> class_wf ab (n', c') \<and> class_live c' = class_live c
     \<and> sc_page_count c' = sc_page_count c + 1 \<and> sc_object_size c' = sc_object_size c
     \<and> page_bases c' = insert (ab + n * 4096) (page_bases c))"
proof (cases "r = None")
  case True
  with grow show ?thesis
    by (auto simp: class_grow_def allocate_page_def split: if_splits)
next
  case False
  note W = class_wfD [OF wf]
  let ?k = "sc_page_count c" and ?p = "slab_page_new (ab + n * 4096) (sc_object_size c)"
  from grow False have room: "?k < 64" "n < 64" and n': "n' = n + 1"
    and c': "c' = (put_page c ?k ?p)\<lparr>sc_page_count := ?k + 1\<rparr>"
    by (auto simp: class_grow_def allocate_page_def MAX_SLAB_PAGES_def USER_HEAP_PAGES_def PAGE_SIZE_def
        put_page_def split: if_splits)
  have page: "class_page c' j = (if j = ?k then ?p else class_page c j)" for j
    using W(3) room by (simp add: c' class_page_def put_page_def)
  have count: "sc_page_count c' = Suc ?k" "length (sc_pages c') = 64" "sc_object_size c' = sc_object_size c"
    using W(3) by (simp_all add: c')
  have cells: "sc_pages c' ! j = (if j = ?k then Some ?p else sc_pages c ! j)" for j
    using W(3) room by (simp add: c' put_page_def)
  note new = slab_page_new_wf [OF W(4), of "ab + n * 4096"]
  have bases: "page_bases c' = insert (ab + n * 4096) (page_bases c)"
    by (auto simp: page_bases_def count page lessThan_Suc slab_page_new_fields)
  have fresh: "ab + n * 4096 \<notin> arena_pages ab n" by (auto simp: arena_pages_def)
  have grown: "arena_pages ab (Suc n) = insert (ab + n * 4096) (arena_pages ab n)"
    by (simp add: arena_pages_def lessThan_Suc)
  have other: "sp_base (class_page c i) \<noteq> ab + n * 4096" if "i < ?k" for i
    using fresh W(6) that unfolding page_bases_def by (metis image_subset_iff lessThan_iff)
  have inj: "inj_on (\<lambda>i. sp_base (class_page c' i)) {..<Suc ?k}"
  proof (rule inj_onI)
    fix x y assume xy: "x \<in> {..<Suc ?k}" "y \<in> {..<Suc ?k}" and eq: "sp_base (class_page c' x) = sp_base (class_page c' y)"
    show "x = y"
    proof (cases "x = ?k \<or> y = ?k")
      case True
      with xy eq other [of x] other [of y] show ?thesis
        by (auto simp: page slab_page_new_fields less_Suc_eq split: if_splits)
    next
      case False
      with xy eq have "sp_base (class_page c x) = sp_base (class_page c y)" "x < ?k" "y < ?k"
        by (simp_all add: page less_Suc_eq)
      with W(5) show ?thesis by (auto dest: inj_onD)
    qed
  qed
  have pages: "sc_pages c' ! j = Some (class_page c' j) \<and> page_wf (class_page c' j)
      \<and> sp_object_size (class_page c' j) = sc_object_size c" if "j < Suc ?k" for j
    using that W(7-9) [of j] new(1) by (auto simp: page cells slab_page_new_fields less_Suc_eq)
  have "class_wf ab (n', c')"
    using W pages inj bases grown room by (auto simp: class_wf_def n' count)
  moreover have "class_live c' = class_live c"
    by (auto simp: class_live_def count page lessThan_Suc new(2))
  ultimately show ?thesis using bases room count False n' by (cases r) simp_all
qed

lemma class_alloc_page:
  assumes wf: "class_wf ab (n, c)" and i: "i < sc_page_count c"
    and alloc: "alloc_slot (class_page c i) = (p, Some a)"
  shows "class_wf ab (n, put_page c i p)" and "a \<notin> class_live c"
    and "class_live (put_page c i p) = insert a (class_live c)"
    and "page_bases (put_page c i p) = page_bases c"
proof -
  note W = class_wfD [OF wf]
  note pp = page_pool.alloc_Some [OF W(8) [OF i] alloc]
  note place = slot_ops_keep_place(1) [OF alloc W(8) [OF i]]
  from pp place show "class_wf ab (n, put_page c i p)"
    by (intro class_wf_put(1) [OF wf i]) auto
  from pp place have live: "class_live (put_page c i p) =
      (\<Union>j \<in> {..<sc_page_count c} - {i}. page_live (class_page c j)) \<union> page_live p"
    by (intro class_wf_put(2) [OF wf i]) auto
  show "class_live (put_page c i p) = insert a (class_live c)"
    unfolding live class_live_split [OF i] using pp by auto
  have wf': "class_wf ab (n, put_page c i p)"
    using pp place by (intro class_wf_put(1) [OF wf i]) auto
  have len: "i < length (sc_pages c)" using W(2,3) i by simp
  have "a \<notin> page_live (class_page c j)" if "j < sc_page_count c" "j \<noteq> i" for j
    using class_pages_disjoint [OF wf', of i j a] i that pp len by (simp add: class_page_put)
  with pp show "a \<notin> class_live c" unfolding class_live_split [OF i] by auto
  have "sp_base (class_page (put_page c i p) j) = sp_base (class_page c j)" for j
    using place len by (simp add: class_page_put)
  then show "page_bases (put_page c i p) = page_bases c" by (simp add: page_bases_def)
qed

lemma class_alloc_cases:
  assumes wf: "class_wf ab (n, c)" and alloc: "class_alloc ab (n, c) = ((n', c'), r)"
  shows "class_wf ab (n', c') \<and> sc_object_size c' = sc_object_size c
    \<and> (n' = n \<and> page_bases c' = page_bases c
       \<or> n' = n + 1 \<and> n < 64 \<and> page_bases c' = insert (ab + n * 4096) (page_bases c))
    \<and> (case r of None \<Rightarrow> class_live c' = class_live c
         | Some a \<Rightarrow> a \<notin> class_live c \<and> class_live c' = insert a (class_live c))"
proof -
  have "set [0..<sc_page_count c] \<subseteq> {..<sc_page_count c}" by auto
  from alloc_pages_cases [OF wf this] show ?thesis
  proof (elim disjE exE conjE)
    fix i p a assume i: "i < sc_page_count c" and p: "alloc_slot (class_page c i) = (p, Some a)"
      and scan: "alloc_pages c [0..<sc_page_count c] = (put_page c i p, Some a)"
    from alloc scan have "n' = n" "c' = put_page c i p" "r = Some a" by (auto simp: class_alloc_def)
    with class_alloc_page [OF wf i p] show ?thesis by simp
  next
    assume scan: "alloc_pages c [0..<sc_page_count c] = (c, None)"
    obtain n1 c1 r1 where grow: "class_grow ab n c = (n1, c1, r1)" by (cases "class_grow ab n c") auto
    from class_grow_cases [OF wf grow] show ?thesis
    proof (elim disjE conjE)
      assume "r1 = None" "n1 = n" "c1 = c"
      with alloc scan grow wf show ?thesis by (auto simp: class_alloc_def)
    next
      assume r1: "r1 = Some ()" and n1: "n1 = n + 1" "n < 64" and wf1: "class_wf ab (n1, c1)"
        and live1: "class_live c1 = class_live c" and k1: "sc_page_count c1 = sc_page_count c + 1"
        and os1: "sc_object_size c1 = sc_object_size c"
        and b1: "page_bases c1 = insert (ab + n * 4096) (page_bases c)"
      let ?k = "sc_page_count c"
      have k: "?k < sc_page_count c1" using k1 by simp
      obtain p q where p: "alloc_slot (class_page c1 ?k) = (p, q)" by fastforce
      note W = class_wfD [OF wf1]
      from alloc scan grow r1 p W(7) [OF k] k1
      have res: "n' = n1" "c' = put_page c1 ?k p" "r = q" by (auto simp: class_alloc_def put_page_def)
      show ?thesis
      proof (cases q)
        case (Some a)
        with class_alloc_page [OF wf1 k] p res live1 b1 n1 os1 show ?thesis by simp
      next
        case None
        with p alloc_slot_cases [OF W(8) [OF k]] have "p = class_page c1 ?k" by auto
        then have "put_page c1 ?k p = c1" using put_page_same W(2,3,7) k by simp
        with None res wf1 live1 b1 n1 os1 show ?thesis by simp
      qed
    qed
  qed
qed

lemma class_dealloc_cases:
  assumes wf: "class_wf ab (n, c)" and free: "class_dealloc c ptr = (c', b)"
  shows "class_wf ab (n, c') \<and> sc_object_size c' = sc_object_size c \<and> page_bases c' = page_bases c
    \<and> (b \<longleftrightarrow> ptr \<in> class_live c) \<and> class_live c' = class_live c - {ptr} \<and> (\<not> b \<longrightarrow> c' = c)"
proof -
  note W = class_wfD [OF wf]
  have "set [0..<sc_page_count c] \<subseteq> {..<sc_page_count c}" by auto
  from dealloc_pages_cases [OF wf this, of ptr] show ?thesis
  proof (elim disjE exE conjE)
    fix i p assume i: "i < sc_page_count c" and p: "dealloc_slot (class_page c i) ptr = (p, True)"
      and scan: "dealloc_pages c [0..<sc_page_count c] ptr = (put_page c i p, True)"
    from free scan have c': "c' = put_page c i p" and b: "b" by (auto simp: class_dealloc_def)
    note pp = page_pool.free_True [OF W(8) [OF i] p]
    note place = slot_ops_keep_place(2) [OF p]
    have len: "i < length (sc_pages c)" using W(2,3) i by simp
    have wf': "class_wf ab (n, put_page c i p)"
      and live: "class_live (put_page c i p) = (\<Union>j \<in> {..<sc_page_count c} - {i}. page_live (class_page c j)) \<union> page_live p"
      using pp place by (intro class_wf_put [OF wf i]; simp)+
    have "ptr \<notin> page_live (class_page c j)" if "j < sc_page_count c" "j \<noteq> i" for j
      using class_pages_disjoint [OF wf i that(1)] pp that by blast
    then have "class_live (put_page c i p) = class_live c - {ptr}"
      unfolding live class_live_split [OF i] using pp by auto
    moreover have "sp_base (class_page (put_page c i p) j) = sp_base (class_page c j)" for j
      using place len by (simp add: class_page_put)
    moreover have "ptr \<in> class_live c" unfolding class_live_split [OF i] using pp by simp
    ultimately show ?thesis using c' b wf' by (simp add: page_bases_def)
  next
    assume none: "\<forall>i \<in> set [0..<sc_page_count c]. ptr \<notin> page_live (class_page c i)"
      and "dealloc_pages c [0..<sc_page_count c] ptr = (c, False)"
    with free have "c' = c" "\<not> b" by (auto simp: class_dealloc_def)
    moreover have "ptr \<notin> class_live c" using none by (auto simp: class_live_def)
    ultimately show ?thesis using wf by simp
  qed
qed

interpretation class_pool: block_pool "class_alloc ab" "\<lambda>(n, c) a. case class_dealloc c a of (c', b) \<Rightarrow> ((n, c'), b)"
    "\<lambda>(n, c). class_live c" "class_wf ab" for ab
proof
  fix s s' :: "nat \<times> SlabClass" and a
  assume wf: "class_wf ab s"
  obtain n c n' c' where s: "s = (n, c)" "s' = (n', c')" by (cases s; cases s')
  { assume "class_alloc ab s = (s', Some a)"
    with class_alloc_cases [OF wf [unfolded s], of n' c' "Some a"] show
      "class_wf ab s' \<and> a \<notin> (case s of (n, c) \<Rightarrow> class_live c)
       \<and> (case s' of (n, c) \<Rightarrow> class_live c) = insert a (case s of (n, c) \<Rightarrow> class_live c)"
      by (simp add: s) }
  { assume "class_alloc ab s = (s', None)"
    with class_alloc_cases [OF wf [unfolded s], of n' c' None] show
      "class_wf ab s' \<and> (case s' of (n, c) \<Rightarrow> class_live c) = (case s of (n, c) \<Rightarrow> class_live c)"
      by (simp add: s) }
  { assume "(case s of (n, c) \<Rightarrow> \<lambda>a. case class_dealloc c a of (c', b) \<Rightarrow> ((n, c'), b)) a = (s', True)"
    then have "class_dealloc c a = (c', True)" "n' = n" by (auto simp: s split: prod.splits)
    with class_dealloc_cases [OF wf [unfolded s], of a c' True] show
      "class_wf ab s' \<and> a \<in> (case s of (n, c) \<Rightarrow> class_live c)
       \<and> (case s' of (n, c) \<Rightarrow> class_live c) = (case s of (n, c) \<Rightarrow> class_live c) - {a}"
      by (simp add: s) }
  { assume "(case s of (n, c) \<Rightarrow> \<lambda>a. case class_dealloc c a of (c', b) \<Rightarrow> ((n, c'), b)) a = (s', False)"
    then have "class_dealloc c a = (c', False)" "n' = n" by (auto simp: s split: prod.splits)
    with class_dealloc_cases [OF wf [unfolded s], of a c' False] show "s' = s \<and> a \<notin> (case s of (n, c) \<Rightarrow> class_live c)"
      by (simp add: s) }
qed

section \<open>Blocks of the heap\<close>

definition heap_wf :: "nat \<Rightarrow> nat \<times> HeapState \<Rightarrow> bool" where
  "heap_wf ab s \<longleftrightarrow> (case s of (n, h) \<Rightarrow>
     length (hs_classes h) = 10
   \<and> (\<forall>i < 10. class_wf ab (n, hs_classes h ! i) \<and> sc_object_size (hs_classes h ! i) = SIZE_CLASSES ! i)
   \<and> (\<forall>i < 10. \<forall>j < 10. i \<noteq> j \<longrightarrow> page_bases (hs_classes h ! i) \<inter> page_bases (hs_classes h ! j) = {}))"

text \<open>The live blocks: address and class size.\<close>

definition heap_blocks :: "HeapState \<Rightarrow> (nat \<times> nat) set" where
  "heap_blocks h = (\<Union>i < 10. (\<lambda>a. (a, SIZE_CLASSES ! i)) ` class_live (hs_classes h ! i))"

definition blocks_disjoint :: "nat \<times> nat \<Rightarrow> nat \<times> nat \<Rightarrow> bool" where
  "blocks_disjoint x y \<longleftrightarrow> fst x + snd x \<le> fst y \<or> fst y + snd y \<le> fst x"

lemma class_wf_mono: "class_wf ab (n, c) \<Longrightarrow> n \<le> m \<Longrightarrow> m \<le> 64 \<Longrightarrow> class_wf ab (m, c)"
  by (auto simp: class_wf_def arena_pages_def page_bases_def subset_iff)

lemma heap_wfD:
  assumes "heap_wf ab (n, h)" and "i < 10"
  shows "class_wf ab (n, hs_classes h ! i)" "sc_object_size (hs_classes h ! i) = SIZE_CLASSES ! i"
    "length (hs_classes h) = 10"
  using assms by (simp_all add: heap_wf_def)

lemma length_SIZE_CLASSES: "length SIZE_CLASSES = 10"
  by (simp add: SIZE_CLASSES_def)

lemma class_size_nth: "i < 10 \<Longrightarrow> SIZE_CLASSES ! i \<in> set SIZE_CLASSES"
  by (rule nth_mem) (simp add: SIZE_CLASSES_def)

lemma class_size_power:
  assumes "i < 10"
  shows "\<exists>j. SIZE_CLASSES ! i = 2 ^ j"
proof -
  have "\<forall>os \<in> set SIZE_CLASSES. \<exists>j \<in> {3..<13}. os = 2 ^ j"
    by (simp add: SIZE_CLASSES_def atLeastLessThan_nat_numeral)
  with class_size_nth [OF assms] show ?thesis by blast
qed

lemma class_sizes_distinct: "i < 10 \<Longrightarrow> j < 10 \<Longrightarrow> SIZE_CLASSES ! i = SIZE_CLASSES ! j \<Longrightarrow> i = j"
  using nth_eq_iff_index_eq [of SIZE_CLASSES i j] by (simp add: SIZE_CLASSES_def)

lemma heap_block_page:
  assumes wf: "heap_wf ab (n, h)" and x: "x \<in> heap_blocks h"
  obtains i j s where "i < 10" "j < sc_page_count (hs_classes h ! i)"
    "snd x = SIZE_CLASSES ! i" "s < 4096 div snd x"
    "fst x = sp_base (class_page (hs_classes h ! i) j) + s * snd x"
    "sp_base (class_page (hs_classes h ! i) j) \<in> arena_pages ab n"
proof -
  from x obtain i where i: "i < 10" and a: "fst x \<in> class_live (hs_classes h ! i)" and sz: "snd x = SIZE_CLASSES ! i"
    by (auto simp: heap_blocks_def)
  let ?c = "hs_classes h ! i"
  note H = heap_wfD [OF wf i]
  note W = class_wfD [OF H(1)]
  from a obtain j where j: "j < sc_page_count ?c" and l: "fst x \<in> page_live (class_page ?c j)"
    by (auto simp: class_live_def)
  from l obtain s where s: "s < sp_slot_count (class_page ?c j)"
    "fst x = sp_base (class_page ?c j) + s * sp_object_size (class_page ?c j)" by (auto simp: page_live_def)
  have os: "sp_object_size (class_page ?c j) = snd x" using W(9) [OF j] H(2) sz by simp
  have "sp_slot_count (class_page ?c j) = 4096 div snd x"
    using W(8) [OF j] os by (simp add: page_wf_def)
  moreover have "sp_base (class_page ?c j) \<in> arena_pages ab n" using W(6) j by (auto simp: page_bases_def)
  ultimately show thesis using that i j sz s os by simp
qed

lemma slot_end:
  assumes "s < 4096 div os" and "os \<in> set SIZE_CLASSES"
  shows "s * os + os \<le> 4096"
proof -
  have "(s + 1) * os \<le> 4096 div os * os" using assms(1) by (intro mult_le_mono1) simp
  then show ?thesis using size_class_facts(2) [OF assms(2)] by simp
qed

lemma heap_blocks_disjoint:
  assumes wf: "heap_wf ab (n, h)" and x: "x \<in> heap_blocks h" and y: "y \<in> heap_blocks h" and "x \<noteq> y"
  shows "blocks_disjoint x y"
proof -
  obtain i j s where i: "i < 10" "j < sc_page_count (hs_classes h ! i)" "snd x = SIZE_CLASSES ! i"
    and s: "s < 4096 div snd x" "fst x = sp_base (class_page (hs_classes h ! i) j) + s * snd x"
    and bx: "sp_base (class_page (hs_classes h ! i) j) \<in> arena_pages ab n"
    by (rule heap_block_page [OF wf x])
  obtain k l t where k: "k < 10" "l < sc_page_count (hs_classes h ! k)" "snd y = SIZE_CLASSES ! k"
    and t: "t < 4096 div snd y" "fst y = sp_base (class_page (hs_classes h ! k) l) + t * snd y"
    and b_y: "sp_base (class_page (hs_classes h ! k) l) \<in> arena_pages ab n"
    by (rule heap_block_page [OF wf y])
  let ?bx = "sp_base (class_page (hs_classes h ! i) j)" and ?by = "sp_base (class_page (hs_classes h ! k) l)"
  have ends: "s * snd x + snd x \<le> 4096" "t * snd y + snd y \<le> 4096"
    using s(1) t(1) i k class_size_nth by (simp_all add: slot_end)
  show ?thesis
  proof (cases "?bx = ?by")
    case False
    then have "?bx + 4096 \<le> ?by \<or> ?by + 4096 \<le> ?bx"
      using arena_pages_apart bx b_y by (metis linorder_neqE_nat)
    with ends s(2) t(2) show ?thesis unfolding blocks_disjoint_def by linarith
  next
    case True
    have "i = k"
    proof (rule ccontr)
      assume "i \<noteq> k"
      then have "page_bases (hs_classes h ! i) \<inter> page_bases (hs_classes h ! k) = {}"
        using wf i k by (simp add: heap_wf_def)
      with True i(2) k(2) show False by (auto simp: page_bases_def)
    qed
    with i k have same: "snd x = snd y" by simp
    have "s \<noteq> t" using \<open>x \<noteq> y\<close> s(2) t(2) True same by (auto simp: prod_eq_iff)
    then have "(s + 1) * snd x \<le> t * snd x \<or> (t + 1) * snd x \<le> s * snd x"
      by (metis Suc_eq_plus1 Suc_leI linorder_neqE_nat mult_le_mono1)
    with s(2) t(2) True same show ?thesis unfolding blocks_disjoint_def by auto
  qed
qed

lemma heap_block_place:
  assumes wf: "heap_wf ab (n, h)" and x: "x \<in> heap_blocks h"
  shows "ab \<le> fst x" "fst x + snd x \<le> ab + n * 4096" "snd x \<in> set SIZE_CLASSES"
    and "4096 dvd ab \<Longrightarrow> snd x dvd fst x"
proof -
  obtain i j s where i: "i < 10" "snd x = SIZE_CLASSES ! i" and s: "s < 4096 div snd x"
    and a: "fst x = sp_base (class_page (hs_classes h ! i) j) + s * snd x"
    and "sp_base (class_page (hs_classes h ! i) j) \<in> arena_pages ab n"
    by (rule heap_block_page [OF wf x])
  then obtain k where k: "k < n" "fst x = ab + k * 4096 + s * snd x" by (auto simp: arena_pages_def)
  show sz: "snd x \<in> set SIZE_CLASSES" using i class_size_nth by simp
  show "ab \<le> fst x" using k(2) by simp
  have "k * 4096 + 4096 \<le> n * 4096" using k(1) by simp
  then show "fst x + snd x \<le> ab + n * 4096" using slot_end [OF s sz] k(2) by linarith
  have "snd x dvd 4096" using size_class_facts(2) [OF sz] by (metis dvd_triv_right)
  then have "snd x dvd ab + k * 4096" if "4096 dvd ab"
    using that by (meson dvd_add dvd_mult dvd_trans)
  then show "snd x dvd fst x" if "4096 dvd ab" using that by (simp only: k(2) dvd_add dvd_triv_right)
qed

section \<open>The two operations under the lock\<close>

lemma class_for_Some:
  assumes "class_for sz = Some i"
  shows "i < 10" "sz \<le> SIZE_CLASSES ! i" "\<forall>j < i. SIZE_CLASSES ! j < sz"
proof -
  have len: "length SIZE_CLASSES = 10" by (simp add: SIZE_CLASSES_def)
  from assms have "i < length SIZE_CLASSES \<and> sz \<le> SIZE_CLASSES ! i \<and> (\<forall>j < i. \<not> sz \<le> SIZE_CLASSES ! j)"
    unfolding class_for_def position_Some_iff by simp
  then show "i < 10" "sz \<le> SIZE_CLASSES ! i" "\<forall>j < i. SIZE_CLASSES ! j < sz"
    by (simp_all add: len not_le)
qed

lemma heap_blocks_iff:
  "x \<in> heap_blocks h \<longleftrightarrow> (\<exists>i < 10. snd x = SIZE_CLASSES ! i \<and> fst x \<in> class_live (hs_classes h ! i))"
  by (cases x) (auto simp: heap_blocks_def)

lemma heap_blocks_at:
  assumes "i < 10" and "snd x = SIZE_CLASSES ! i"
  shows "x \<in> heap_blocks h \<longleftrightarrow> fst x \<in> class_live (hs_classes h ! i)"
  unfolding heap_blocks_iff using assms class_sizes_distinct by metis

lemma heap_wf_update:
  assumes wf: "heap_wf ab (n, h)" and i: "i < 10"
    and c: "class_wf ab (m, c)" "sc_object_size c = SIZE_CLASSES ! i" "n \<le> m"
    and b: "page_bases c = page_bases (hs_classes h ! i)
      \<or> page_bases c = insert (ab + n * 4096) (page_bases (hs_classes h ! i))"
    and h': "hs_classes h' = (hs_classes h)[i := c]"
  shows "heap_wf ab (m, h')"
    and "x \<in> heap_blocks h' \<longleftrightarrow> (if snd x = SIZE_CLASSES ! i then fst x \<in> class_live c else x \<in> heap_blocks h)"
proof -
  note H = heap_wfD [OF wf]
  have m: "m \<le> 64" using class_wfD(1) [OF c(1)] .
  have nth: "hs_classes h' ! j = (if j = i then c else hs_classes h ! j)" if "j < 10" for j
    using H(3) i that by (simp add: h')
  have fresh: "ab + n * 4096 \<notin> page_bases (hs_classes h ! j)" if "j < 10" for j
    using class_wfD(6) [OF H(1) [OF that]] by (auto simp: arena_pages_def)
  have disj: "page_bases (hs_classes h' ! j) \<inter> page_bases (hs_classes h' ! k) = {}"
    if "j < 10" "k < 10" "j \<noteq> k" for j k
  proof -
    have old: "page_bases (hs_classes h ! j) \<inter> page_bases (hs_classes h ! k) = {}"
      using wf that by (simp add: heap_wf_def)
    show ?thesis using b old fresh [OF that(1)] fresh [OF that(2)] that by (auto simp: nth)
  qed
  have classes: "class_wf ab (m, hs_classes h' ! j) \<and> sc_object_size (hs_classes h' ! j) = SIZE_CLASSES ! j"
    if "j < 10" for j
    using nth [OF that] H(1,2) [OF that] c class_wf_mono [OF _ c(3) m] by simp
  have "length (hs_classes h') = 10" using H(3) [OF i] by (simp add: h')
  with classes disj show "heap_wf ab (m, h')" by (simp add: heap_wf_def)
  show "x \<in> heap_blocks h' \<longleftrightarrow> (if snd x = SIZE_CLASSES ! i then fst x \<in> class_live c else x \<in> heap_blocks h)"
  proof (cases "snd x = SIZE_CLASSES ! i")
    case True
    then show ?thesis using heap_blocks_at [OF i True, of h'] nth [OF i] by simp
  next
    case False
    show ?thesis
    proof (cases "\<exists>j < 10. snd x = SIZE_CLASSES ! j")
      case True
      then obtain j where j: "j < 10" "snd x = SIZE_CLASSES ! j" by blast
      with False have "j \<noteq> i" by auto
      then show ?thesis using heap_blocks_at [OF j] nth [OF j(1)] False by simp
    next
      case none: False
      then show ?thesis unfolding heap_blocks_iff using False by auto
    qed
  qed
qed

lemma alloc_closure_cases:
  assumes wf: "heap_wf ab (n, h)" and i: "i < 10" and ab: "0 < ab" and run: "alloc_closure ab i n h = (n', h', a)"
  shows "heap_wf ab (n', h')
    \<and> (if a = 0 then heap_blocks h' = heap_blocks h
       else (a, SIZE_CLASSES ! i) \<notin> heap_blocks h \<and> heap_blocks h' = insert (a, SIZE_CLASSES ! i) (heap_blocks h))"
proof -
  let ?c = "hs_classes h ! i"
  obtain m c r where al0: "class_alloc ab (n, ?c) = ((m, c), r)" by (metis prod.exhaust)
  with run have m: "m = n'" and h': "hs_classes h' = (hs_classes h)[i := c]"
    and a: "a = (case r of None \<Rightarrow> 0 | Some x \<Rightarrow> x)"
    by (auto simp: alloc_closure_def Let_def split: if_splits)
  note al = al0 [unfolded m]
  note H = heap_wfD [OF wf i]
  note C = class_alloc_cases [OF H(1) al]
  from C H(2) have c: "class_wf ab (n', c)" "sc_object_size c = SIZE_CLASSES ! i" "n \<le> n'"
    "page_bases c = page_bases ?c \<or> page_bases c = insert (ab + n * 4096) (page_bases ?c)" by auto
  note upd = heap_wf_update [OF wf i c h']
  have same: "x \<in> heap_blocks h \<longleftrightarrow> (if snd x = SIZE_CLASSES ! i then fst x \<in> class_live ?c else x \<in> heap_blocks h)" for x
    using heap_blocks_at [OF i, of x h] by simp
  show ?thesis
  proof (cases r)
    case None
    with C have "class_live c = class_live ?c" by simp
    then have "x \<in> heap_blocks h' \<longleftrightarrow> x \<in> heap_blocks h" for x
      using upd(2) [of x] same [of x] by (cases "snd x = SIZE_CLASSES ! i") simp_all
    then have "heap_blocks h' = heap_blocks h" by blast
    with upd(1) a None show ?thesis by simp
  next
    case (Some x)
    with C have x: "x \<notin> class_live ?c" "class_live c = insert x (class_live ?c)" by simp_all
    have "y \<in> heap_blocks h' \<longleftrightarrow> y \<in> insert (x, SIZE_CLASSES ! i) (heap_blocks h)" for y
    proof (cases "snd y = SIZE_CLASSES ! i")
      case True
      from upd(2) [of y] heap_blocks_at [OF i True, of h] show ?thesis
        by (simp add: True x(2) prod_eq_iff)
    next
      case False
      from upd(2) [of y] show ?thesis by (simp add: False prod_eq_iff)
    qed
    then have blocks: "heap_blocks h' = insert (x, SIZE_CLASSES ! i) (heap_blocks h)" by blast
    have fresh: "(x, SIZE_CLASSES ! i) \<notin> heap_blocks h" using heap_blocks_at [OF i, of "(x, SIZE_CLASSES ! i)"] x by simp
    have "ab \<le> x" using heap_block_place(1) [OF upd(1), of "(x, SIZE_CLASSES ! i)"] blocks by simp
    with ab upd(1) fresh blocks a Some show ?thesis by simp
  qed
qed

lemma dealloc_closure_cases:
  assumes wf: "heap_wf ab (n, h)" and i: "i < 10" and run: "dealloc_closure i a n h = (n', h', u)"
  shows "n' = n \<and> heap_wf ab (n, h') \<and> heap_blocks h' = heap_blocks h - {(a, SIZE_CLASSES ! i)}"
proof -
  let ?c = "hs_classes h ! i"
  obtain c b where fr: "class_dealloc ?c a = (c, b)" by fastforce
  with run have n': "n' = n" and h': "hs_classes h' = (hs_classes h)[i := c]"
    by (auto simp: dealloc_closure_def Let_def split: if_splits)
  note H = heap_wfD [OF wf i]
  note C = class_dealloc_cases [OF H(1) fr]
  from C H(2) have c: "class_wf ab (n, c)" "sc_object_size c = SIZE_CLASSES ! i" "n \<le> n"
    "page_bases c = page_bases ?c \<or> page_bases c = insert (ab + n * 4096) (page_bases ?c)" by auto
  note upd = heap_wf_update [OF wf i c h']
  have "x \<in> heap_blocks h' \<longleftrightarrow> x \<in> heap_blocks h - {(a, SIZE_CLASSES ! i)}" for x
  proof (cases "snd x = SIZE_CLASSES ! i")
    case True
    from C have "class_live c = class_live ?c - {a}" by blast
    with upd(2) [of x] heap_blocks_at [OF i True, of h] show ?thesis
      by (simp add: True prod_eq_iff)
  next
    case False
    from upd(2) [of x] show ?thesis by (simp add: False prod_eq_iff)
  qed
  with upd(1) n' show ?thesis by blast
qed

section \<open>The global allocator\<close>

definition heap_inv :: "nat \<Rightarrow> GlobalSlabHeap \<Rightarrow> bool" where
  "heap_inv ab g \<longleftrightarrow> heap_wf ab (gh_next_page g, cell_data (gh_cell g))"

definition live_blocks :: "GlobalSlabHeap \<Rightarrow> (nat \<times> nat) set" where
  "live_blocks g = heap_blocks (cell_data (gh_cell g))"

lemma heap_alloc_cases:
  assumes inv: "heap_inv ab g" and ab: "0 < ab" and al: "heap_alloc quiet_env ab g sz align = (g', a)"
  shows "heap_inv ab g'" and "a = 0 \<Longrightarrow> live_blocks g' = live_blocks g"
    and "a \<noteq> 0 \<Longrightarrow> \<exists>i < 10. class_for (max sz align) = Some i
      \<and> (a, SIZE_CLASSES ! i) \<notin> live_blocks g \<and> live_blocks g' = insert (a, SIZE_CLASSES ! i) (live_blocks g)"
proof -
  let ?s = "(gh_next_page g, gh_cell g)"
  have "heap_inv ab g' \<and> (if a = 0 then live_blocks g' = live_blocks g
      else \<exists>i < 10. class_for (max sz align) = Some i
        \<and> (a, SIZE_CLASSES ! i) \<notin> live_blocks g \<and> live_blocks g' = insert (a, SIZE_CLASSES ! i) (live_blocks g))"
  proof (cases "gh_ready g \<and> (\<exists>i. class_for (max sz align) = Some i) \<and> free_cell ?s")
    case False
    have "g' = g \<and> a = 0"
    proof (cases "class_for (max sz align)")
      case None
      with al show ?thesis by (auto simp: heap_alloc_def split: if_splits)
    next
      case (Some i)
      with False al show ?thesis
        by (cases "gh_ready g") (auto simp: heap_alloc_def mutate_quiet_held)
    qed
    with inv show ?thesis by simp
  next
    case True
    then obtain i where i: "class_for (max sz align) = Some i" by blast
    note i10 = class_for_Some(1) [OF i]
    obtain n h x where run: "alloc_closure ab i (gh_next_page g) (cell_data (gh_cell g)) = (n, h, x)"
      by (metis prod.exhaust)
    from True i al run have g': "g' = g\<lparr>gh_cell := \<lparr>cell_lock = UNLOCKED, cell_data = h\<rparr>, gh_next_page := n\<rparr>" "a = x"
      by (auto simp: heap_alloc_def mutate_quiet_free try_mutate_free)
    from alloc_closure_cases [OF inv [unfolded heap_inv_def] i10 ab run] i i10 show ?thesis
      unfolding g' heap_inv_def live_blocks_def by (auto split: if_splits)
  qed
  then show "heap_inv ab g'" "a = 0 \<Longrightarrow> live_blocks g' = live_blocks g"
    "a \<noteq> 0 \<Longrightarrow> \<exists>i < 10. class_for (max sz align) = Some i
      \<and> (a, SIZE_CLASSES ! i) \<notin> live_blocks g \<and> live_blocks g' = insert (a, SIZE_CLASSES ! i) (live_blocks g)"
    by (auto split: if_splits)
qed

lemma heap_dealloc_cases:
  assumes inv: "heap_inv ab g" and g': "g' = heap_dealloc quiet_env g a sz align"
  shows "heap_inv ab g'"
    and "free_cell (gh_next_page g, gh_cell g) \<Longrightarrow> a \<noteq> 0 \<Longrightarrow> class_for (max sz align) = Some i \<Longrightarrow>
      live_blocks g' = live_blocks g - {(a, SIZE_CLASSES ! i)}"
    and "live_blocks g' \<subseteq> live_blocks g"
proof -
  let ?s = "(gh_next_page g, gh_cell g)"
  have "heap_inv ab g' \<and> (if free_cell ?s \<and> a \<noteq> 0 \<and> (\<exists>i. class_for (max sz align) = Some i)
      then \<exists>i. class_for (max sz align) = Some i \<and> live_blocks g' = live_blocks g - {(a, SIZE_CLASSES ! i)}
      else live_blocks g' = live_blocks g)"
  proof (cases "free_cell ?s \<and> a \<noteq> 0 \<and> (\<exists>i. class_for (max sz align) = Some i)")
    case False
    have "g' = g"
      using False by (cases "class_for (max sz align)")
        (auto simp: g' heap_dealloc_def mutate_quiet_held)
    with inv False show ?thesis by auto
  next
    case True
    then obtain i where i: "class_for (max sz align) = Some i" by blast
    note i10 = class_for_Some(1) [OF i]
    obtain n h u where run: "dealloc_closure i a (gh_next_page g) (cell_data (gh_cell g)) = (n, h, u)"
      by (metis prod.exhaust)
    from True i run have g'': "g' = g\<lparr>gh_cell := \<lparr>cell_lock = UNLOCKED, cell_data = h\<rparr>, gh_next_page := n\<rparr>"
      by (auto simp: g' heap_dealloc_def mutate_quiet_free try_mutate_free)
    from dealloc_closure_cases [OF inv [unfolded heap_inv_def] i10 run] i True show ?thesis
      unfolding g'' heap_inv_def live_blocks_def by auto
  qed
  then show "heap_inv ab g'" "live_blocks g' \<subseteq> live_blocks g"
    "free_cell ?s \<Longrightarrow> a \<noteq> 0 \<Longrightarrow> class_for (max sz align) = Some i \<Longrightarrow>
      live_blocks g' = live_blocks g - {(a, SIZE_CLASSES ! i)}"
    by (auto split: if_splits)
qed

text \<open>
  Executions of the allocator: its two entry points and its initialisation, called by any thread in
  any order; \<open>Other\<close> steps set the lock word, as another participant that takes or releases the
  lock does.  The blocks handed out are the step's label.
\<close>

inductive heap_reachable :: "nat \<Rightarrow> GlobalSlabHeap \<Rightarrow> bool" for ab where
  start: "heap_reachable ab heap_new"
| init: "heap_reachable ab g \<Longrightarrow> heap_reachable ab (heap_init g)"
| allocate: "heap_reachable ab g \<Longrightarrow> heap_alloc quiet_env ab g sz align = (g', a) \<Longrightarrow> heap_reachable ab g'"
| deallocate: "heap_reachable ab g \<Longrightarrow> heap_reachable ab (heap_dealloc quiet_env g a sz align)"
| other: "heap_reachable ab g \<Longrightarrow> heap_reachable ab (g\<lparr>gh_cell := (gh_cell g)\<lparr>cell_lock := v\<rparr>\<rparr>)"

lemma heap_new_inv: "heap_inv ab heap_new" "live_blocks heap_new = {}"
proof -
  have c: "hs_classes heap_state_new ! i = slab_class_uninit (SIZE_CLASSES ! i)" if "i < 10" for i
    using that by (simp add: heap_state_new_def length_SIZE_CLASSES)
  have none: "page_bases (slab_class_uninit os) = {}" "class_live (slab_class_uninit os) = {}" for os
    by (simp_all add: page_bases_def class_live_def slab_class_uninit_def)
  have "class_wf ab (0, slab_class_uninit os)" if "os \<in> set SIZE_CLASSES" for os
    using that none(1) [of os] by (simp add: class_wf_def slab_class_uninit_def MAX_SLAB_PAGES_def)
  moreover have "length (hs_classes heap_state_new) = 10" by (simp add: heap_state_new_def SIZE_CLASSES_def)
  moreover have "sc_object_size (slab_class_uninit os) = os" for os by (simp add: slab_class_uninit_def)
  ultimately show "heap_inv ab heap_new"
    using c none class_size_nth by (simp add: heap_inv_def heap_new_def spooky_new_def heap_wf_def)
  show "live_blocks heap_new = {}"
    using c none by (simp add: live_blocks_def heap_new_def spooky_new_def heap_blocks_def)
qed

lemma heap_reachable_inv: "heap_reachable ab g \<Longrightarrow> 0 < ab \<Longrightarrow> heap_inv ab g"
proof (induction rule: heap_reachable.induct)
  case start
  show ?case by (rule heap_new_inv)
next
  case (allocate g sz align g' a)
  then show ?case using heap_alloc_cases(1) by blast
next
  case (deallocate g a sz align)
  then show ?case using heap_dealloc_cases(1) by blast
qed (simp_all add: heap_new_inv heap_inv_def heap_init_def)

lemma first_block:
  assumes "os \<in> set SIZE_CLASSES"
  shows "snd (class_alloc ab (0, slab_class_uninit os)) = Some ab"
proof -
  let ?p = "slab_page_new ab os"
  have grow: "class_grow ab 0 (slab_class_uninit os) = (1, (put_page (slab_class_uninit os) 0 ?p)\<lparr>sc_page_count := 1\<rparr>, Some ())"
    by (simp add: class_grow_def slab_class_uninit_def allocate_page_def USER_HEAP_PAGES_def MAX_SLAB_PAGES_def put_page_def)
  from slab_page_new_wf [OF assms, of ab] size_class_facts(4) [OF assms] obtain s where
    "\<forall>t < 4096 div os. s \<le> t" "alloc_slot ?p = (take_slot ?p s, Some (ab + s * os))"
    using alloc_slot_cases [of ?p] by (auto simp: slab_page_new_fields)
  with size_class_facts(4) [OF assms] have "alloc_slot ?p = (take_slot ?p 0, Some ab)" by (metis add_0_right le_zero_eq mult_0)
  moreover have "alloc_pages (slab_class_uninit os) [0..<sc_page_count (slab_class_uninit os)] = (slab_class_uninit os, None)"
    by (simp add: slab_class_uninit_def)
  moreover have "sc_pages (put_page (slab_class_uninit os) 0 ?p) ! 0 = Some ?p"
    by (simp add: put_page_def slab_class_uninit_def MAX_SLAB_PAGES_def)
  ultimately show ?thesis using grow by (simp add: class_alloc_def)
qed

lemma sample_alloc: "snd (heap_alloc quiet_env 4096 (heap_init heap_new) 24 8) = 4096"
proof -
  have cl: "class_for 24 = Some 2" by (simp add: class_for_def SIZE_CLASSES_def)
  have c: "hs_classes heap_state_new ! 2 = slab_class_uninit 32" by (simp add: heap_state_new_def SIZE_CLASSES_def)
  obtain n c' where "class_alloc 4096 (0, slab_class_uninit 32) = ((n, c'), Some 4096)"
    using first_block [of 32 4096] by (metis SIZE_CLASSES_def list.set_intros prod.collapse)
  then have "\<exists>n h. alloc_closure 4096 2 0 heap_state_new = (n, h, 4096)"
    by (simp add: alloc_closure_def c Let_def)
  moreover have "free_cell (0 :: nat, spooky_new heap_state_new)" by (simp add: free_cell_def spooky_new_def)
  ultimately show ?thesis
    by (auto simp: heap_alloc_def heap_init_def heap_new_def cl mutate_quiet_free try_mutate_free spooky_new_def)
qed

section \<open>Properties\<close>

text \<open>
  C2. The heap never overlaps itself.  In every state the allocator can reach, with the arena at any
  nonzero 4096-aligned address, the live blocks are pairwise disjoint address ranges inside the
  64-page arena, each of a size class and aligned to its size.
\<close>

theorem live_blocks_never_overlap:
  assumes "heap_reachable ab g" and "0 < ab" and "4096 dvd ab"
    and "x \<in> live_blocks g" and "y \<in> live_blocks g"
  shows "(x = y \<or> blocks_disjoint x y)
    \<and> ab \<le> fst x \<and> fst x + snd x \<le> ab + 64 * 4096 \<and> snd x \<in> set SIZE_CLASSES \<and> snd x dvd fst x"
proof -
  have inv: "heap_wf ab (gh_next_page g, cell_data (gh_cell g))"
    using heap_reachable_inv [OF assms(1,2)] by (simp add: heap_inv_def)
  have "x = y \<or> blocks_disjoint x y"
    using heap_blocks_disjoint [OF inv, of x y] assms(4,5) by (auto simp: live_blocks_def)
  moreover have "gh_next_page g \<le> 64" using class_wfD(1) [OF heap_wfD(1) [OF inv, of 0]] by simp
  ultimately show ?thesis
    using heap_block_place [OF inv assms(4) [unfolded live_blocks_def]] assms(3) by auto
qed

theorem live_blocks_never_overlap_witness:
  "\<exists>g x. heap_reachable 4096 g \<and> x \<in> live_blocks g \<and> 4096 \<le> fst x \<and> fst x + snd x \<le> 4096 + 64 * 4096"
proof -
  obtain g a where al: "heap_alloc quiet_env 4096 (heap_init heap_new) 24 8 = (g, a)" by fastforce
  have r0: "heap_reachable 4096 (heap_init heap_new)" by (intro heap_reachable.intros)
  then have r: "heap_reachable 4096 g" using al by (rule heap_reachable.allocate)
  have "a \<noteq> 0" using sample_alloc al by simp
  with heap_alloc_cases(3) [OF heap_reachable_inv [OF r0] _ al] obtain cs where x: "(a, cs) \<in> live_blocks g"
    by auto
  from live_blocks_never_overlap [OF r _ _ x x] r x show ?thesis by (intro exI [of _ g] exI [of _ "(a, cs)"]) simp
qed

text \<open>
  C28. Allocation hands out a fresh block that fits.  A non-null result is not among the live blocks,
  becomes live, lies clear of every other live block, is at least as large as size and alignment
  ask, and is aligned as asked (alignments are powers of two); a null result leaves the live blocks
  unchanged.
\<close>

theorem allocation_is_fresh_and_fits:
  assumes "heap_reachable ab g" and "0 < ab" and "4096 dvd ab" and "align = 2 ^ k"
    and "heap_alloc quiet_env ab g sz align = (g', a)"
  shows "if a = 0 then live_blocks g' = live_blocks g
    else \<exists>cs. sz \<le> cs \<and> align dvd a \<and> live_blocks g' = insert (a, cs) (live_blocks g)
       \<and> (a, cs) \<notin> live_blocks g \<and> (\<forall>y \<in> live_blocks g. blocks_disjoint (a, cs) y)"
proof -
  note inv = heap_reachable_inv [OF assms(1,2)]
  note A = heap_alloc_cases [OF inv assms(2,5)]
  show ?thesis
  proof (cases "a = 0")
    case False
    with A(3) obtain i where i: "i < 10" "class_for (max sz align) = Some i"
      and fresh: "(a, SIZE_CLASSES ! i) \<notin> live_blocks g"
      and live: "live_blocks g' = insert (a, SIZE_CLASSES ! i) (live_blocks g)" by blast
    let ?cs = "SIZE_CLASSES ! i"
    have inv': "heap_wf ab (gh_next_page g', cell_data (gh_cell g'))" using A(1) by (simp add: heap_inv_def)
    have mem: "(a, ?cs) \<in> heap_blocks (cell_data (gh_cell g'))" using live by (simp add: live_blocks_def)
    have big: "sz \<le> ?cs" "align \<le> ?cs" using class_for_Some(2) [OF i(2)] by simp_all
    obtain j where j: "?cs = 2 ^ j" using i(1) class_size_power by blast
    then have "align dvd ?cs" using big(2) assms(4) by (simp add: le_imp_power_dvd)
    moreover have "?cs dvd a" using heap_block_place(4) [OF inv' mem assms(3)] by simp
    ultimately have "align dvd a" by (rule dvd_trans)
    moreover have "blocks_disjoint (a, ?cs) y" if "y \<in> live_blocks g" for y
      using heap_blocks_disjoint [OF inv' mem, of y] that live fresh by (auto simp: live_blocks_def)
    ultimately show ?thesis using False big live fresh by auto
  qed (use A(2) in simp)
qed

theorem allocation_is_fresh_and_fits_witness:
  "\<exists>g' cs. heap_alloc quiet_env 4096 (heap_init heap_new) 24 8 = (g', 4096)
     \<and> 24 \<le> cs \<and> live_blocks g' = insert (4096, cs) (live_blocks (heap_init heap_new))"
proof -
  obtain g' a where al: "heap_alloc quiet_env 4096 (heap_init heap_new) 24 8 = (g', a)" by fastforce
  have a: "a = 4096" using sample_alloc al by simp
  have r: "heap_reachable 4096 (heap_init heap_new)" by (intro heap_reachable.intros)
  have p: "(8 :: nat) = 2 ^ 3" by simp
  from allocation_is_fresh_and_fits [OF r _ _ p al] al a show ?thesis by auto
qed



text \<open>
  Slab tokens round-trip: class, page and slot are read back from the packed word, and no two
  descriptors share a token.
\<close>

theorem slab_token_roundtrip:
  "token_class (token_pack c p s) = c \<and> token_page (token_pack c p s) = p \<and> token_slot (token_pack c p s) = s"
proof -
  have "token_class (token_pack c p s) = c"
    by (rule bit_word_eqI) (auto simp: token_class_def token_pack_def bit_unsigned_iff bit_drop_bit_eq
        bit_or_iff bit_push_bit_iff dest: bit_imp_le_length)
  moreover have "token_page (token_pack c p s) = p"
    by (rule bit_word_eqI) (auto simp: token_page_def token_pack_def bit_unsigned_iff bit_drop_bit_eq
        bit_or_iff bit_push_bit_iff dest: bit_imp_le_length)
  moreover have "token_slot (token_pack c p s) = s"
    by (rule bit_word_eqI) (auto simp: token_slot_def token_pack_def bit_unsigned_iff
        bit_or_iff bit_push_bit_iff dest: bit_imp_le_length)
  ultimately show ?thesis by simp
qed

end
