(* ===== verification/Relativistic.thy ===== *)
theory Relativistic
  imports Slope_Prelude
begin

text \<open>
  Relativistic pointers, \<open>memory/relativistic.rs\<close>: an address with its origin epoch, resolved
  against a current epoch.  The \<open>TimelineResolver\<close> trait is the parameter \<open>resolver\<close>; a
  \<open>NonNull\<close> address is a nonzero word.
\<close>

definition MAXIMUM_DIRECT_EPOCH_DELTA :: u64 where "MAXIMUM_DIRECT_EPOCH_DELTA = 10000"

datatype RelativisticError = FutureEpoch | Revoked

record RelativisticPtr =
  rel_address :: usize
  rel_origin_epoch :: u64
  rel_thread_velocity :: u16

definition nonnull_new :: "usize \<Rightarrow> usize option" where
  "nonnull_new a = (if a = 0 then None else Some a)"

definition relativistic_from_raw :: "usize \<Rightarrow> u64 \<Rightarrow> u16 \<Rightarrow> RelativisticPtr option" where
  "relativistic_from_raw address origin_epoch thread_velocity =
    map_option (\<lambda>a. \<lparr>rel_address = a, rel_origin_epoch = origin_epoch,
      rel_thread_velocity = thread_velocity\<rparr>) (nonnull_new address)"

definition relativistic_resolve ::
  "(usize \<Rightarrow> u64 \<Rightarrow> u64 \<Rightarrow> usize option) \<Rightarrow> RelativisticPtr \<Rightarrow> u64
    \<Rightarrow> (RelativisticError, usize) result" where
  "relativistic_resolve resolver p current_epoch =
    and_then (ok_or FutureEpoch (checked_sub current_epoch (rel_origin_epoch p)))
      (\<lambda>delta. if delta \<le> MAXIMUM_DIRECT_EPOCH_DELTA then Ok (rel_address p)
        else ok_or Revoked (resolver (rel_address p) (rel_origin_epoch p) current_epoch))"

text \<open>
  Epoch resolution: a pointer built from a raw address resolves to that address exactly while
  the current epoch is at most 10000 past its origin; before the origin it is refused, and later
  only the resolver's answer counts, so a revoked mapping is never handed out.
\<close>

theorem relativistic_resolution:
  assumes "relativistic_from_raw a e v = Some p"
  shows "relativistic_resolve r p now =
    (if now < e then Err FutureEpoch
     else if unat now \<le> unat e + 10000 then Ok a
     else (case r a e now of None \<Rightarrow> Err Revoked | Some b \<Rightarrow> Ok b))"
proof -
  from assms have p: "rel_address p = a" "rel_origin_epoch p = e"
    by (auto simp: relativistic_from_raw_def nonnull_new_def split: if_splits)
  show ?thesis
  proof (cases "now < e")
    case True
    then have "\<not> e \<le> now" by simp
    with True show ?thesis by (simp add: relativistic_resolve_def p checked_sub_def)
  next
    case False
    then have "unat (now - e) = unat now - unat e" and "unat e \<le> unat now"
      by (simp_all add: unat_sub word_le_nat_alt not_less)
    then have "now - e \<le> MAXIMUM_DIRECT_EPOCH_DELTA \<longleftrightarrow> unat now \<le> unat e + 10000"
      unfolding word_le_nat_alt MAXIMUM_DIRECT_EPOCH_DELTA_def by auto
    moreover from False have "e \<le> now" by simp
    ultimately show ?thesis
      using False by (simp add: relativistic_resolve_def p checked_sub_def ok_or_def)
  qed
qed

theorem relativistic_resolution_witness:
  "\<exists>p. relativistic_from_raw 0x1000 7 3 = Some p
     \<and> relativistic_resolve (\<lambda>_ _ _. Some 0x2000) p 10008 = Ok 0x2000"
proof -
  obtain p where p: "relativistic_from_raw 0x1000 7 3 = Some p"
    by (simp add: relativistic_from_raw_def nonnull_new_def)
  from relativistic_resolution [OF p, of "\<lambda>_ _ _. Some 0x2000" 10008] p show ?thesis by simp
qed

end
