(* ===== verification/Spsc_Ring.thy ===== *)
theory Spsc_Ring
  imports Bounded_Queue Repr_C
begin

text \<open>
  The bounded message ring of \<open>ipc.rs\<close>: \<open>ChannelMessage\<close>, the slot states and \<open>SpscRing\<close> with
  \<open>send\<close>, \<open>recv\<close> and \<open>is_empty\<close>, first as whole calls, then as the atomic steps of one producer
  and one consumer running concurrently.  Each index word is written by one side only, so a side's
  load of its own index and the compare-exchange on the slot form one step.
\<close>

section \<open>Model\<close>

definition CHANNEL_DEPTH :: nat where "CHANNEL_DEPTH = 128"
definition MESSAGE_BYTES :: nat where "MESSAGE_BYTES = 64"
definition PAYLOAD_BYTES :: nat where "PAYLOAD_BYTES = 48"

record ChannelMessage =
  msg_capability :: u64
  msg_tag :: u32
  msg_sequence :: u32
  msg_payload :: bytes

definition ChannelMessage_layout :: layout where
  "ChannelMessage_layout = repr_c_align 64 [U64, U32, U32, array_layout PAYLOAD_BYTES U8]"

definition message_empty :: ChannelMessage where
  "message_empty = \<lparr>msg_capability = 0, msg_tag = 0, msg_sequence = 0,
     msg_payload = replicate PAYLOAD_BYTES 0\<rparr>"

definition with_tag :: "u32 \<Rightarrow> ChannelMessage" where
  "with_tag tag = \<lparr>msg_capability = 0, msg_tag = tag, msg_sequence = 0,
     msg_payload = replicate PAYLOAD_BYTES 0\<rparr>"

definition with_payload :: "u32 \<Rightarrow> bytes \<Rightarrow> ChannelMessage" where
  "with_payload tag data =
    (let message = with_tag tag;
         len = min (length data) PAYLOAD_BYTES
     in message\<lparr>msg_payload := copy_prefix (msg_payload message) (take len data)\<rparr>)"

definition SLOT_EMPTY :: u64 where "SLOT_EMPTY = 0"
definition SLOT_WRITING :: u64 where "SLOT_WRITING = 1"
definition SLOT_READY :: u64 where "SLOT_READY = 2"
definition SLOT_READING :: u64 where "SLOT_READING = 3"

lemmas slot_states = SLOT_EMPTY_def SLOT_WRITING_def SLOT_READY_def SLOT_READING_def

record RingSlot =
  slot_state :: u64
  slot_message :: ChannelMessage

definition ring_slot_new :: RingSlot where
  "ring_slot_new = \<lparr>slot_state = SLOT_EMPTY, slot_message = message_empty\<rparr>"

record SpscRing =
  ring_producer :: u32
  ring_consumer :: u32
  ring_slots :: "RingSlot list"

datatype ChannelError = ChannelFull

definition ring_new :: SpscRing where
  "ring_new = \<lparr>ring_producer = 0, ring_consumer = 0,
     ring_slots = replicate CHANNEL_DEPTH ring_slot_new\<rparr>"

definition slot_cas :: "SpscRing \<Rightarrow> nat \<Rightarrow> u64 \<Rightarrow> u64 \<Rightarrow> SpscRing option" where
  "slot_cas r i expected new =
    (if slot_state (ring_slots r ! i) = expected
     then Some (r\<lparr>ring_slots := (ring_slots r)[i := (ring_slots r ! i)\<lparr>slot_state := new\<rparr>]\<rparr>)
     else None)"

definition put_state :: "SpscRing \<Rightarrow> nat \<Rightarrow> u64 \<Rightarrow> SpscRing" where
  "put_state r i v = r\<lparr>ring_slots := (ring_slots r)[i := (ring_slots r ! i)\<lparr>slot_state := v\<rparr>]\<rparr>"

definition put_message :: "SpscRing \<Rightarrow> nat \<Rightarrow> ChannelMessage \<Rightarrow> SpscRing" where
  "put_message r i m = r\<lparr>ring_slots := (ring_slots r)[i := (ring_slots r ! i)\<lparr>slot_message := m\<rparr>]\<rparr>"

definition ring_send :: "SpscRing \<Rightarrow> ChannelMessage \<Rightarrow> SpscRing \<times> (ChannelError, unit) result" where
  "ring_send r message =
    (let head = unat (ring_producer r); i = head mod CHANNEL_DEPTH in
     case slot_cas r i SLOT_EMPTY SLOT_WRITING of
       None \<Rightarrow> (r, Err ChannelFull)
     | Some r1 \<Rightarrow>
         let r2 = put_message r1 i message;
             r3 = put_state r2 i SLOT_READY;
             r4 = r3\<lparr>ring_producer := of_nat ((head + 1) mod CHANNEL_DEPTH)\<rparr>
         in (r4, Ok ()))"

definition ring_recv :: "SpscRing \<Rightarrow> SpscRing \<times> ChannelMessage option" where
  "ring_recv r =
    (let tail = unat (ring_consumer r); i = tail mod CHANNEL_DEPTH in
     case slot_cas r i SLOT_READY SLOT_READING of
       None \<Rightarrow> (r, None)
     | Some r1 \<Rightarrow>
         let message = slot_message (ring_slots r1 ! i);
             r2 = put_state r1 i SLOT_EMPTY;
             r3 = r2\<lparr>ring_consumer := of_nat ((tail + 1) mod CHANNEL_DEPTH)\<rparr>
         in (r3, Some message))"

definition ring_is_empty :: "SpscRing \<Rightarrow> bool" where
  "ring_is_empty r \<longleftrightarrow>
     slot_state (ring_slots r ! (unat (ring_consumer r) mod CHANNEL_DEPTH)) \<noteq> SLOT_READY"

section \<open>Concurrent producer and consumer\<close>

datatype producer_pc = P_Idle | P_Claimed nat ChannelMessage | P_Written nat ChannelMessage | P_Ready nat
datatype consumer_pc = C_Idle | C_Claimed nat | C_Fetched nat ChannelMessage | C_Released nat

record ring_sys =
  rs_ring :: SpscRing
  rs_prod :: producer_pc
  rs_cons :: consumer_pc
  rs_sent :: "ChannelMessage list"
  rs_recvd :: "ChannelMessage list"

definition ring_sys_init :: ring_sys where
  "ring_sys_init = \<lparr>rs_ring = ring_new, rs_prod = P_Idle, rs_cons = C_Idle, rs_sent = [], rs_recvd = []\<rparr>"

inductive ring_step :: "ring_sys \<Rightarrow> ring_sys \<Rightarrow> bool" where
  send_claim: "rs_prod s = P_Idle \<Longrightarrow> head = unat (ring_producer (rs_ring s)) \<Longrightarrow>
    slot_cas (rs_ring s) (head mod CHANNEL_DEPTH) SLOT_EMPTY SLOT_WRITING = Some r \<Longrightarrow>
    ring_step s (s\<lparr>rs_ring := r, rs_prod := P_Claimed head m\<rparr>)"
| send_full: "rs_prod s = P_Idle \<Longrightarrow> head = unat (ring_producer (rs_ring s)) \<Longrightarrow>
    slot_cas (rs_ring s) (head mod CHANNEL_DEPTH) SLOT_EMPTY SLOT_WRITING = None \<Longrightarrow>
    ring_step s s"
| send_write: "rs_prod s = P_Claimed head m \<Longrightarrow>
    ring_step s (s\<lparr>rs_ring := put_message (rs_ring s) (head mod CHANNEL_DEPTH) m, rs_prod := P_Written head m\<rparr>)"
| send_ready: "rs_prod s = P_Written head m \<Longrightarrow>
    ring_step s (s\<lparr>rs_ring := put_state (rs_ring s) (head mod CHANNEL_DEPTH) SLOT_READY,
      rs_prod := P_Ready head, rs_sent := rs_sent s @ [m]\<rparr>)"
| send_index: "rs_prod s = P_Ready head \<Longrightarrow>
    ring_step s (s\<lparr>rs_ring := (rs_ring s)\<lparr>ring_producer := of_nat ((head + 1) mod CHANNEL_DEPTH)\<rparr>,
      rs_prod := P_Idle\<rparr>)"
| recv_claim: "rs_cons s = C_Idle \<Longrightarrow> tail = unat (ring_consumer (rs_ring s)) \<Longrightarrow>
    slot_cas (rs_ring s) (tail mod CHANNEL_DEPTH) SLOT_READY SLOT_READING = Some r \<Longrightarrow>
    ring_step s (s\<lparr>rs_ring := r, rs_cons := C_Claimed tail\<rparr>)"
| recv_none: "rs_cons s = C_Idle \<Longrightarrow> tail = unat (ring_consumer (rs_ring s)) \<Longrightarrow>
    slot_cas (rs_ring s) (tail mod CHANNEL_DEPTH) SLOT_READY SLOT_READING = None \<Longrightarrow>
    ring_step s s"
| recv_read: "rs_cons s = C_Claimed tail \<Longrightarrow>
    ring_step s (s\<lparr>rs_cons := C_Fetched tail (slot_message (ring_slots (rs_ring s) ! (tail mod CHANNEL_DEPTH)))\<rparr>)"
| recv_release: "rs_cons s = C_Fetched tail m \<Longrightarrow>
    ring_step s (s\<lparr>rs_ring := put_state (rs_ring s) (tail mod CHANNEL_DEPTH) SLOT_EMPTY,
      rs_cons := C_Released tail, rs_recvd := rs_recvd s @ [m]\<rparr>)"
| recv_index: "rs_cons s = C_Released tail \<Longrightarrow>
    ring_step s (s\<lparr>rs_ring := (rs_ring s)\<lparr>ring_consumer := of_nat ((tail + 1) mod CHANNEL_DEPTH)\<rparr>,
      rs_cons := C_Idle\<rparr>)"

inductive ring_reachable :: "ring_sys \<Rightarrow> bool" where
  start: "ring_reachable ring_sys_init"
| step: "ring_reachable s \<Longrightarrow> ring_step s t \<Longrightarrow> ring_reachable t"

section \<open>Index arithmetic\<close>

lemma mod_window_inj:
  fixes k l :: nat
  assumes "k mod n = l mod n" and "R \<le> k" "k < R + n" "R \<le> l" "l < R + n"
  shows "k = l"
proof -
  have aux: "l = k" if "k \<le> l" "k mod n = l mod n" "R \<le> k" "l < R + n" for k l :: nat
  proof -
    from that have "n dvd l - k" by (metis mod_eq_dvd_iff_nat)
    moreover have "l - k < n" using that by linarith
    ultimately have "l - k = 0" by (metis dvd_imp_le not_le neq0_conv)
    with that show ?thesis by simp
  qed
  show ?thesis using aux [of k l] aux [of l k] assms by (metis nat_le_linear)
qed

lemma unat_index [simp]: "unat (of_nat (k mod 128) :: u32) = k mod 128"
  by (simp add: unat_of_nat take_bit_nat_eq_self less_trans [OF mod_less_divisor])

section \<open>Slots and histories\<close>

text \<open>
  The slots hold the messages numbered \<open>R\<close> to \<open>S - 1\<close> of the sent history, message \<open>l\<close> in slot
  \<open>l mod 128\<close>; the flags say whether the consumer is inside message \<open>R\<close> and the producer inside
  message \<open>S\<close>.
\<close>

definition cell_state :: "nat \<Rightarrow> nat \<Rightarrow> bool \<Rightarrow> bool \<Rightarrow> nat \<Rightarrow> u64" where
  "cell_state R S rd wr l =
    (if l < S then if l = R \<and> rd then SLOT_READING else SLOT_READY
     else if l = S \<and> wr then SLOT_WRITING else SLOT_EMPTY)"

definition ring_cells ::
  "RingSlot list \<Rightarrow> nat \<Rightarrow> nat \<Rightarrow> bool \<Rightarrow> bool \<Rightarrow> ChannelMessage list \<Rightarrow> bool" where
  "ring_cells sl R S rd wr sent \<longleftrightarrow>
     length sl = 128 \<and> length sent = S \<and> R \<le> S \<and> S \<le> R + 128 \<and> (rd \<longrightarrow> R < S) \<and> (wr \<longrightarrow> S < R + 128)
   \<and> (\<forall>l. R \<le> l \<longrightarrow> l < R + 128 \<longrightarrow>
        slot_state (sl ! (l mod 128)) = cell_state R S rd wr l
      \<and> (l < S \<longrightarrow> slot_message (sl ! (l mod 128)) = sent ! l))"

lemma ring_cellsD:
  assumes "ring_cells sl R S rd wr sent"
  shows "length sl = 128" "length sent = S" "R \<le> S" "S \<le> R + 128" "rd \<Longrightarrow> R < S" "wr \<Longrightarrow> S < R + 128"
    "R \<le> l \<Longrightarrow> l < R + 128 \<Longrightarrow> slot_state (sl ! (l mod 128)) = cell_state R S rd wr l"
    "R \<le> l \<Longrightarrow> l < S \<Longrightarrow> slot_message (sl ! (l mod 128)) = sent ! l"
  using assms by (auto simp: ring_cells_def)

lemma window_update:
  assumes "length sl = 128" and "R \<le> i" "i < R + 128" "R \<le> l" "l < R + 128"
  shows "(sl[i mod 128 := x]) ! (l mod 128) = (if l = i then x else sl ! (l mod 128))"
proof (cases "l = i")
  case True
  with assms show ?thesis by simp
next
  case False
  have "i mod 128 \<noteq> l mod 128" using mod_window_inj [of i 128 l R] assms False by auto
  with False show ?thesis by simp
qed

lemma states_distinct:
  "SLOT_EMPTY \<noteq> SLOT_WRITING" "SLOT_EMPTY \<noteq> SLOT_READY" "SLOT_EMPTY \<noteq> SLOT_READING"
  "SLOT_WRITING \<noteq> SLOT_READY" "SLOT_WRITING \<noteq> SLOT_READING" "SLOT_READY \<noteq> SLOT_READING"
  by (simp_all add: slot_states)

lemma cells_claim_write:
  assumes c: "ring_cells sl R S rd False sent" and e: "slot_state (sl ! (S mod 128)) = SLOT_EMPTY"
  shows "S < R + 128" and "ring_cells (sl[S mod 128 := (sl ! (S mod 128))\<lparr>slot_state := SLOT_WRITING\<rparr>]) R S rd True sent"
proof -
  note C = ring_cellsD [OF c]
  show lt: "S < R + 128"
  proof (rule ccontr)
    assume "\<not> S < R + 128"
    then have S: "S = R + 128" using C(4) by simp
    then have "slot_state (sl ! (R mod 128)) = SLOT_EMPTY" using e by simp
    moreover have "slot_state (sl ! (R mod 128)) = cell_state R S rd False R" using C(7) by simp
    ultimately show False using S by (auto simp: cell_state_def slot_states split: if_splits)
  qed
  show "ring_cells (sl[S mod 128 := (sl ! (S mod 128))\<lparr>slot_state := SLOT_WRITING\<rparr>]) R S rd True sent"
    unfolding ring_cells_def using C lt
    by (simp add: window_update [where R = R]) (simp add: cell_state_def)
qed

lemma cells_write:
  assumes c: "ring_cells sl R S rd True sent"
  shows "ring_cells (sl[S mod 128 := (sl ! (S mod 128))\<lparr>slot_message := m\<rparr>]) R S rd True sent"
proof -
  note C = ring_cellsD [OF c]
  have lt: "S < R + 128" using C(6) by simp
  have "slot_state (sl ! (S mod 128)) = cell_state R S rd True S" using C(3,7) lt by simp
  then show ?thesis unfolding ring_cells_def using C lt by (simp add: window_update [where R = R])
qed

lemma cells_publish:
  assumes c: "ring_cells sl R S rd True sent" and m: "slot_message (sl ! (S mod 128)) = m"
  shows "ring_cells (sl[S mod 128 := (sl ! (S mod 128))\<lparr>slot_state := SLOT_READY\<rparr>]) R (Suc S) rd False (sent @ [m])"
proof -
  note C = ring_cellsD [OF c]
  have lt: "S < R + 128" using C(6) by simp
  have "slot_state ((sl[S mod 128 := (sl ! (S mod 128))\<lparr>slot_state := SLOT_READY\<rparr>]) ! (l mod 128)) = cell_state R (Suc S) rd False l
      \<and> (l < Suc S \<longrightarrow> slot_message ((sl[S mod 128 := (sl ! (S mod 128))\<lparr>slot_state := SLOT_READY\<rparr>]) ! (l mod 128)) = (sent @ [m]) ! l)"
    if l: "R \<le> l" "l < R + 128" for l
  proof (cases "l = S")
    case True
    have "\<not> (S = R \<and> rd)" using C(5) by auto
    with True show ?thesis using C(1-3) lt m
      by (auto simp add: window_update [where R = R] cell_state_def nth_append)
  next
    case False
    with l C(1-3) lt C(7,8) [of l] show ?thesis
      by (simp add: window_update [where R = R] cell_state_def nth_append)
  qed
  with C lt show ?thesis by (simp add: ring_cells_def)
qed

lemma cells_claim_read:
  assumes c: "ring_cells sl R S False wr sent" and e: "slot_state (sl ! (R mod 128)) = SLOT_READY"
  shows "R < S" and "ring_cells (sl[R mod 128 := (sl ! (R mod 128))\<lparr>slot_state := SLOT_READING\<rparr>]) R S True wr sent"
proof -
  note C = ring_cellsD [OF c]
  have "cell_state R S False wr R = SLOT_READY" using C(7) [of R] e by simp
  then show lt: "R < S" using C(3) by (auto simp: cell_state_def slot_states split: if_splits)
  show "ring_cells (sl[R mod 128 := (sl ! (R mod 128))\<lparr>slot_state := SLOT_READING\<rparr>]) R S True wr sent"
    unfolding ring_cells_def using C lt
    by (simp add: window_update [where R = R]) (simp add: cell_state_def)
qed

lemma cells_release:
  assumes c: "ring_cells sl R S True wr sent"
  shows "ring_cells (sl[R mod 128 := (sl ! (R mod 128))\<lparr>slot_state := SLOT_EMPTY\<rparr>]) (Suc R) S False wr sent"
proof -
  note C = ring_cellsD [OF c]
  have lt: "R < S" using C(5) by simp
  have "slot_state ((sl[R mod 128 := (sl ! (R mod 128))\<lparr>slot_state := SLOT_EMPTY\<rparr>]) ! (l mod 128)) = cell_state (Suc R) S False wr l
      \<and> (l < S \<longrightarrow> slot_message ((sl[R mod 128 := (sl ! (R mod 128))\<lparr>slot_state := SLOT_EMPTY\<rparr>]) ! (l mod 128)) = sent ! l)"
    if l: "Suc R \<le> l" "l < Suc R + 128" for l
  proof (cases "l = R + 128")
    case True
    then show ?thesis using C(1,4,6) by (auto simp: cell_state_def)
  next
    case False
    with l have "R \<le> l" "l < R + 128" "l \<noteq> R" by simp_all
    with C(1) C(7,8) [of l] show ?thesis by (simp add: window_update [where R = R] cell_state_def)
  qed
  with C lt show ?thesis by (simp add: ring_cells_def)
qed

section \<open>Invariant of the concurrent ring\<close>

fun producing :: "producer_pc \<Rightarrow> bool" where
  "producing P_Idle = False"
| "producing (P_Claimed _ _) = True"
| "producing (P_Written _ _) = True"
| "producing (P_Ready _) = False"

fun consuming :: "consumer_pc \<Rightarrow> bool" where
  "consuming C_Idle = False"
| "consuming (C_Claimed _) = True"
| "consuming (C_Fetched _ _) = True"
| "consuming (C_Released _) = False"

fun producer_ok :: "SpscRing \<Rightarrow> nat \<Rightarrow> producer_pc \<Rightarrow> bool" where
  "producer_ok r S P_Idle = (unat (ring_producer r) = S mod 128)"
| "producer_ok r S (P_Claimed h m) = (h mod 128 = S mod 128)"
| "producer_ok r S (P_Written h m) = (h mod 128 = S mod 128 \<and> slot_message (ring_slots r ! (S mod 128)) = m)"
| "producer_ok r S (P_Ready h) = ((h + 1) mod 128 = S mod 128)"

fun consumer_ok :: "SpscRing \<Rightarrow> nat \<Rightarrow> ChannelMessage list \<Rightarrow> consumer_pc \<Rightarrow> bool" where
  "consumer_ok r R sent C_Idle = (unat (ring_consumer r) = R mod 128)"
| "consumer_ok r R sent (C_Claimed t) = (t mod 128 = R mod 128)"
| "consumer_ok r R sent (C_Fetched t m) = (t mod 128 = R mod 128 \<and> sent ! R = m)"
| "consumer_ok r R sent (C_Released t) = ((t + 1) mod 128 = R mod 128)"

definition ring_inv :: "ring_sys \<Rightarrow> bool" where
  "ring_inv s \<longleftrightarrow>
     ring_cells (ring_slots (rs_ring s)) (length (rs_recvd s)) (length (rs_sent s))
       (consuming (rs_cons s)) (producing (rs_prod s)) (rs_sent s)
   \<and> rs_recvd s = take (length (rs_recvd s)) (rs_sent s)
   \<and> producer_ok (rs_ring s) (length (rs_sent s)) (rs_prod s)
   \<and> consumer_ok (rs_ring s) (length (rs_recvd s)) (rs_sent s) (rs_cons s)"

lemma ring_fields [simp]:
  "ring_slots (put_state r i v) = (ring_slots r)[i := (ring_slots r ! i)\<lparr>slot_state := v\<rparr>]"
  "ring_producer (put_state r i v) = ring_producer r" "ring_consumer (put_state r i v) = ring_consumer r"
  "ring_slots (put_message r i m) = (ring_slots r)[i := (ring_slots r ! i)\<lparr>slot_message := m\<rparr>]"
  "ring_producer (put_message r i m) = ring_producer r" "ring_consumer (put_message r i m) = ring_consumer r"
  by (simp_all add: put_state_def put_message_def)

lemma slot_cas_Some_iff:
  "slot_cas r i e v = Some r' \<longleftrightarrow> slot_state (ring_slots r ! i) = e \<and> r' = put_state r i v"
  by (auto simp: slot_cas_def put_state_def)

lemma producer_ok_frame:
  assumes "producer_ok r S pc" and "ring_producer r' = ring_producer r"
    and "slot_message (ring_slots r' ! (S mod 128)) = slot_message (ring_slots r ! (S mod 128))"
  shows "producer_ok r' S pc"
  using assms by (cases pc) auto

lemma consumer_ok_frame:
  assumes "consumer_ok r R sent pc" and "ring_consumer r' = ring_consumer r"
    and "consuming pc \<Longrightarrow> sent' ! R = sent ! R"
  shows "consumer_ok r' R sent' pc"
  using assms by (cases pc) auto

lemma message_kept:
  assumes "length sl = 128"
  shows "slot_message ((sl[i := (sl ! i)\<lparr>slot_state := v\<rparr>]) ! (k mod 128)) = slot_message (sl ! (k mod 128))"
  using assms by (cases "i = k mod 128") auto

lemma next_index: "k mod 128 = (l :: nat) mod 128 \<Longrightarrow> (k + 1) mod 128 = (l + 1) mod 128"
  by (metis mod_add_left_eq)

text \<open>The parts of the invariant, and one preservation lemma per step that changes the ring.\<close>

lemma ring_invD:
  assumes "ring_inv s"
  shows "ring_cells (ring_slots (rs_ring s)) (length (rs_recvd s)) (length (rs_sent s))
      (consuming (rs_cons s)) (producing (rs_prod s)) (rs_sent s)"
    and "rs_recvd s = take (length (rs_recvd s)) (rs_sent s)"
    and "producer_ok (rs_ring s) (length (rs_sent s)) (rs_prod s)"
    and "consumer_ok (rs_ring s) (length (rs_recvd s)) (rs_sent s) (rs_cons s)"
  using assms by (simp_all add: ring_inv_def)

lemma inv_send_claim:
  assumes inv: "ring_inv s" and pc: "rs_prod s = P_Idle"
    and cas: "slot_cas (rs_ring s) (unat (ring_producer (rs_ring s)) mod CHANNEL_DEPTH) SLOT_EMPTY SLOT_WRITING = Some r"
  shows "ring_inv (s\<lparr>rs_ring := r, rs_prod := P_Claimed (unat (ring_producer (rs_ring s))) m\<rparr>)"
proof -
  let ?S = "length (rs_sent s)"
  note I = ring_invD [OF inv]
  from I(3) pc have idx: "unat (ring_producer (rs_ring s)) = ?S mod 128" by simp
  with cas have e: "slot_state (ring_slots (rs_ring s) ! (?S mod 128)) = SLOT_EMPTY"
    and r: "r = put_state (rs_ring s) (?S mod 128) SLOT_WRITING"
    by (simp_all add: slot_cas_Some_iff CHANNEL_DEPTH_def)
  from I(1) pc have cells: "ring_cells (ring_slots (rs_ring s)) (length (rs_recvd s)) ?S (consuming (rs_cons s)) False (rs_sent s)"
    by simp
  from cells_claim_write(2) [OF cells e] I(2) consumer_ok_frame [OF I(4)] show ?thesis
    by (simp add: ring_inv_def r idx)
qed

lemma inv_send_write:
  assumes inv: "ring_inv s" and pc: "rs_prod s = P_Claimed head m"
  shows "ring_inv (s\<lparr>rs_ring := put_message (rs_ring s) (head mod CHANNEL_DEPTH) m, rs_prod := P_Written head m\<rparr>)"
proof -
  note I = ring_invD [OF inv]
  from I(3) pc have idx: "head mod 128 = length (rs_sent s) mod 128" by simp
  have len: "length (ring_slots (rs_ring s)) = 128" by (rule ring_cellsD(1) [OF I(1)])
  from I(1) pc have "ring_cells (ring_slots (rs_ring s)) (length (rs_recvd s)) (length (rs_sent s))
      (consuming (rs_cons s)) True (rs_sent s)" by simp
  from cells_write [OF this] len I(2) consumer_ok_frame [OF I(4)] show ?thesis
    by (simp add: ring_inv_def idx CHANNEL_DEPTH_def)
qed

lemma inv_send_ready:
  assumes inv: "ring_inv s" and pc: "rs_prod s = P_Written head m"
  shows "ring_inv (s\<lparr>rs_ring := put_state (rs_ring s) (head mod CHANNEL_DEPTH) SLOT_READY,
      rs_prod := P_Ready head, rs_sent := rs_sent s @ [m]\<rparr>)"
proof -
  let ?S = "length (rs_sent s)" and ?R = "length (rs_recvd s)"
  note I = ring_invD [OF inv]
  from I(3) pc have idx: "head mod 128 = ?S mod 128"
    and msg: "slot_message (ring_slots (rs_ring s) ! (?S mod 128)) = m" by simp_all
  from I(1) pc have cells: "ring_cells (ring_slots (rs_ring s)) ?R ?S (consuming (rs_cons s)) True (rs_sent s)"
    by simp
  have R: "?R \<le> ?S" "consuming (rs_cons s) \<Longrightarrow> ?R < ?S"
    using ring_cellsD(3,5) [OF cells] by simp_all
  then have "consumer_ok (put_state (rs_ring s) (?S mod 128) SLOT_READY) ?R (rs_sent s @ [m]) (rs_cons s)"
    by (intro consumer_ok_frame [OF I(4)]) (simp_all add: nth_append)
  with cells_publish [OF cells msg] I(2) R(1) next_index [OF idx] show ?thesis
    by (simp add: ring_inv_def idx CHANNEL_DEPTH_def)
qed

lemma inv_send_index:
  assumes inv: "ring_inv s" and pc: "rs_prod s = P_Ready head"
  shows "ring_inv (s\<lparr>rs_ring := (rs_ring s)\<lparr>ring_producer := of_nat ((head + 1) mod CHANNEL_DEPTH)\<rparr>,
      rs_prod := P_Idle\<rparr>)"
proof -
  note I = ring_invD [OF inv]
  have "consumer_ok ((rs_ring s)\<lparr>ring_producer := v\<rparr>) (length (rs_recvd s)) (rs_sent s) (rs_cons s)" for v
    by (rule consumer_ok_frame [OF I(4)]) simp_all
  with I pc show ?thesis by (simp add: ring_inv_def CHANNEL_DEPTH_def)
qed

lemma inv_recv_claim:
  assumes inv: "ring_inv s" and pc: "rs_cons s = C_Idle"
    and cas: "slot_cas (rs_ring s) (unat (ring_consumer (rs_ring s)) mod CHANNEL_DEPTH) SLOT_READY SLOT_READING = Some r"
  shows "ring_inv (s\<lparr>rs_ring := r, rs_cons := C_Claimed (unat (ring_consumer (rs_ring s)))\<rparr>)"
proof -
  let ?S = "length (rs_sent s)" and ?R = "length (rs_recvd s)"
  note I = ring_invD [OF inv]
  from I(4) pc have idx: "unat (ring_consumer (rs_ring s)) = ?R mod 128" by simp
  with cas have e: "slot_state (ring_slots (rs_ring s) ! (?R mod 128)) = SLOT_READY"
    and r: "r = put_state (rs_ring s) (?R mod 128) SLOT_READING"
    by (simp_all add: slot_cas_Some_iff CHANNEL_DEPTH_def)
  from I(1) pc have cells: "ring_cells (ring_slots (rs_ring s)) ?R ?S False (producing (rs_prod s)) (rs_sent s)"
    by simp
  have "producer_ok r ?S (rs_prod s)"
    using ring_cellsD(1) [OF cells] by (intro producer_ok_frame [OF I(3)]) (simp_all add: r message_kept)
  with cells_claim_read(2) [OF cells e] I(2) show ?thesis by (simp add: ring_inv_def r idx)
qed

lemma inv_recv_read:
  assumes inv: "ring_inv s" and pc: "rs_cons s = C_Claimed tail"
  shows "ring_inv (s\<lparr>rs_cons := C_Fetched tail (slot_message (ring_slots (rs_ring s) ! (tail mod CHANNEL_DEPTH)))\<rparr>)"
proof -
  note I = ring_invD [OF inv]
  have "slot_message (ring_slots (rs_ring s) ! (length (rs_recvd s) mod 128)) = rs_sent s ! length (rs_recvd s)"
    using ring_cellsD(5,8) [OF I(1)] pc by simp
  with I pc show ?thesis by (simp add: ring_inv_def CHANNEL_DEPTH_def)
qed

lemma inv_recv_release:
  assumes inv: "ring_inv s" and pc: "rs_cons s = C_Fetched tail m"
  shows "ring_inv (s\<lparr>rs_ring := put_state (rs_ring s) (tail mod CHANNEL_DEPTH) SLOT_EMPTY,
      rs_cons := C_Released tail, rs_recvd := rs_recvd s @ [m]\<rparr>)"
proof -
  let ?S = "length (rs_sent s)" and ?R = "length (rs_recvd s)"
  note I = ring_invD [OF inv]
  from I(4) pc have idx: "tail mod 128 = ?R mod 128" and m: "rs_sent s ! ?R = m" by simp_all
  from I(1) pc have cells: "ring_cells (ring_slots (rs_ring s)) ?R ?S True (producing (rs_prod s)) (rs_sent s)"
    by simp
  have R: "?R < ?S" using ring_cellsD(5) [OF cells] by simp
  have "producer_ok (put_state (rs_ring s) (?R mod 128) SLOT_EMPTY) ?S (rs_prod s)"
    using ring_cellsD(1) [OF cells] by (intro producer_ok_frame [OF I(3)]) (simp_all add: message_kept)
  moreover have "rs_recvd s @ [m] = take (Suc ?R) (rs_sent s)"
    using I(2) R m by (metis take_Suc_conv_app_nth)
  moreover have "min ?S (Suc ?R) = Suc ?R" using R by simp
  ultimately show ?thesis
    using cells_release [OF cells] next_index [OF idx] by (simp add: ring_inv_def idx CHANNEL_DEPTH_def)
qed

lemma inv_recv_index:
  assumes inv: "ring_inv s" and pc: "rs_cons s = C_Released tail"
  shows "ring_inv (s\<lparr>rs_ring := (rs_ring s)\<lparr>ring_consumer := of_nat ((tail + 1) mod CHANNEL_DEPTH)\<rparr>,
      rs_cons := C_Idle\<rparr>)"
proof -
  note I = ring_invD [OF inv]
  have "producer_ok ((rs_ring s)\<lparr>ring_consumer := v\<rparr>) (length (rs_sent s)) (rs_prod s)" for v
    by (rule producer_ok_frame [OF I(3)]) simp_all
  with I pc show ?thesis by (simp add: ring_inv_def CHANNEL_DEPTH_def)
qed

lemmas ring_inv_steps = inv_send_claim inv_send_write inv_send_ready inv_send_index
  inv_recv_claim inv_recv_read inv_recv_release inv_recv_index

lemma ring_inv_step: "ring_step s t \<Longrightarrow> ring_inv s \<Longrightarrow> ring_inv t"
  by (induction rule: ring_step.induct) (simp_all only: ring_inv_steps)

lemma ring_inv_init: "ring_inv ring_sys_init"
  by (auto simp: ring_inv_def ring_sys_init_def ring_new_def ring_cells_def CHANNEL_DEPTH_def
      ring_slot_new_def cell_state_def)

lemma ring_reachable_inv: "ring_reachable s \<Longrightarrow> ring_inv s"
  by (induction rule: ring_reachable.induct) (auto intro: ring_inv_init ring_inv_step)

section \<open>Whole calls\<close>

text \<open>Whole calls start and end with both sides idle; the messages in flight are the abstract queue.\<close>

definition ring_contents :: "SpscRing \<Rightarrow> ChannelMessage list" where
  "ring_contents r = map (\<lambda>j. slot_message (ring_slots r ! ((unat (ring_consumer r) + j) mod 128)))
     [0..<length (filter (\<lambda>c. slot_state c = SLOT_READY) (ring_slots r))]"

definition ring_wf :: "SpscRing \<Rightarrow> bool" where
  "ring_wf r \<longleftrightarrow> (\<exists>R S sent. ring_cells (ring_slots r) R S False False sent
     \<and> unat (ring_producer r) = S mod 128 \<and> unat (ring_consumer r) = R mod 128)"

lemma window_surj:
  assumes "i < (128 :: nat)"
  shows "\<exists>l. R \<le> l \<and> l < R + 128 \<and> l mod 128 = i"
proof -
  let ?q = "R div 128 * 128"
  have R: "?q + R mod 128 = R" by (rule div_mult_mod_eq)
  have "R mod 128 < 128" by simp
  then have "R \<le> ?q + i \<and> ?q + i < R + 128 \<or> R \<le> ?q + 128 + i \<and> ?q + 128 + i < R + 128"
    using R assms by linarith
  moreover have "(?q + i) mod 128 = i" using assms by simp
  moreover have "?q + 128 + i = (R div 128 + 1) * 128 + i" by simp
  then have "(?q + 128 + i) mod 128 = i" using assms by (metis mod_less mod_mult_self3)
  ultimately show ?thesis by blast
qed

lemma ready_count:
  assumes "ring_cells sl R S False False sent"
  shows "length (filter (\<lambda>c. slot_state c = SLOT_READY) sl) = S - R"
proof -
  note C = ring_cellsD [OF assms]
  have "{i. i < 128 \<and> slot_state (sl ! i) = SLOT_READY} = (\<lambda>l. l mod 128) ` {R..<S}" (is "?A = ?B")
  proof
    show "?A \<subseteq> ?B"
    proof
      fix i assume "i \<in> ?A"
      then have i: "i < 128" "slot_state (sl ! i) = SLOT_READY" by auto
      from window_surj [OF i(1)] obtain l where l: "R \<le> l" "l < R + 128" "l mod 128 = i" by blast
      with C(7) [of l] i(2) have "l < S" by (auto simp: cell_state_def slot_states split: if_splits)
      with l show "i \<in> ?B" by auto
    qed
    show "?B \<subseteq> ?A" using C(4,7) by (auto simp: cell_state_def)
  qed
  moreover have "inj_on (\<lambda>l. l mod 128) {R..<S}"
    by (rule inj_onI) (use C(4) in \<open>auto intro: mod_window_inj [of _ 128 _ R]\<close>)
  ultimately show ?thesis
    using C(1) by (simp add: length_filter_conv_card card_image)
qed

lemma ring_contents_eq:
  assumes "ring_cells (ring_slots r) R S False False sent" and "unat (ring_consumer r) = R mod 128"
  shows "ring_contents r = drop R sent"
proof -
  note C = ring_cellsD [OF assms(1)]
  have "(R mod 128 + j) mod 128 = (R + j) mod 128" for j by (simp add: mod_simps)
  then show ?thesis
    using C(2-4) C(8) by (intro nth_equalityI) (simp_all add: ring_contents_def ready_count [OF assms(1)] assms(2))
qed

lemma ring_send_cases:
  assumes "ring_wf r"
  shows "(length (ring_contents r) < 128 \<longrightarrow>
        (\<exists>r'. ring_send r m = (r', Ok ()) \<and> ring_wf r' \<and> ring_contents r' = ring_contents r @ [m]))
     \<and> (length (ring_contents r) = 128 \<longrightarrow> ring_send r m = (r, Err ChannelFull))
     \<and> length (ring_contents r) \<le> 128"
proof -
  from assms obtain R S sent where c: "ring_cells (ring_slots r) R S False False sent"
    and p: "unat (ring_producer r) = S mod 128" and q: "unat (ring_consumer r) = R mod 128"
    by (auto simp: ring_wf_def)
  note C = ring_cellsD [OF c]
  have len: "length (ring_contents r) = S - R" by (simp add: ring_contents_eq [OF c q] C(2))
  have full: "ring_send r m = (r, Err ChannelFull)" if "S = R + 128"
  proof -
    have "slot_state (ring_slots r ! (S mod 128)) = SLOT_READY" using C(7) [of R] that by (simp add: cell_state_def)
    then have "slot_cas r (S mod 128) SLOT_EMPTY SLOT_WRITING = None" by (simp add: slot_cas_def slot_states)
    then show ?thesis by (simp add: ring_send_def p CHANNEL_DEPTH_def)
  qed
  have sent: "\<exists>r'. ring_send r m = (r', Ok ()) \<and> ring_wf r' \<and> ring_contents r' = ring_contents r @ [m]"
    if lt: "S < R + 128"
  proof -
    let ?i = "S mod 128"
    have e: "slot_state (ring_slots r ! ?i) = SLOT_EMPTY" using C(3,7) lt by (simp add: cell_state_def)
    let ?r1 = "put_state r ?i SLOT_WRITING" and ?r2 = "put_message (put_state r ?i SLOT_WRITING) ?i m"
    define r' where "r' = (put_state ?r2 ?i SLOT_READY)\<lparr>ring_producer := of_nat (Suc S mod 128)\<rparr>"
    have c1: "ring_cells (ring_slots ?r1) R S False True sent" using cells_claim_write(2) [OF c e] by simp
    have c2: "ring_cells (ring_slots ?r2) R S False True sent" using cells_write [OF c1] by simp
    have msg: "slot_message (ring_slots ?r2 ! ?i) = m" using C(1) by simp
    have c3: "ring_cells (ring_slots r') R (Suc S) False False (sent @ [m])"
      using cells_publish [OF c2 msg] by (simp add: r'_def)
    have "ring_send r m = (r', Ok ())"
      using e by (simp add: ring_send_def p CHANNEL_DEPTH_def slot_cas_def r'_def Let_def put_state_def mod_simps)
    moreover have q': "unat (ring_consumer r') = R mod 128" using q by (simp add: r'_def)
    moreover have "unat (ring_producer r') = Suc S mod 128" by (simp add: r'_def)
    ultimately show ?thesis
      using c3 C(2,3) by (auto simp: ring_wf_def ring_contents_eq [OF c3 q'] ring_contents_eq [OF c q])
  qed
  show ?thesis using len C(3,4) full sent by auto
qed

lemma ring_recv_cases:
  assumes "ring_wf r"
  shows "(ring_contents r = [] \<longrightarrow> ring_recv r = (r, None))
     \<and> (\<forall>x xs. ring_contents r = x # xs \<longrightarrow>
          (\<exists>r'. ring_recv r = (r', Some x) \<and> ring_wf r' \<and> ring_contents r' = xs))"
proof -
  from assms obtain R S sent where c: "ring_cells (ring_slots r) R S False False sent"
    and p: "unat (ring_producer r) = S mod 128" and q: "unat (ring_consumer r) = R mod 128"
    by (auto simp: ring_wf_def)
  note C = ring_cellsD [OF c]
  note cont = ring_contents_eq [OF c q]
  have none: "ring_recv r = (r, None)" if "ring_contents r = []"
  proof -
    have "S = R" using that C(2,3) by (simp add: cont)
    then have "slot_state (ring_slots r ! (R mod 128)) = SLOT_EMPTY" using C(7) [of R] by (simp add: cell_state_def)
    then have "slot_cas r (R mod 128) SLOT_READY SLOT_READING = None" by (simp add: slot_cas_def slot_states)
    then show ?thesis by (simp add: ring_recv_def q CHANNEL_DEPTH_def)
  qed
  have some: "\<exists>r'. ring_recv r = (r', Some x) \<and> ring_wf r' \<and> ring_contents r' = xs"
    if xs: "ring_contents r = x # xs" for x xs
  proof -
    let ?i = "R mod 128"
    have lt: "R < S" using xs C(2) by (auto simp: cont intro: ccontr)
    have e: "slot_state (ring_slots r ! ?i) = SLOT_READY" using C(7) [of R] lt by (simp add: cell_state_def)
    let ?r1 = "put_state r ?i SLOT_READING"
    define r' where "r' = (put_state ?r1 ?i SLOT_EMPTY)\<lparr>ring_consumer := of_nat (Suc R mod 128)\<rparr>"
    have c1: "ring_cells (ring_slots ?r1) R S True False sent" using cells_claim_read(2) [OF c e] by simp
    have c2: "ring_cells (ring_slots r') (Suc R) S False False sent"
      using cells_release [OF c1] by (simp add: r'_def)
    have x: "slot_message (ring_slots r ! ?i) = x" "drop (Suc R) sent = xs"
      using xs C(8) [of R] lt C(2) by (auto simp: cont Cons_nth_drop_Suc [symmetric])
    have "ring_recv r = (r', Some x)"
      using e x C(1) by (simp add: ring_recv_def q CHANNEL_DEPTH_def slot_cas_def r'_def Let_def put_state_def mod_simps)
    moreover have q': "unat (ring_consumer r') = Suc R mod 128" by (simp add: r'_def)
    moreover have "unat (ring_producer r') = S mod 128" using p by (simp add: r'_def)
    ultimately show ?thesis using c2 x(2) by (auto simp: ring_wf_def ring_contents_eq [OF c2 q'])
  qed
  show ?thesis using none some by blast
qed

interpretation ring: bounded_queue ring_send ring_recv ring_contents ring_wf 128 ChannelFull
proof
  fix r :: SpscRing and x xs
  assume wf: "ring_wf r"
  show "length (ring_contents r) \<le> 128" using ring_send_cases [OF wf] by blast
  show "\<exists>r'. ring_send r x = (r', Ok ()) \<and> ring_wf r' \<and> ring_contents r' = ring_contents r @ [x]"
    if "length (ring_contents r) < 128" using ring_send_cases [OF wf] that by blast
  show "ring_send r x = (r, Err ChannelFull)" if "length (ring_contents r) = 128"
    using ring_send_cases [OF wf] that by blast
  show "ring_recv r = (r, None)" if "ring_contents r = []" using ring_recv_cases [OF wf] that by blast
  show "\<exists>r'. ring_recv r = (r', Some x) \<and> ring_wf r' \<and> ring_contents r' = xs" if "ring_contents r = x # xs"
    using ring_recv_cases [OF wf] that by blast
qed

lemma ring_new_wf: "ring_wf ring_new" "ring_contents ring_new = []"
proof -
  have c: "ring_cells (ring_slots ring_new) 0 0 False False []"
    by (simp add: ring_cells_def ring_new_def CHANNEL_DEPTH_def ring_slot_new_def cell_state_def)
  have q: "unat (ring_consumer ring_new) = 0 mod 128" by (simp add: ring_new_def)
  show "ring_wf ring_new" unfolding ring_wf_def using c q by (intro exI [of _ 0] exI [of _ "[]"]) (simp add: ring_new_def)
  show "ring_contents ring_new = []" using ring_contents_eq [OF c q] by simp
qed

section \<open>Properties\<close>

text \<open>
  C6. The concurrent ring loses, duplicates and reorders nothing.  In every state one producer and
  one consumer can reach by interleaving their atomic steps, what was received is a prefix of what
  was sent, at most 128 messages are in flight, a message just fetched is the next one of the sent
  history, and the two sides never hold the same slot.
\<close>

theorem ring_concurrent_fifo:
  assumes "ring_reachable s"
  shows "(\<exists>in_flight. rs_sent s = rs_recvd s @ in_flight \<and> length in_flight \<le> 128)
    \<and> (\<forall>t m. rs_cons s = C_Fetched t m \<longrightarrow> (\<exists>rest. rs_sent s = rs_recvd s @ m # rest))
    \<and> (producing (rs_prod s) \<and> consuming (rs_cons s) \<longrightarrow>
         length (rs_sent s) mod 128 \<noteq> length (rs_recvd s) mod 128)"
proof -
  let ?S = "length (rs_sent s)" and ?R = "length (rs_recvd s)"
  note I = ring_invD [OF ring_reachable_inv [OF assms]]
  note C = ring_cellsD [OF I(1)]
  have split: "rs_sent s = rs_recvd s @ drop ?R (rs_sent s)" using I(2) by (metis append_take_drop_id)
  moreover have "length (drop ?R (rs_sent s)) \<le> 128" using C(4) by simp
  moreover have "\<exists>rest. rs_sent s = rs_recvd s @ m # rest" if pc: "rs_cons s = C_Fetched t m" for t m
  proof -
    have "?R < ?S" "rs_sent s ! ?R = m" using C(5) I(4) pc by simp_all
    then have "drop ?R (rs_sent s) = m # drop (Suc ?R) (rs_sent s)" by (metis Cons_nth_drop_Suc)
    with split show ?thesis by metis
  qed
  moreover have "?S mod 128 \<noteq> ?R mod 128" if "producing (rs_prod s)" "consuming (rs_cons s)"
    using mod_window_inj [of ?S 128 ?R ?R] C(3,5,6) that by auto
  ultimately show ?thesis by blast
qed

lemma sample_ring_run:
  "\<exists>s. ring_reachable s \<and> (\<exists>t. rs_cons s = C_Fetched t (with_tag 42)) \<and> rs_recvd s = []"
proof -
  let ?m = "with_tag 42"
  define r1 where "r1 = put_state ring_new 0 SLOT_WRITING"
  define r2 where "r2 = put_message r1 0 ?m"
  define r3 where "r3 = put_state r2 0 SLOT_READY"
  define r4 where "r4 = put_state r3 0 SLOT_READING"
  have zero: "unat (ring_producer ring_new) = 0" "unat (ring_consumer ring_new) = 0" by (simp_all add: ring_new_def)
  have slots: "0 < length (ring_slots ring_new)" "slot_state (ring_slots ring_new ! 0) = SLOT_EMPTY"
    by (simp_all add: ring_new_def CHANNEL_DEPTH_def ring_slot_new_def)
  have w: "slot_cas ring_new (0 mod CHANNEL_DEPTH) SLOT_EMPTY SLOT_WRITING = Some r1"
    using slots by (simp add: slot_cas_Some_iff r1_def)
  have rd: "slot_cas r3 (0 mod CHANNEL_DEPTH) SLOT_READY SLOT_READING = Some r4"
    using slots by (simp add: slot_cas_Some_iff r4_def r3_def r2_def r1_def)
  have c0: "unat (ring_consumer r3) = 0" by (simp add: r3_def r2_def r1_def ring_new_def)
  have "ring_reachable (ring_sys_init\<lparr>rs_ring := r1, rs_prod := P_Claimed 0 ?m\<rparr>)"
    using ring_step.send_claim [of ring_sys_init 0 r1 ?m] w zero
    by (auto intro: ring_reachable.intros simp: ring_sys_init_def)
  from ring_reachable.step [OF this ring_step.send_write [of _ 0 ?m]]
  have "ring_reachable (ring_sys_init\<lparr>rs_ring := r2, rs_prod := P_Written 0 ?m\<rparr>)" by (simp add: r2_def)
  from ring_reachable.step [OF this ring_step.send_ready [of _ 0 ?m]]
  have "ring_reachable (ring_sys_init\<lparr>rs_ring := r3, rs_prod := P_Ready 0, rs_sent := [?m]\<rparr>)"
    by (simp add: r3_def ring_sys_init_def)
  from ring_reachable.step [OF this ring_step.recv_claim [of _ 0 r4]]
  have "ring_reachable (ring_sys_init\<lparr>rs_ring := r4, rs_prod := P_Ready 0, rs_sent := [?m], rs_cons := C_Claimed 0\<rparr>)"
    using rd c0 by (simp add: ring_sys_init_def)
  from ring_reachable.step [OF this ring_step.recv_read [of _ 0]]
  have "ring_reachable (ring_sys_init\<lparr>rs_ring := r4, rs_prod := P_Ready 0, rs_sent := [?m], rs_cons := C_Fetched 0 ?m\<rparr>)"
    using slots by (simp add: ring_sys_init_def r4_def r3_def r2_def r1_def)
  then show ?thesis by (force simp: ring_sys_init_def)
qed

theorem ring_concurrent_fifo_witness:
  "\<exists>s rest. ring_reachable s \<and> rs_sent s = with_tag 42 # rest"
proof -
  from sample_ring_run obtain s t where s: "ring_reachable s" "rs_cons s = C_Fetched t (with_tag 42)" "rs_recvd s = []"
    by blast
  with ring_concurrent_fifo [OF s(1)] show ?thesis by (metis append_Nil)
qed



text \<open>The wire size asserted at compile time, and the payload bound.\<close>

lemma message_layout: "ChannelMessage_layout = (MESSAGE_BYTES, 64)"
  by (simp add: ChannelMessage_layout_def MESSAGE_BYTES_def PAYLOAD_BYTES_def layout_defs)

lemma with_payload_prefix:
  "take (length d) (msg_payload (with_payload t d)) = take 48 d \<and> length (msg_payload (with_payload t d)) = 48"
proof -
  have "length (take (min (length d) PAYLOAD_BYTES) d) \<le> PAYLOAD_BYTES" by simp
  then show ?thesis
    by (auto simp: with_payload_def with_tag_def Let_def copy_prefix_def PAYLOAD_BYTES_def min_def)
qed

end
