(* ===== verification/Syscall.thy ===== *)
theory Syscall
  imports Slope_Prelude
begin

text \<open>
  The system call boundary of \<open>lib.rs\<close>.  The kernel is not part of this repository: wherever a
  component calls \<open>syscall\<close>, its model takes the kernel's answer as a parameter, the value left in
  \<open>rax\<close> together with whatever the kernel writes through the pointers it was given.  This theory
  holds what the wrapper itself does: decoding that value.
\<close>

datatype SyscallError = SyscallError isize

text \<open>The native wrapper: a negative \<open>isize\<close> is an error, everything else a \<open>usize\<close>.\<close>

definition syscall_decode :: "isize \<Rightarrow> (SyscallError, usize) result" where
  "syscall_decode result = (if sint result < 0 then Err (SyscallError result) else Ok result)"

text \<open>The host stub.\<close>

definition syscall_host :: "(SyscallError, usize) result" where
  "syscall_host = Err (SyscallError (- 38))"

lemma syscall_decode_Ok_iff: "syscall_decode r = Ok v \<longleftrightarrow> v = r \<and> 0 \<le> sint r"
  by (auto simp: syscall_decode_def)

lemma syscall_decode_Err_iff: "syscall_decode r = Err e \<longleftrightarrow> e = SyscallError r \<and> sint r < 0"
  by (auto simp: syscall_decode_def)

lemma syscall_decode_Ok_bound:
  assumes "syscall_decode r = Ok v"
  shows "unat v < 2 ^ 63"
proof -
  from assms have "v = r" "0 \<le> sint r" by (simp_all add: syscall_decode_Ok_iff)
  then have nb: "\<not> bit (uint v) 63"
    by (simp add: sint_uint signed_take_bit_nonnegative_iff)
  have "uint v = take_bit (Suc 63) (uint v)"
    using uint_lt2p [of v] by (simp add: take_bit_int_eq_self)
  also have "\<dots> = take_bit 63 (uint v)"
    using nb by (simp only: take_bit_Suc_from_most of_bool_eq mult_zero_right add_0 simp_thms if_False)
  also have "\<dots> < 2 ^ 63" by (rule take_bit_int_less_exp)
  finally have "uint v < 2 ^ 63" .
  moreover have "int (unat v) = uint v" by simp
  ultimately have "int (unat v) < int (2 ^ 63)" by simp
  then show ?thesis by (simp only: of_nat_less_iff)
qed

end
