(* ===== verification/Kairos.thy ===== *)
theory Kairos
  imports Syscall Repr_C
begin

text \<open>
  Machine topology and ABI negotiation, \<open>kairos.rs\<close>.

  The limits, trait flags, feature bits and ABI constants come from the external \<open>kairos\<close> crate:
  they are the fields of the parameter \<open>lim\<close>.  The wire structures of that crate appear as records
  of the fields the source reads or writes; an array field is a list of the crate's array length.
  The kernel is a parameter that maps a request to the value returned and the reply it writes.
\<close>

section \<open>External limits and constants\<close>

record kairos_limits =
  MAXIMUM_CPUS :: nat
  MAXIMUM_DOMAINS :: nat
  MAXIMUM_CPUS_PER_DOMAIN :: nat
  FLAG_SMP :: u32
  FLAG_NUMA :: u32
  FLAG_HETEROGENEOUS :: u32
  FLAG_OFFLOAD :: u32
  ABI_MAGIC :: u32
  ABI_VERSION :: u16
  ABI_KIND_NATIVE :: u8
  ABI_KIND_DRIVER :: u8
  SYSCALL_BASIC :: u64
  SYSCALL_DRIVER :: u64
  ABI_REQUEST_SIZE :: nat

section \<open>Summary page\<close>

record KairosPage =
  kp_cpu_count :: u16
  kp_domain_count :: u16
  kp_io_device_count :: u16
  kp_numa_domains :: u16
  kp_flags :: u32
  kp_abi_features_lo :: u32
  kp_abi_features_hi :: u32
  kp_boot_epoch :: u32

definition KairosPage_layout :: layout where
  "KairosPage_layout = repr_c_align 64 [U16, U16, U16, U16, U32, U32, U32, U32, array_layout 36 U8]"

definition page_zeroed :: KairosPage where
  "page_zeroed = \<lparr>kp_cpu_count = 0, kp_domain_count = 0, kp_io_device_count = 0, kp_numa_domains = 0,
     kp_flags = 0, kp_abi_features_lo = 0, kp_abi_features_hi = 0, kp_boot_epoch = 0\<rparr>"

definition page_has_trait :: "KairosPage \<Rightarrow> u32 \<Rightarrow> bool" where
  "page_has_trait p flag \<longleftrightarrow> kp_flags p AND flag \<noteq> 0"

definition page_is_smp :: "kairos_limits \<Rightarrow> KairosPage \<Rightarrow> bool" where "page_is_smp lim p = page_has_trait p (FLAG_SMP lim)"
definition page_is_numa :: "kairos_limits \<Rightarrow> KairosPage \<Rightarrow> bool" where "page_is_numa lim p = page_has_trait p (FLAG_NUMA lim)"
definition page_is_heterogeneous :: "kairos_limits \<Rightarrow> KairosPage \<Rightarrow> bool" where
  "page_is_heterogeneous lim p = page_has_trait p (FLAG_HETEROGENEOUS lim)"
definition page_has_offload :: "kairos_limits \<Rightarrow> KairosPage \<Rightarrow> bool" where "page_has_offload lim p = page_has_trait p (FLAG_OFFLOAD lim)"

definition page_abi_features :: "KairosPage \<Rightarrow> u64" where
  "page_abi_features p = ucast (kp_abi_features_lo p) OR push_bit 32 (ucast (kp_abi_features_hi p))"

definition page_is_ready :: "KairosPage \<Rightarrow> bool" where
  "page_is_ready p \<longleftrightarrow> kp_boot_epoch p \<noteq> 0"

section \<open>Descriptors\<close>

datatype CpuKind = Symmetric | Performance | Efficiency | Offload | Unknown

definition cpu_kind_from_raw :: "u8 \<Rightarrow> CpuKind" where
  "cpu_kind_from_raw v =
    (if v = 0 then Symmetric else if v = 1 then Performance else if v = 2 then Efficiency
     else if v = 3 then Offload else Unknown)"

fun is_compute_capable :: "CpuKind \<Rightarrow> bool" where
  "is_compute_capable Symmetric = True"
| "is_compute_capable Performance = True"
| "is_compute_capable _ = False"

fun is_offload_only :: "CpuKind \<Rightarrow> bool" where
  "is_offload_only Offload = True"
| "is_offload_only _ = False"

record CpuDescriptor =
  cpu_logical_id :: u16
  cpu_hardware_id :: u32
  cpu_package :: u16
  cpu_core :: u16
  cpu_thread :: u16
  cpu_numa_domain :: u16
  cpu_kind :: CpuKind
  cpu_enabled :: bool

definition cpu_EMPTY :: CpuDescriptor where
  "cpu_EMPTY = \<lparr>cpu_logical_id = - 1, cpu_hardware_id = 0, cpu_package = 0, cpu_core = 0, cpu_thread = 0,
     cpu_numa_domain = 0, cpu_kind = Unknown, cpu_enabled = False\<rparr>"

datatype DomainKind = Machine | Numa

record DomainDescriptor =
  dom_id :: u16
  dom_kind :: DomainKind
  dom_parent :: "u16 option"
  dom_members :: "u16 list"
  dom_member_count :: nat

definition domain_EMPTY :: "kairos_limits \<Rightarrow> DomainDescriptor" where
  "domain_EMPTY lim = \<lparr>dom_id = - 1, dom_kind = Machine, dom_parent = None,
     dom_members = replicate (MAXIMUM_CPUS_PER_DOMAIN lim) (- 1), dom_member_count = 0\<rparr>"

definition domain_members :: "DomainDescriptor \<Rightarrow> u16 list" where
  "domain_members d = take (dom_member_count d) (dom_members d)"

record TopologySnapshot =
  ts_cpus :: "CpuDescriptor list"
  ts_cpu_count :: nat
  ts_domains :: "DomainDescriptor list"
  ts_domain_count :: nat
  ts_trait_flags :: u32

definition topology_empty :: "kairos_limits \<Rightarrow> TopologySnapshot" where
  "topology_empty lim = \<lparr>ts_cpus = replicate (MAXIMUM_CPUS lim) cpu_EMPTY, ts_cpu_count = 0,
     ts_domains = replicate (MAXIMUM_DOMAINS lim) (domain_EMPTY lim), ts_domain_count = 0,
     ts_trait_flags = 0\<rparr>"

datatype KairosError =
    KairosSyscall SyscallError
  | NotReady
  | KairosBusy
  | InvalidTopology

section \<open>Reading a topology reply\<close>

record RawCpu =
  raw_logical_id :: u16
  raw_hardware_id :: u32
  raw_package :: u16
  raw_core :: u16
  raw_thread :: u16
  raw_numa_domain :: u16
  raw_cpu_kind :: u8
  raw_enabled :: u8

record RawDomain =
  raw_id :: u16
  raw_domain_kind :: u8
  raw_parent_valid :: u8
  raw_parent_id :: u16
  raw_member_count :: nat
  raw_members :: "u16 list"

record RawTopologyReply =
  reply_cpu_count :: nat
  reply_domain_count :: nat
  reply_trait_flags :: u32
  reply_cpus :: "RawCpu list"
  reply_domains :: "RawDomain list"

definition cpu_of_raw :: "RawCpu \<Rightarrow> CpuDescriptor" where
  "cpu_of_raw raw = \<lparr>cpu_logical_id = raw_logical_id raw, cpu_hardware_id = raw_hardware_id raw,
     cpu_package = raw_package raw, cpu_core = raw_core raw, cpu_thread = raw_thread raw,
     cpu_numa_domain = raw_numa_domain raw, cpu_kind = cpu_kind_from_raw (raw_cpu_kind raw),
     cpu_enabled = (raw_enabled raw \<noteq> 0)\<rparr>"

fun load_cpus :: "RawCpu list \<Rightarrow> nat \<Rightarrow> CpuDescriptor list \<Rightarrow> (KairosError, CpuDescriptor list) result" where
  "load_cpus [] index cpus = Ok cpus"
| "load_cpus (raw # raws) index cpus =
    (if list_ex (\<lambda>cpu. cpu_logical_id cpu = raw_logical_id raw) (take index cpus)
     then Err InvalidTopology
     else load_cpus raws (index + 1) (cpus[index := cpu_of_raw raw]))"

text \<open>\<open>enumerate().any(|(i, id)| members[..i].contains(id))\<close>\<close>

definition has_repeat :: "u16 list \<Rightarrow> bool" where
  "has_repeat ms = list_ex (\<lambda>i. ms ! i \<in> set (take i ms)) [0..<length ms]"

definition domain_of_raw :: "kairos_limits \<Rightarrow> RawDomain \<Rightarrow> DomainDescriptor" where
  "domain_of_raw lim raw = (domain_EMPTY lim)\<lparr>dom_id := raw_id raw,
     dom_kind := (if raw_domain_kind raw = 1 then Numa else Machine),
     dom_parent := (if raw_parent_valid raw \<noteq> 0 then Some (raw_parent_id raw) else None),
     dom_members := copy_prefix (dom_members (domain_EMPTY lim)) (take (raw_member_count raw) (raw_members raw)),
     dom_member_count := raw_member_count raw\<rparr>"

fun load_domains ::
  "kairos_limits \<Rightarrow> CpuDescriptor list \<Rightarrow> RawDomain list \<Rightarrow> nat \<Rightarrow> DomainDescriptor list
    \<Rightarrow> (KairosError, DomainDescriptor list) result" where
  "load_domains lim cpus [] index domains = Ok domains"
| "load_domains lim cpus (raw # raws) index domains =
    (let member_count = raw_member_count raw in
     if member_count > MAXIMUM_CPUS_PER_DOMAIN lim
      \<or> raw_domain_kind raw > 1
      \<or> list_ex (\<lambda>d. dom_id d = raw_id raw) (take index domains)
      \<or> has_repeat (take member_count (raw_members raw))
      \<or> list_ex (\<lambda>m. \<not> list_ex (\<lambda>cpu. cpu_logical_id cpu = m) cpus) (take member_count (raw_members raw))
     then Err InvalidTopology
     else load_domains lim cpus raws (index + 1) (domains[index := domain_of_raw lim raw]))"

text \<open>\<open>domain.parent.is_some_and(|parent| !domains.any(|candidate| candidate.id == parent))\<close>\<close>

definition orphaned :: "DomainDescriptor list \<Rightarrow> DomainDescriptor \<Rightarrow> bool" where
  "orphaned domains d =
    (case dom_parent d of None \<Rightarrow> False
     | Some parent \<Rightarrow> \<not> list_ex (\<lambda>candidate. dom_id candidate = parent) domains)"

definition topology_from_raw ::
  "kairos_limits \<Rightarrow> RawTopologyReply \<Rightarrow> (KairosError, TopologySnapshot) result" where
  "topology_from_raw lim reply =
    (let cpu_count = reply_cpu_count reply; domain_count = reply_domain_count reply in
     if cpu_count = 0 \<or> domain_count = 0 \<or> cpu_count > MAXIMUM_CPUS lim \<or> domain_count > MAXIMUM_DOMAINS lim
     then Err InvalidTopology
     else
       let snapshot = topology_empty lim in
       and_then (load_cpus (take cpu_count (reply_cpus reply)) 0 (ts_cpus snapshot)) (\<lambda>cpus.
       and_then (load_domains lim (take cpu_count cpus) (take domain_count (reply_domains reply)) 0
                  (ts_domains snapshot)) (\<lambda>domains.
       if list_ex (orphaned (take domain_count domains)) (take domain_count domains)
       then Err InvalidTopology
       else Ok (snapshot\<lparr>ts_cpus := cpus, ts_cpu_count := cpu_count, ts_domains := domains,
             ts_domain_count := domain_count, ts_trait_flags := reply_trait_flags reply\<rparr>))))"

section \<open>The query slot\<close>

text \<open>\<open>RAW_QUERY_SLOT\<close>: the claim flag and the reply buffer.  The guard's drop clears the flag.\<close>

record RawQuerySlot =
  slot_claimed :: bool
  slot_reply :: RawTopologyReply

definition slot_new :: "RawTopologyReply \<Rightarrow> RawQuerySlot" where
  "slot_new zeroed = \<lparr>slot_claimed = False, slot_reply = zeroed\<rparr>"

definition slot_acquire :: "RawQuerySlot \<Rightarrow> RawQuerySlot option" where
  "slot_acquire s = (if slot_claimed s then None else Some (s\<lparr>slot_claimed := True\<rparr>))"

definition slot_drop :: "RawQuerySlot \<Rightarrow> RawQuerySlot" where
  "slot_drop s = s\<lparr>slot_claimed := False\<rparr>"

type_synonym topology_kernel = "RawTopologyReply \<Rightarrow> isize \<times> RawTopologyReply"

definition topology_query ::
  "kairos_limits \<Rightarrow> topology_kernel \<Rightarrow> RawQuerySlot \<Rightarrow> RawQuerySlot \<times> (KairosError, TopologySnapshot) result" where
  "topology_query lim kern slot =
    (case slot_acquire slot of
       None \<Rightarrow> (slot, Err KairosBusy)
     | Some s1 \<Rightarrow>
         (case kern (slot_reply s1) of (rax, reply) \<Rightarrow>
            let s2 = s1\<lparr>slot_reply := reply\<rparr> in
            (case syscall_decode rax of
               Inl e \<Rightarrow> (slot_drop s2, Err (KairosSyscall e))
             | Inr _ \<Rightarrow> (slot_drop s2, topology_from_raw lim (slot_reply s2)))))"

text \<open>\<open>query_ref\<close> also stores the snapshot into the process-lifetime storage.\<close>

definition topology_query_ref ::
  "kairos_limits \<Rightarrow> topology_kernel \<Rightarrow> RawQuerySlot \<times> TopologySnapshot option
    \<Rightarrow> (RawQuerySlot \<times> TopologySnapshot option) \<times> (KairosError, TopologySnapshot) result" where
  "topology_query_ref lim kern st =
    (case topology_query lim kern (fst st) of
       (slot, Inl e) \<Rightarrow> ((slot, snd st), Err e)
     | (slot, Inr t) \<Rightarrow> ((slot, Some t), Ok t))"

section \<open>Queries on a snapshot\<close>

definition topo_cpus :: "TopologySnapshot \<Rightarrow> CpuDescriptor list" where
  "topo_cpus t = take (ts_cpu_count t) (ts_cpus t)"

definition topo_domains :: "TopologySnapshot \<Rightarrow> DomainDescriptor list" where
  "topo_domains t = take (ts_domain_count t) (ts_domains t)"

definition topo_has_trait :: "TopologySnapshot \<Rightarrow> u32 \<Rightarrow> bool" where
  "topo_has_trait t flag \<longleftrightarrow> ts_trait_flags t AND flag \<noteq> 0"

definition topo_is_smp :: "kairos_limits \<Rightarrow> TopologySnapshot \<Rightarrow> bool" where "topo_is_smp lim t = topo_has_trait t (FLAG_SMP lim)"
definition topo_is_numa :: "kairos_limits \<Rightarrow> TopologySnapshot \<Rightarrow> bool" where "topo_is_numa lim t = topo_has_trait t (FLAG_NUMA lim)"
definition topo_is_heterogeneous :: "kairos_limits \<Rightarrow> TopologySnapshot \<Rightarrow> bool" where
  "topo_is_heterogeneous lim t = topo_has_trait t (FLAG_HETEROGENEOUS lim)"
definition topo_has_offload :: "kairos_limits \<Rightarrow> TopologySnapshot \<Rightarrow> bool" where "topo_has_offload lim t = topo_has_trait t (FLAG_OFFLOAD lim)"

definition numa_domain_of :: "TopologySnapshot \<Rightarrow> u16 \<Rightarrow> u16 option" where
  "numa_domain_of t cpu_id = map_option cpu_numa_domain (find (\<lambda>cpu. cpu_logical_id cpu = cpu_id) (topo_cpus t))"

definition enabled_member_count :: "TopologySnapshot \<Rightarrow> DomainDescriptor \<Rightarrow> nat" where
  "enabled_member_count t d = length (filter (\<lambda>m.
     list_ex (\<lambda>cpu. cpu_logical_id cpu = m \<and> cpu_enabled cpu) (topo_cpus t)) (domain_members d))"

definition domain_has_enabled_kind :: "TopologySnapshot \<Rightarrow> DomainDescriptor \<Rightarrow> CpuKind \<Rightarrow> bool" where
  "domain_has_enabled_kind t d kind = list_ex (\<lambda>m.
     list_ex (\<lambda>cpu. cpu_logical_id cpu = m \<and> cpu_enabled cpu \<and> cpu_kind cpu = kind) (topo_cpus t))
     (domain_members d)"

text \<open>\<open>NucleusCpuIter\<close>: \<open>next\<close> scans from the stored index.\<close>

function nucleus_next :: "TopologySnapshot \<Rightarrow> u16 \<Rightarrow> nat \<Rightarrow> nat \<times> CpuDescriptor option" where
  "nucleus_next t domain_id index =
    (if index < ts_cpu_count t then
       let cpu = ts_cpus t ! index in
       if cpu_enabled cpu \<and> cpu_numa_domain cpu = domain_id then (index + 1, Some cpu)
       else nucleus_next t domain_id (index + 1)
     else (index, None))"
  by pat_completeness auto
termination by (relation "measure (\<lambda>(t, d, i). ts_cpu_count t - i)") auto

declare nucleus_next.simps [simp del]

lemma nucleus_next_index: "nucleus_next t d i = (j, Some c) \<Longrightarrow> i < j \<and> j \<le> ts_cpu_count t"
  by (induction t d i rule: nucleus_next.induct) (subst (asm) (2) nucleus_next.simps, auto simp: Let_def split: if_splits)

text \<open>Collecting the iterator.\<close>

function nucleus_collect :: "TopologySnapshot \<Rightarrow> u16 \<Rightarrow> nat \<Rightarrow> CpuDescriptor list" where
  "nucleus_collect t domain_id index =
    (case nucleus_next t domain_id index of
       (_, None) \<Rightarrow> []
     | (index', Some cpu) \<Rightarrow> cpu # nucleus_collect t domain_id index')"
  by pat_completeness auto
termination
  by (relation "measure (\<lambda>(t, d, i). ts_cpu_count t - i)") (auto dest: nucleus_next_index [OF sym])

declare nucleus_collect.simps [simp del]

definition domain_iter_next :: "TopologySnapshot \<Rightarrow> nat \<Rightarrow> nat \<times> DomainDescriptor option" where
  "domain_iter_next t index =
    (if index < length (topo_domains t) then (index + 1, Some (topo_domains t ! index)) else (index, None))"

text \<open>A whole iteration from \<open>domain_iter\<close> on.\<close>

function domain_collect :: "TopologySnapshot \<Rightarrow> nat \<Rightarrow> DomainDescriptor list" where
  "domain_collect t index =
    (case domain_iter_next t index of (_, None) \<Rightarrow> [] | (i, Some d) \<Rightarrow> d # domain_collect t i)"
  by pat_completeness auto
termination
  by (relation "measure (\<lambda>(t, i). length (topo_domains t) - i)") (auto simp: domain_iter_next_def split: if_splits)

declare domain_collect.simps [simp del]

lemma domain_collect_all: "domain_collect t i = drop i (topo_domains t)"
proof (induction "length (topo_domains t) - i" arbitrary: i)
  case 0
  then show ?case by (subst domain_collect.simps) (simp add: domain_iter_next_def)
next
  case (Suc n)
  then have "domain_collect t (Suc i) = drop (Suc i) (topo_domains t)" by simp
  with Suc.hyps(2) show ?case
    by (subst domain_collect.simps) (simp add: domain_iter_next_def Cons_nth_drop_Suc)
qed

section \<open>Affinity\<close>

datatype WorkloadClass = WlCompute | WlIo | WlOffload | WlAny

record CpuAffinityHint =
  hint_domain_id :: u16
  hint_preferred_kind :: CpuKind
  hint_smp_eligible :: bool

definition hint_any :: CpuAffinityHint where
  "hint_any = \<lparr>hint_domain_id = 0, hint_preferred_kind = Symmetric, hint_smp_eligible = True\<rparr>"

fun preferred_kind :: "WorkloadClass \<Rightarrow> CpuKind option" where
  "preferred_kind WlCompute = Some Performance"
| "preferred_kind WlIo = Some Efficiency"
| "preferred_kind WlOffload = Some Offload"
| "preferred_kind WlAny = None"

fun affinity_scan ::
  "kairos_limits \<Rightarrow> TopologySnapshot \<Rightarrow> WorkloadClass \<Rightarrow> CpuKind \<Rightarrow> DomainDescriptor list \<Rightarrow> CpuAffinityHint" where
  "affinity_scan lim t cls kind [] = hint_any"
| "affinity_scan lim t cls kind (d # ds) =
    (if cls \<noteq> WlOffload \<and> dom_kind d \<noteq> Numa then affinity_scan lim t cls kind ds
     else if domain_has_enabled_kind t d kind
     then \<lparr>hint_domain_id = dom_id d, hint_preferred_kind = kind,
           hint_smp_eligible = (cls \<noteq> WlOffload \<and> (cls = WlIo \<or> topo_has_trait t (FLAG_SMP lim)))\<rparr>
     else affinity_scan lim t cls kind ds)"

definition compute_affinity :: "kairos_limits \<Rightarrow> TopologySnapshot \<Rightarrow> WorkloadClass \<Rightarrow> CpuAffinityHint" where
  "compute_affinity lim t cls =
    (case preferred_kind cls of None \<Rightarrow> hint_any
     | Some kind \<Rightarrow> affinity_scan lim t cls kind (topo_domains t))"

section \<open>Work partition\<close>

record WorkSlice =
  ws_domain_id :: u16
  ws_start :: nat
  ws_end :: nat

definition slice_len :: "WorkSlice \<Rightarrow> nat" where "slice_len w = ws_end w - ws_start w"
definition slice_is_empty :: "WorkSlice \<Rightarrow> bool" where "slice_is_empty w \<longleftrightarrow> slice_len w = 0"

record WorkPartition =
  wp_slices :: "WorkSlice option list"
  wp_count :: nat

definition partition_empty :: "kairos_limits \<Rightarrow> WorkPartition" where
  "partition_empty lim = \<lparr>wp_slices = replicate (MAXIMUM_DOMAINS lim) None, wp_count = 0\<rparr>"

definition partition_iter :: "WorkPartition \<Rightarrow> WorkSlice list" where
  "partition_iter w = List.map_filter (\<lambda>x. x) (take (wp_count w) (wp_slices w))"

text \<open>The domains that take part, with their weights, in domain order.\<close>

definition weighted_domains :: "TopologySnapshot \<Rightarrow> (u16 \<times> nat) list" where
  "weighted_domains t =
    filter (\<lambda>(_, w). w \<noteq> 0)
      (map (\<lambda>d. (dom_id d, enabled_member_count t d)) (filter (\<lambda>d. dom_kind d = Numa) (topo_domains t)))"

text \<open>The slice loop: fills slots from \<open>k\<close> on and moves the cursor.\<close>

fun fill_slices :: "(u16 \<times> nat) list \<Rightarrow> nat \<Rightarrow> nat \<Rightarrow> WorkSlice option list \<Rightarrow> WorkSlice option list" where
  "fill_slices [] k cursor slices = slices"
| "fill_slices ((d, chunk) # cs) k cursor slices =
    fill_slices cs (k + 1) (cursor + chunk)
      (slices[k := Some \<lparr>ws_domain_id = d, ws_start = cursor, ws_end = cursor + chunk\<rparr>])"

text \<open>
  \<open>None\<close> is a panic: an index beyond the fixed arrays, or the slice bound \<open>work_total - allocated\<close>
  underflowing or exceeding the chunk array.
\<close>

definition partition_work :: "kairos_limits \<Rightarrow> TopologySnapshot \<Rightarrow> nat \<Rightarrow> WorkPartition option" where
  "partition_work lim t work_total =
    (let ds = weighted_domains t;
         weights = map snd ds;
         domain_count = length ds;
         enabled_total = sum_list weights;
         partition = partition_empty lim
     in if domain_count > MAXIMUM_DOMAINS lim then None
        else if enabled_total = 0 then
          (if MAXIMUM_DOMAINS lim = 0 then None
           else Some (partition\<lparr>wp_slices := (wp_slices partition)[0 :=
                    Some \<lparr>ws_domain_id = 0, ws_start = 0, ws_end = work_total\<rparr>],
                  wp_count := 1\<rparr>))
        else
          let quotient = work_total div enabled_total;
              residual = work_total mod enabled_total;
              base = map (\<lambda>w. quotient * w + residual * w div enabled_total) weights;
              allocated = sum_list base;
              chunks = base @ replicate (MAXIMUM_DOMAINS lim - domain_count) 0
          in if work_total < allocated \<or> length chunks < work_total - allocated then None
             else
               let chunks' = map Suc (take (work_total - allocated) chunks) @ drop (work_total - allocated) chunks
               in Some (partition\<lparr>wp_slices := fill_slices (zip (map fst ds) (take domain_count chunks')) 0 0
                          (wp_slices partition),
                        wp_count := domain_count\<rparr>))"

section \<open>ABI negotiation\<close>

record NegotiatedFeatures =
  granted_lo :: u64
  granted_hi :: u64
  unavailable_lo :: u64
  unavailable_hi :: u64

definition features_has :: "NegotiatedFeatures \<Rightarrow> u64 \<Rightarrow> bool" where
  "features_has f feature \<longleftrightarrow> granted_lo f AND feature \<noteq> 0"

definition features_missing :: "NegotiatedFeatures \<Rightarrow> u64 \<Rightarrow> bool" where
  "features_missing f feature \<longleftrightarrow> unavailable_lo f AND feature \<noteq> 0"

datatype AbiError =
    AbiSyscall SyscallError
  | InvalidReply
  | RequiredFeatureMissing u64 u64

record AbiNegotiator =
  required_lo :: u64
  required_hi :: u64
  optional_lo :: u64
  optional_hi :: u64
  neg_abi_kind :: u8

definition negotiator_native :: "kairos_limits \<Rightarrow> AbiNegotiator" where
  "negotiator_native lim = \<lparr>required_lo = SYSCALL_BASIC lim, required_hi = 0, optional_lo = 0,
     optional_hi = 0, neg_abi_kind = ABI_KIND_NATIVE lim\<rparr>"

definition negotiator_driver :: "kairos_limits \<Rightarrow> AbiNegotiator" where
  "negotiator_driver lim = \<lparr>required_lo = SYSCALL_BASIC lim OR SYSCALL_DRIVER lim, required_hi = 0,
     optional_lo = 0, optional_hi = 0, neg_abi_kind = ABI_KIND_DRIVER lim\<rparr>"

definition negotiator_require :: "AbiNegotiator \<Rightarrow> u64 \<Rightarrow> AbiNegotiator" where
  "negotiator_require n feature = n\<lparr>required_lo := required_lo n OR feature\<rparr>"

definition negotiator_want :: "AbiNegotiator \<Rightarrow> u64 \<Rightarrow> AbiNegotiator" where
  "negotiator_want n feature = n\<lparr>optional_lo := optional_lo n OR feature\<rparr>"

record AbiRequest =
  req_magic :: u32
  req_version :: u16
  req_structure_size :: u16
  req_endian :: u8
  req_word_bits :: u8
  req_pointer_bits :: u8
  req_abi_kind :: u8
  req_page_size :: u32
  req_syscall_style :: u8
  req_object_bits :: u8
  req_features_lo_req :: u64
  req_features_hi_req :: u64
  req_features_lo_opt :: u64
  req_features_hi_opt :: u64

record AbiReply =
  rep_status :: i32
  rep_features_lo_granted :: u64
  rep_features_hi_granted :: u64
  rep_features_lo_unavailable :: u64
  rep_features_hi_unavailable :: u64

definition abi_request :: "kairos_limits \<Rightarrow> AbiNegotiator \<Rightarrow> AbiRequest" where
  "abi_request lim n = \<lparr>req_magic = ABI_MAGIC lim, req_version = ABI_VERSION lim,
     req_structure_size = of_nat (ABI_REQUEST_SIZE lim), req_endian = 1, req_word_bits = 64,
     req_pointer_bits = 64, req_abi_kind = neg_abi_kind n, req_page_size = 4096, req_syscall_style = 1,
     req_object_bits = 64, req_features_lo_req = required_lo n, req_features_hi_req = required_hi n,
     req_features_lo_opt = optional_lo n, req_features_hi_opt = optional_hi n\<rparr>"

definition abi_negotiate ::
  "kairos_limits \<Rightarrow> (AbiRequest \<Rightarrow> isize \<times> AbiReply) \<Rightarrow> AbiNegotiator
    \<Rightarrow> (AbiError, NegotiatedFeatures) result" where
  "abi_negotiate lim kern n =
    (case kern (abi_request lim n) of (rax, reply) \<Rightarrow>
      and_then (map_err AbiSyscall (syscall_decode rax)) (\<lambda>_.
        if rep_status reply \<noteq> 0
         \<or> rep_features_lo_granted reply AND NOT (required_lo n OR optional_lo n) \<noteq> 0
         \<or> rep_features_hi_granted reply AND NOT (required_hi n OR optional_hi n) \<noteq> 0
        then Err InvalidReply
        else
          let missing_lo = required_lo n AND NOT (rep_features_lo_granted reply);
              missing_hi = required_hi n AND NOT (rep_features_hi_granted reply)
          in if missing_lo \<noteq> 0 \<or> missing_hi \<noteq> 0 then Err (RequiredFeatureMissing missing_lo missing_hi)
             else Ok \<lparr>granted_lo = rep_features_lo_granted reply, granted_hi = rep_features_hi_granted reply,
                      unavailable_lo = rep_features_lo_unavailable reply,
                      unavailable_hi = rep_features_hi_unavailable reply\<rparr>))"

datatype KairosBootError = BootAbi AbiError | BootTopology KairosError

record KairosInit =
  init_topology :: TopologySnapshot
  init_features :: NegotiatedFeatures

definition kairos_run_with ::
  "kairos_limits \<Rightarrow> (AbiRequest \<Rightarrow> isize \<times> AbiReply) \<Rightarrow> topology_kernel \<Rightarrow> AbiNegotiator \<Rightarrow> u64 \<Rightarrow> u64
    \<Rightarrow> RawQuerySlot \<times> TopologySnapshot option
    \<Rightarrow> (RawQuerySlot \<times> TopologySnapshot option) \<times> (KairosBootError, KairosInit) result" where
  "kairos_run_with lim abi topo n required optional st =
    (case abi_negotiate lim abi (negotiator_want (negotiator_require n required) optional) of
       Inl e \<Rightarrow> (st, Err (BootAbi e))
     | Inr features \<Rightarrow>
         (case topology_query_ref lim topo st of
            (st', Inl e) \<Rightarrow> (st', Err (BootTopology e))
          | (st', Inr t) \<Rightarrow> (st', Ok \<lparr>init_topology = t, init_features = features\<rparr>)))"

definition kairos_run where
  "kairos_run lim abi topo required optional st =
    kairos_run_with lim abi topo (negotiator_native lim) required optional st"

definition kairos_run_driver where
  "kairos_run_driver lim abi topo required optional st =
    kairos_run_with lim abi topo (negotiator_driver lim) required optional st"


section \<open>What an accepted reply looks like\<close>

text \<open>
  The checks of \<open>from_raw\<close> as one predicate, stated over the whole reply rather than slot by slot.
  The parent links are only required to name a domain of the reply: a domain may be its own parent.
\<close>

definition used_cpus :: "RawTopologyReply \<Rightarrow> RawCpu list" where
  "used_cpus r = take (reply_cpu_count r) (reply_cpus r)"

definition used_domains :: "RawTopologyReply \<Rightarrow> RawDomain list" where
  "used_domains r = take (reply_domain_count r) (reply_domains r)"

definition used_members :: "RawDomain \<Rightarrow> u16 list" where
  "used_members d = take (raw_member_count d) (raw_members d)"

definition valid_domain :: "kairos_limits \<Rightarrow> u16 set \<Rightarrow> RawDomain \<Rightarrow> bool" where
  "valid_domain lim ids d \<longleftrightarrow>
     raw_member_count d \<le> MAXIMUM_CPUS_PER_DOMAIN lim \<and> raw_domain_kind d \<le> 1
   \<and> distinct (used_members d) \<and> set (used_members d) \<subseteq> ids"

definition valid_reply :: "kairos_limits \<Rightarrow> RawTopologyReply \<Rightarrow> bool" where
  "valid_reply lim r \<longleftrightarrow>
     0 < reply_cpu_count r \<and> reply_cpu_count r \<le> MAXIMUM_CPUS lim
   \<and> 0 < reply_domain_count r \<and> reply_domain_count r \<le> MAXIMUM_DOMAINS lim
   \<and> distinct (map raw_logical_id (used_cpus r)) \<and> distinct (map raw_id (used_domains r))
   \<and> list_all (valid_domain lim (raw_logical_id ` set (used_cpus r))) (used_domains r)
   \<and> list_all (\<lambda>d. raw_parent_valid d = 0 \<or> raw_parent_id d \<in> raw_id ` set (used_domains r)) (used_domains r)"

text \<open>The arrays of the wire structure have the lengths the crate declares.\<close>

definition wire_shape :: "kairos_limits \<Rightarrow> RawTopologyReply \<Rightarrow> bool" where
  "wire_shape lim r \<longleftrightarrow>
     length (reply_cpus r) = MAXIMUM_CPUS lim \<and> length (reply_domains r) = MAXIMUM_DOMAINS lim
   \<and> list_all (\<lambda>d. length (raw_members d) = MAXIMUM_CPUS_PER_DOMAIN lim) (reply_domains r)"

text \<open>The snapshot that holds exactly the decoded reply, the unused slots keeping their defaults.\<close>

definition decoded_topology :: "kairos_limits \<Rightarrow> RawTopologyReply \<Rightarrow> TopologySnapshot" where
  "decoded_topology lim r =
    \<lparr>ts_cpus = map cpu_of_raw (used_cpus r) @ replicate (MAXIMUM_CPUS lim - reply_cpu_count r) cpu_EMPTY,
     ts_cpu_count = reply_cpu_count r,
     ts_domains = map (domain_of_raw lim) (used_domains r)
       @ replicate (MAXIMUM_DOMAINS lim - reply_domain_count r) (domain_EMPTY lim),
     ts_domain_count = reply_domain_count r,
     ts_trait_flags = reply_trait_flags r\<rparr>"

lemma cpu_of_raw_id [simp]: "cpu_logical_id (cpu_of_raw r) = raw_logical_id r"
  by (simp add: cpu_of_raw_def)

lemma domain_of_raw_simps [simp]:
  "dom_id (domain_of_raw lim r) = raw_id r"
  "dom_parent (domain_of_raw lim r) = (if raw_parent_valid r \<noteq> 0 then Some (raw_parent_id r) else None)"
  "dom_member_count (domain_of_raw lim r) = raw_member_count r"
  by (simp_all add: domain_of_raw_def)

lemma domain_of_raw_members:
  assumes "raw_member_count r \<le> length (raw_members r)"
  shows "domain_members (domain_of_raw lim r) = used_members r"
  using assms take_copy_prefix [of "used_members r" "dom_members (domain_EMPTY lim)"]
  by (simp add: domain_members_def used_members_def domain_of_raw_def)

lemma has_repeat_distinct: "has_repeat ms \<longleftrightarrow> \<not> distinct ms"
proof -
  have "distinct ms \<longleftrightarrow> (\<forall>i < length ms. ms ! i \<notin> set (take i ms))"
  proof (induction ms rule: rev_induct)
    case (snoc x xs)
    then show ?case by (auto simp: nth_append less_Suc_eq)
  qed simp
  then show ?thesis by (auto simp: has_repeat_def list_ex_iff)
qed

lemma list_ex_key: "list_ex (\<lambda>x. f x = k) xs \<longleftrightarrow> k \<in> f ` set xs"
  by (auto simp: list_ex_iff intro: rev_image_eqI)

lemma fresh_keys_step:
  "(distinct (map k xs) \<and> (\<forall>r \<in> set xs. k r \<notin> insert (k x) S)) \<longleftrightarrow>
   distinct (map k (x # xs)) \<and> (\<forall>r \<in> set xs. k r \<notin> S)"
  by (auto intro: rev_image_eqI)

lemma take_list_update_Suc:
  "i < length xs \<Longrightarrow> take (Suc i) (xs[i := x]) = take i xs @ [x]"
  by (simp add: take_Suc_conv_app_nth)

lemma load_cpus_eq:
  assumes "index + length raws \<le> length cpus"
  shows "load_cpus raws index cpus =
    (if distinct (map raw_logical_id raws)
        \<and> (\<forall>r \<in> set raws. raw_logical_id r \<notin> cpu_logical_id ` set (take index cpus))
     then Ok (take index cpus @ map cpu_of_raw raws @ drop (index + length raws) cpus)
     else Err InvalidTopology)"
  using assms
proof (induction raws index cpus rule: load_cpus.induct)
  case (2 raw raws index cpus)
  have tk: "take (Suc index) (cpus[index := cpu_of_raw raw]) = take index cpus @ [cpu_of_raw raw]"
    using "2.prems" by (intro take_list_update_Suc) simp
  have ex: "list_ex (\<lambda>cpu. cpu_logical_id cpu = raw_logical_id raw) (take index cpus)
      \<longleftrightarrow> raw_logical_id raw \<in> cpu_logical_id ` set (take index cpus)"
    by (rule list_ex_key)
  show ?case
  proof (cases "raw_logical_id raw \<in> cpu_logical_id ` set (take index cpus)")
    case True
    with ex show ?thesis by (auto simp del: take_all_iff)
  next
    case False
    have "load_cpus raws (Suc index) (cpus[index := cpu_of_raw raw]) =
      (if distinct (map raw_logical_id raws)
         \<and> (\<forall>r \<in> set raws. raw_logical_id r \<notin> insert (raw_logical_id raw) (cpu_logical_id ` set (take index cpus)))
       then Ok (take index cpus @ map cpu_of_raw (raw # raws) @ drop (index + length (raw # raws)) cpus)
       else Err InvalidTopology)"
      using "2.IH" "2.prems" tk False ex by simp
    then show ?thesis using False ex by (simp only: fresh_keys_step load_cpus.simps if_False) simp
  qed
qed simp

abbreviation domain_checks :: "kairos_limits \<Rightarrow> CpuDescriptor list \<Rightarrow> RawDomain \<Rightarrow> bool" where
  "domain_checks lim cpus \<equiv> valid_domain lim (cpu_logical_id ` set cpus)"

lemma load_domains_Cons:
  "load_domains lim cpus (raw # raws) index domains =
    (if domain_checks lim cpus raw \<and> raw_id raw \<notin> dom_id ` set (take index domains)
     then load_domains lim cpus raws (index + 1) (domains[index := domain_of_raw lim raw])
     else Err InvalidTopology)"
proof -
  have "(raw_member_count raw > MAXIMUM_CPUS_PER_DOMAIN lim \<or> raw_domain_kind raw > 1
      \<or> list_ex (\<lambda>d. dom_id d = raw_id raw) (take index domains)
      \<or> has_repeat (used_members raw)
      \<or> list_ex (\<lambda>m. \<not> list_ex (\<lambda>cpu. cpu_logical_id cpu = m) cpus) (used_members raw))
    \<longleftrightarrow> \<not> (domain_checks lim cpus raw \<and> raw_id raw \<notin> dom_id ` set (take index domains))"
    by (simp add: valid_domain_def has_repeat_distinct list_ex_key)
      (auto simp: list_ex_iff not_le not_less)
  then have "load_domains lim cpus (raw # raws) index domains =
    (if \<not> (domain_checks lim cpus raw \<and> raw_id raw \<notin> dom_id ` set (take index domains))
     then Err InvalidTopology
     else load_domains lim cpus raws (index + 1) (domains[index := domain_of_raw lim raw]))"
    by (simp only: load_domains.simps Let_def used_members_def)
  then show ?thesis by (simp split: if_splits)
qed

lemma load_domains_eq:
  assumes "index + length raws \<le> length domains"
  shows "load_domains lim cpus raws index domains =
    (if list_all (domain_checks lim cpus) raws \<and> distinct (map raw_id raws)
        \<and> (\<forall>r \<in> set raws. raw_id r \<notin> dom_id ` set (take index domains))
     then Ok (take index domains @ map (domain_of_raw lim) raws @ drop (index + length raws) domains)
     else Err InvalidTopology)"
  using assms
proof (induction raws arbitrary: index domains)
  case (Cons raw raws)
  have tk: "take (Suc index) (domains[index := domain_of_raw lim raw]) = take index domains @ [domain_of_raw lim raw]"
    using Cons.prems by (intro take_list_update_Suc) simp
  have IH: "load_domains lim cpus raws (Suc index) (domains[index := domain_of_raw lim raw]) =
     (if list_all (domain_checks lim cpus) raws \<and> distinct (map raw_id raws)
        \<and> (\<forall>r \<in> set raws. raw_id r \<notin> insert (raw_id raw) (dom_id ` set (take index domains)))
     then Ok (take index domains @ [domain_of_raw lim raw] @ map (domain_of_raw lim) raws
               @ drop (Suc index + length raws) domains)
     else Err InvalidTopology)"
    using Cons.IH [of "Suc index" "domains[index := domain_of_raw lim raw]"] Cons.prems tk by simp
  show ?case
  proof (cases "domain_checks lim cpus raw \<and> raw_id raw \<notin> dom_id ` set (take index domains)")
    case True
    with IH show ?thesis by (simp only: load_domains_Cons fresh_keys_step if_True) simp
  next
    case False
    then show ?thesis by (simp only: load_domains_Cons) auto
  qed
qed simp

lemma load_all_cpus:
  assumes "wire_shape lim r" and "reply_cpu_count r \<le> MAXIMUM_CPUS lim"
  shows "load_cpus (used_cpus r) 0 (ts_cpus (topology_empty lim)) =
    (if distinct (map raw_logical_id (used_cpus r))
     then Ok (ts_cpus (decoded_topology lim r)) else Err InvalidTopology)"
  using assms load_cpus_eq [of 0 "used_cpus r" "ts_cpus (topology_empty lim)"]
  by (simp add: topology_empty_def decoded_topology_def wire_shape_def used_cpus_def min_def drop_replicate)

lemma decoded_cpus:
  assumes "wire_shape lim r" and "reply_cpu_count r \<le> MAXIMUM_CPUS lim"
  shows "take (reply_cpu_count r) (ts_cpus (decoded_topology lim r)) = map cpu_of_raw (used_cpus r)"
  using assms by (simp add: decoded_topology_def wire_shape_def used_cpus_def)

lemma decoded_domains:
  assumes "wire_shape lim r" and "reply_domain_count r \<le> MAXIMUM_DOMAINS lim"
  shows "take (reply_domain_count r) (ts_domains (decoded_topology lim r)) =
    map (domain_of_raw lim) (used_domains r)"
  using assms by (simp add: decoded_topology_def wire_shape_def used_domains_def)

lemma load_all_domains:
  assumes "wire_shape lim r" and "reply_domain_count r \<le> MAXIMUM_DOMAINS lim"
  shows "load_domains lim cpus (used_domains r) 0 (ts_domains (topology_empty lim)) =
    (if list_all (valid_domain lim (cpu_logical_id ` set cpus)) (used_domains r)
        \<and> distinct (map raw_id (used_domains r))
     then Ok (ts_domains (decoded_topology lim r)) else Err InvalidTopology)"
  using assms load_domains_eq [of 0 "used_domains r" "ts_domains (topology_empty lim)" lim cpus]
  by (simp add: topology_empty_def decoded_topology_def wire_shape_def used_domains_def min_def
      drop_replicate)

lemma orphan_parent_iff:
  "list_ex (orphaned (map (domain_of_raw lim) rs)) (map (domain_of_raw lim) rs)
  \<longleftrightarrow> \<not> list_all (\<lambda>d. raw_parent_valid d = 0 \<or> raw_parent_id d \<in> raw_id ` set rs) rs"
  by (auto simp: orphaned_def list_ex_key image_image list_ex_iff [where P = "orphaned _"] list_all_iff
      split: if_splits)

lemma from_raw_unfold:
  assumes shape: "wire_shape lim r"
    and cpus: "0 < reply_cpu_count r" "reply_cpu_count r \<le> MAXIMUM_CPUS lim"
    and doms: "0 < reply_domain_count r" "reply_domain_count r \<le> MAXIMUM_DOMAINS lim"
  shows "topology_from_raw lim r =
    (if valid_reply lim r then Ok (decoded_topology lim r) else Err InvalidTopology)"
proof (cases "distinct (map raw_logical_id (used_cpus r))")
  case False
  with load_all_cpus [OF shape cpus(2)] cpus doms show ?thesis
    by (auto simp: topology_from_raw_def valid_reply_def Let_def used_cpus_def)
next
  case True
  let ?D = "decoded_topology lim r"
  have ids: "cpu_logical_id ` set (map cpu_of_raw (used_cpus r)) = raw_logical_id ` set (used_cpus r)"
    by (simp add: image_image del: image_set)
  have rec: "(topology_empty lim)\<lparr>ts_cpus := ts_cpus ?D, ts_cpu_count := reply_cpu_count r,
      ts_domains := ts_domains ?D, ts_domain_count := reply_domain_count r,
      ts_trait_flags := reply_trait_flags r\<rparr> = ?D"
    by (simp add: topology_empty_def decoded_topology_def)
  have "topology_from_raw lim r =
    and_then (load_domains lim (map cpu_of_raw (used_cpus r)) (used_domains r) 0 (ts_domains (topology_empty lim)))
     (\<lambda>domains. if list_ex (orphaned (take (reply_domain_count r) domains)) (take (reply_domain_count r) domains)
       then Err InvalidTopology
       else Ok ((topology_empty lim)\<lparr>ts_cpus := ts_cpus ?D, ts_cpu_count := reply_cpu_count r,
          ts_domains := domains, ts_domain_count := reply_domain_count r,
          ts_trait_flags := reply_trait_flags r\<rparr>))"
    using load_all_cpus [OF shape cpus(2)] True cpus doms decoded_cpus [OF shape cpus(2)]
    by (simp add: topology_from_raw_def Let_def used_cpus_def used_domains_def)
  also have "\<dots> = (if valid_reply lim r then Ok ?D else Err InvalidTopology)"
    using True cpus doms decoded_domains [OF shape doms(2)] rec
    by (simp add: load_all_domains [OF shape doms(2), of "map cpu_of_raw (used_cpus r)", unfolded ids]
        orphan_parent_iff valid_reply_def)
  finally show ?thesis .
qed

text \<open>
  C15. Validation of the kernel's topology reply is exact: \<open>from_raw\<close> accepts a reply if and only if
  it has between one and the maximum number of CPUs and of domains, the logical ids and the domain
  ids are each pairwise different, every domain has a known kind, at most the maximum number of
  members, no member twice and only members that are CPUs of the reply, and every parent named is a
  domain of the reply; the snapshot then holds exactly the decoded entries, and every other reply
  is refused with \<open>InvalidTopology\<close>.
\<close>

theorem topology_validation_exact:
  assumes "wire_shape lim r"
  shows "topology_from_raw lim r =
    (if valid_reply lim r then Ok (decoded_topology lim r) else Err InvalidTopology)"
proof (cases "0 < reply_cpu_count r \<and> reply_cpu_count r \<le> MAXIMUM_CPUS lim
    \<and> 0 < reply_domain_count r \<and> reply_domain_count r \<le> MAXIMUM_DOMAINS lim")
  case True
  with assms show ?thesis by (intro from_raw_unfold) simp_all
next
  case False
  then show ?thesis by (auto simp: topology_from_raw_def valid_reply_def Let_def)
qed

definition example_limits :: kairos_limits where
  "example_limits = \<lparr>MAXIMUM_CPUS = 3, MAXIMUM_DOMAINS = 2, MAXIMUM_CPUS_PER_DOMAIN = 2,
     FLAG_SMP = 1, FLAG_NUMA = 2, FLAG_HETEROGENEOUS = 4, FLAG_OFFLOAD = 8,
     ABI_MAGIC = 0x1234, ABI_VERSION = 1, ABI_KIND_NATIVE = 0, ABI_KIND_DRIVER = 1,
     SYSCALL_BASIC = 1, SYSCALL_DRIVER = 2, ABI_REQUEST_SIZE = 64\<rparr>"

definition example_cpu :: "u16 \<Rightarrow> RawCpu" where
  "example_cpu i = \<lparr>raw_logical_id = i, raw_hardware_id = 0, raw_package = 0, raw_core = i, raw_thread = 0,
     raw_numa_domain = 1, raw_cpu_kind = 1, raw_enabled = 1\<rparr>"

definition example_reply :: RawTopologyReply where
  "example_reply = \<lparr>reply_cpu_count = 2, reply_domain_count = 2, reply_trait_flags = 3,
     reply_cpus = [example_cpu 4, example_cpu 7, example_cpu 0],
     reply_domains = [
       \<lparr>raw_id = 0, raw_domain_kind = 0, raw_parent_valid = 0, raw_parent_id = 0, raw_member_count = 2,
        raw_members = [4, 7]\<rparr>,
       \<lparr>raw_id = 1, raw_domain_kind = 1, raw_parent_valid = 1, raw_parent_id = 0, raw_member_count = 1,
        raw_members = [7, 0]\<rparr>]\<rparr>"

lemma example_wire_shape: "wire_shape example_limits example_reply"
  by (simp add: wire_shape_def example_limits_def example_reply_def)

lemma example_valid: "valid_reply example_limits example_reply"
  by (simp add: valid_reply_def valid_domain_def used_cpus_def used_domains_def used_members_def
      example_limits_def example_reply_def example_cpu_def)

theorem topology_validation_exact_witness:
  "topology_from_raw example_limits example_reply = Ok (decoded_topology example_limits example_reply)"
  using topology_validation_exact [OF example_wire_shape] example_valid by simp

section \<open>The work partition is exact\<close>

fun contiguous :: "nat \<Rightarrow> WorkSlice list \<Rightarrow> nat \<Rightarrow> bool" where
  "contiguous a [] b \<longleftrightarrow> a = b"
| "contiguous a (s # ss) b \<longleftrightarrow> ws_start s = a \<and> ws_start s \<le> ws_end s \<and> contiguous (ws_end s) ss b"

fun slices_from :: "nat \<Rightarrow> (u16 \<times> nat) list \<Rightarrow> WorkSlice list" where
  "slices_from cursor [] = []"
| "slices_from cursor ((d, chunk) # cs) =
    \<lparr>ws_domain_id = d, ws_start = cursor, ws_end = cursor + chunk\<rparr> # slices_from (cursor + chunk) cs"

lemma length_slices_from [simp]: "length (slices_from c cs) = length cs"
  by (induction c cs rule: slices_from.induct) auto

lemma fill_slices_eq:
  assumes "k + length cs \<le> length slices"
  shows "fill_slices cs k cursor slices =
    take k slices @ map Some (slices_from cursor cs) @ drop (k + length cs) slices"
  using assms
  by (induction cs k cursor slices rule: fill_slices.induct) (auto simp: take_list_update_Suc)

lemma slices_from_contiguous: "contiguous c (slices_from c cs) (c + sum_list (map snd cs))"
  by (induction c cs rule: slices_from.induct) (auto simp: add.assoc [symmetric])

lemma slices_from_ids: "map ws_domain_id (slices_from c cs) = map fst cs"
  by (induction c cs rule: slices_from.induct) auto

lemma slices_from_lens: "map slice_len (slices_from c cs) = map snd cs"
  by (induction c cs rule: slices_from.induct) (auto simp: slice_len_def)

lemma map_filter_somes: "List.map_filter (\<lambda>x. x) (map Some xs) = xs"
  by (induction xs) (auto simp: map_filter_simps)

text \<open>Largest-floor apportionment: the floors leave fewer units over than there are weights.\<close>

abbreviation floor_share :: "nat \<Rightarrow> nat \<Rightarrow> nat \<Rightarrow> nat" where
  "floor_share n e w \<equiv> n * w div e"

lemma base_chunk: "(n div e) * w + (n mod e) * w div e = floor_share n e w" for n e w :: nat
proof (cases "e = 0")
  case False
  have "n * w = (n div e) * w * e + (n mod e) * w"
    by (metis (no_types, lifting) add_mult_distrib div_mod_decomp mult.assoc mult.commute)
  with False show ?thesis by simp
qed simp

lemma share_sum:
  fixes ws :: "nat list"
  shows "e * sum_list (map (floor_share n e) ws) + sum_list (map (\<lambda>w. n * w mod e) ws) = n * sum_list ws"
  by (induction ws) (simp_all add: algebra_simps)

lemma mods_bound:
  fixes ws :: "nat list"
  assumes "0 < e" "ws \<noteq> []"
  shows "sum_list (map (\<lambda>w. n * w mod e) ws) < e * length ws"
  using assms(2)
proof (induction ws rule: list_nonempty_induct)
  case (cons w ws)
  moreover have "n * w mod e < e" using assms by simp
  ultimately show ?case by simp
qed (use assms in simp)

lemma apportion_bounds:
  fixes ws :: "nat list"
  defines "e \<equiv> sum_list ws"
  assumes "0 < e"
  shows "sum_list (map (floor_share n e) ws) \<le> n"
    and "n - sum_list (map (floor_share n e) ws) < length ws"
proof -
  let ?S = "sum_list (map (floor_share n e) ws)" and ?M = "sum_list (map (\<lambda>w. n * w mod e) ws)"
  have eq: "e * ?S + ?M = e * n" using share_sum [of e n ws] by (simp add: e_def mult.commute)
  then have "e * ?S \<le> e * n" by linarith
  with assms show le: "?S \<le> n" by simp
  from assms have "ws \<noteq> []" by auto
  with assms have "?M < e * length ws" by (intro mods_bound) auto
  with eq have "e * (n - ?S) < e * length ws" by (simp add: diff_mult_distrib2)
  with assms show "n - ?S < length ws" by simp
qed

definition bump :: "nat \<Rightarrow> nat list \<Rightarrow> nat list" where
  "bump m xs = map Suc (take m xs) @ drop m xs"

lemma bump_props:
  assumes "m \<le> length xs"
  shows "length (bump m xs) = length xs" "sum_list (bump m xs) = m + sum_list xs"
    "i < length xs \<Longrightarrow> bump m xs ! i = (if i < m then Suc (xs ! i) else xs ! i)"
proof -
  have "sum_list (map Suc ys) = length ys + sum_list ys" for ys by (induction ys) auto
  moreover have "sum_list (take m xs) + sum_list (drop m xs) = sum_list xs"
    by (metis append_take_drop_id sum_list_append)
  ultimately show "sum_list (bump m xs) = m + sum_list xs" using assms by (simp add: bump_def min_def)
  show "length (bump m xs) = length xs" using assms by (simp add: bump_def)
  show "bump m xs ! i = (if i < m then Suc (xs ! i) else xs ! i)" if "i < length xs"
    using that assms by (auto simp: bump_def nth_append min_def)
qed

text \<open>The chunk of every participating domain, in domain order.\<close>

definition shares :: "nat \<Rightarrow> nat list \<Rightarrow> nat list" where
  "shares n ws = (let base = map (floor_share n (sum_list ws)) ws in bump (n - sum_list base) base)"

lemma shares_props:
  assumes "0 < sum_list ws"
  shows "length (shares n ws) = length ws" and "sum_list (shares n ws) = n"
    and "i < length ws \<Longrightarrow> shares n ws ! i \<in> {floor_share n (sum_list ws) (ws ! i) ..
           floor_share n (sum_list ws) (ws ! i) + 1}"
proof -
  let ?base = "map (floor_share n (sum_list ws)) ws"
  note b = apportion_bounds [OF assms, of n]
  then have m: "n - sum_list ?base \<le> length ?base" by simp
  show "length (shares n ws) = length ws" using bump_props(1) [OF m] by (simp add: shares_def Let_def)
  show "sum_list (shares n ws) = n" using bump_props(2) [OF m] b by (simp add: shares_def Let_def)
  show "i < length ws \<Longrightarrow> shares n ws ! i \<in> {floor_share n (sum_list ws) (ws ! i) ..
           floor_share n (sum_list ws) (ws ! i) + 1}"
    using bump_props(3) [OF m, of i] by (auto simp: shares_def Let_def)
qed

lemma partition_work_none:
  assumes "length (weighted_domains t) \<le> MAXIMUM_DOMAINS lim" "0 < MAXIMUM_DOMAINS lim"
    and "sum_list (map snd (weighted_domains t)) = 0"
  shows "\<exists>w. partition_work lim t n = Some w
    \<and> partition_iter w = [\<lparr>ws_domain_id = 0, ws_start = 0, ws_end = n\<rparr>]"
proof -
  have "partition_work lim t n = Some ((partition_empty lim)\<lparr>wp_slices := (wp_slices (partition_empty lim))[0 :=
      Some \<lparr>ws_domain_id = 0, ws_start = 0, ws_end = n\<rparr>], wp_count := 1\<rparr>)"
    using assms by (simp add: partition_work_def Let_def)
  then show ?thesis using assms
    by (simp add: partition_iter_def partition_empty_def take_list_update_Suc [of 0, simplified] map_filter_simps)
qed

lemma partition_work_some:
  assumes "length (weighted_domains t) \<le> MAXIMUM_DOMAINS lim"
    and pos: "0 < sum_list (map snd (weighted_domains t))"
  shows "\<exists>w. partition_work lim t n = Some w
    \<and> partition_iter w = slices_from 0 (zip (map fst (weighted_domains t)) (shares n (map snd (weighted_domains t))))"
proof -
  let ?ds = "weighted_domains t"
  let ?ws = "map snd ?ds" and ?c = "length (weighted_domains t)" and ?M = "MAXIMUM_DOMAINS lim"
  let ?base = "map (floor_share n (sum_list ?ws)) ?ws"
  let ?m = "n - sum_list ?base"
  let ?pad = "replicate (?M - ?c) 0"
  let ?cs = "zip (map fst ?ds) (shares n ?ws)"
  note b = apportion_bounds [OF pos, of n]
  have tk: "take ?c (map Suc (take ?m (?base @ ?pad)) @ drop ?m (?base @ ?pad)) = shares n ?ws"
    using b by (simp add: shares_def Let_def bump_def)
  have len: "length ?cs = ?c" using shares_props(1) [OF pos, of n] by simp
  have "partition_work lim t n = Some ((partition_empty lim)\<lparr>
      wp_slices := fill_slices ?cs 0 0 (wp_slices (partition_empty lim)), wp_count := ?c\<rparr>)"
    using assms b tk gr_implies_not0 [OF pos] unfolding partition_work_def Let_def base_chunk
    by (simp add: comp_def del: sum_list_eq_0_iff)
  moreover have "take ?c (fill_slices ?cs 0 0 (wp_slices (partition_empty lim))) = map Some (slices_from 0 ?cs)"
    using assms len by (simp add: fill_slices_eq partition_empty_def)
  ultimately show ?thesis by (simp add: partition_iter_def map_filter_somes)
qed

lemma weighted_domains_bound: "length (weighted_domains t) \<le> ts_domain_count t"
proof -
  have "length (weighted_domains t) \<le> length (topo_domains t)"
    unfolding weighted_domains_def
    by (rule le_trans [OF length_filter_le]) (simp only: length_map length_filter_le)
  then show ?thesis by (simp add: topo_domains_def)
qed

lemma from_raw_domain_count:
  assumes "topology_from_raw lim r = Ok t"
  shows "0 < ts_domain_count t" "ts_domain_count t \<le> MAXIMUM_DOMAINS lim"
  using assms by (auto simp: topology_from_raw_def Let_def rust_result split: if_splits)

lemma from_raw_weighted_bound:
  assumes "topology_from_raw lim r = Ok t"
  shows "length (weighted_domains t) \<le> MAXIMUM_DOMAINS lim" "0 < MAXIMUM_DOMAINS lim"
  using from_raw_domain_count [OF assms] weighted_domains_bound [of t] by simp_all

text \<open>The reference specification of the partition of \<open>n\<close> items.\<close>

definition fair_partition :: "TopologySnapshot \<Rightarrow> nat \<Rightarrow> WorkSlice list \<Rightarrow> bool" where
  "fair_partition t n slices \<longleftrightarrow>
    (let ds = weighted_domains t; e = sum_list (map snd ds) in
     contiguous 0 slices n \<and>
     (if e = 0 then map ws_domain_id slices = [0]
      else map ws_domain_id slices = map fst ds
         \<and> list_all2 (\<lambda>s (_, w). floor_share n e w \<le> slice_len s \<and> slice_len s \<le> floor_share n e w + 1)
              slices ds))"

lemma fair_slices:
  assumes pos: "0 < sum_list (map snd (weighted_domains t))"
  shows "fair_partition t n
    (slices_from 0 (zip (map fst (weighted_domains t)) (shares n (map snd (weighted_domains t)))))"
proof -
  let ?ds = "weighted_domains t" and ?sh = "shares n (map snd (weighted_domains t))"
  let ?cs = "zip (map fst ?ds) ?sh" and ?e = "sum_list (map snd (weighted_domains t))"
  note sh = shares_props [OF pos, where n = n]
  have len: "length ?sh = length ?ds" using sh(1) by simp
  then have snds: "map snd ?cs = ?sh" and fsts: "map fst ?cs = map fst ?ds" by simp_all
  have cont: "contiguous 0 (slices_from 0 ?cs) n"
    using slices_from_contiguous [of 0 ?cs] sh(2) unfolding snds by simp
  have "floor_share n ?e (snd (?ds ! i)) \<le> slice_len (slices_from 0 ?cs ! i)
      \<and> slice_len (slices_from 0 ?cs ! i) \<le> floor_share n ?e (snd (?ds ! i)) + 1" if "i < length ?ds" for i
  proof -
    have "slice_len (slices_from 0 ?cs ! i) = map slice_len (slices_from 0 ?cs) ! i"
      using that len by simp
    also have "\<dots> = ?sh ! i" by (simp only: slices_from_lens snds)
    finally show ?thesis using sh(3) [of i] that by simp
  qed
  then have "list_all2 (\<lambda>s (_, w). floor_share n ?e w \<le> slice_len s \<and> slice_len s \<le> floor_share n ?e w + 1)
      (slices_from 0 ?cs) ?ds"
    using len by (simp add: list_all2_conv_all_nth case_prod_unfold)
  moreover have "map ws_domain_id (slices_from 0 ?cs) = map fst ?ds" by (simp only: slices_from_ids fsts)
  ultimately show ?thesis using cont gr_implies_not0 [OF pos] by (simp add: fair_partition_def Let_def del: sum_list_eq_0_iff)
qed

lemma partition_of_validated:
  assumes "topology_from_raw lim r = Ok t"
  shows "\<exists>w. partition_work lim t n = Some w \<and> fair_partition t n (partition_iter w)"
proof (cases "sum_list (map snd (weighted_domains t)) = 0")
  case True
  from partition_work_none [OF from_raw_weighted_bound [OF assms] True, of n] True
  show ?thesis by (auto simp: fair_partition_def Let_def simp del: sum_list_eq_0_iff)
next
  case False
  then have "0 < sum_list (map snd (weighted_domains t))" by (simp only: neq0_conv not_gr_zero)
  with partition_work_some [OF from_raw_weighted_bound(1) [OF assms], of n] fair_slices [of t n]
  show ?thesis by metis
qed

text \<open>
  C16. Partitioning work over any topology that passed validation never panics, and the slices are
  exact: they follow each other without gap or overlap from 0 to the requested total, one for each
  NUMA domain with an enabled CPU in domain order, and each has its proportional share rounded down
  or that plus one.  Without an enabled NUMA CPU a single slice covers everything.
\<close>

theorem partition_work_fair:
  assumes "topology_from_raw lim r = Ok t"
  shows "\<exists>w. partition_work lim t n = Some w \<and> fair_partition t n (partition_iter w)"
  by (rule partition_of_validated [OF assms])

lemma example_topology: "topology_from_raw example_limits example_reply = Ok (decoded_topology example_limits example_reply)"
  using from_raw_unfold [OF example_wire_shape] example_valid by (simp add: valid_reply_def)

theorem partition_work_fair_witness:
  "\<exists>w. partition_work example_limits (decoded_topology example_limits example_reply) 101 = Some w
     \<and> fair_partition (decoded_topology example_limits example_reply) 101 (partition_iter w)"
  by (rule partition_work_fair [OF example_topology])

section \<open>Iterators\<close>

abbreviation local_cpu :: "u16 \<Rightarrow> CpuDescriptor \<Rightarrow> bool" where
  "local_cpu d \<equiv> \<lambda>c. cpu_enabled c \<and> cpu_numa_domain c = d"

lemma drop_topo_cpus:
  assumes "ts_cpu_count t \<le> length (ts_cpus t)" "i < ts_cpu_count t"
  shows "drop i (topo_cpus t) = ts_cpus t ! i # drop (i + 1) (topo_cpus t)"
  using assms Cons_nth_drop_Suc [of i "topo_cpus t"] by (simp add: topo_cpus_def)

lemma nucleus_next_spec:
  assumes "ts_cpu_count t \<le> length (ts_cpus t)"
  shows "filter (local_cpu d) (drop i (topo_cpus t)) =
    (case nucleus_next t d i of (_, None) \<Rightarrow> []
     | (j, Some c) \<Rightarrow> c # filter (local_cpu d) (drop j (topo_cpus t)))"
  using assms
proof (induction t d i rule: nucleus_next.induct)
  case (1 t d i)
  show ?case
  proof (cases "i < ts_cpu_count t")
    case True
    with "1.IH" [OF True refl] "1.prems" show ?thesis
      by (subst nucleus_next.simps) (simp add: Let_def drop_topo_cpus)
  next
    case False
    then show ?thesis by (subst nucleus_next.simps) (simp add: topo_cpus_def)
  qed
qed

text \<open>Draining the iterator yields the enabled CPUs of the domain, in order.\<close>

lemma nucleus_collect_filter:
  assumes "ts_cpu_count t \<le> length (ts_cpus t)"
  shows "nucleus_collect t d i = filter (local_cpu d) (drop i (topo_cpus t))"
  using assms
proof (induction t d i rule: nucleus_collect.induct)
  case (1 t d i)
  obtain j oc where nxt: "nucleus_next t d i = (j, oc)" by (cases "nucleus_next t d i")
  show ?case
  proof (cases oc)
    case None
    then show ?thesis using nxt nucleus_next_spec [OF "1.prems", of d i] by (subst nucleus_collect.simps) simp
  next
    case (Some c)
    then have "nucleus_collect t d j = filter (local_cpu d) (drop j (topo_cpus t))"
      using "1.IH" nxt "1.prems" by simp
    then show ?thesis using Some nxt nucleus_next_spec [OF "1.prems", of d i]
      by (subst nucleus_collect.simps) simp
  qed
qed

lemma from_raw_cpu_count:
  assumes "wire_shape lim r" "topology_from_raw lim r = Ok t"
  shows "ts_cpu_count t \<le> length (ts_cpus t)"
proof -
  from assms(2) have b: "0 < reply_cpu_count r \<and> reply_cpu_count r \<le> MAXIMUM_CPUS lim
      \<and> 0 < reply_domain_count r \<and> reply_domain_count r \<le> MAXIMUM_DOMAINS lim"
    by (auto simp: topology_from_raw_def Let_def split: if_splits)
  with from_raw_unfold [OF assms(1)] assms have "t = decoded_topology lim r"
    by (auto split: if_splits)
  with b assms(1) show ?thesis by (simp add: decoded_topology_def used_cpus_def wire_shape_def)
qed

text \<open>
  Draining \<open>numa_local_cpus\<close> on a validated topology terminates without an index panic and
  yields exactly the enabled CPUs of the requested NUMA domain, in the order of the reply; at any
  point the remaining items are those of the remaining CPUs.
\<close>

theorem numa_local_cpus_exact:
  assumes "wire_shape lim r" "topology_from_raw lim r = Ok t"
  shows "nucleus_collect t d i = filter (\<lambda>c. cpu_enabled c \<and> cpu_numa_domain c = d) (drop i (topo_cpus t))"
  using from_raw_cpu_count [OF assms] by (rule nucleus_collect_filter)

theorem numa_local_cpus_exact_witness:
  "map cpu_logical_id (nucleus_collect (decoded_topology example_limits example_reply) 1 0) = [4, 7]"
  unfolding numa_local_cpus_exact [OF example_wire_shape example_topology]
  by (simp add: decoded_topology_def topo_cpus_def used_cpus_def cpu_of_raw_def example_reply_def example_cpu_def)

section \<open>Affinity\<close>

lemma affinity_scan_find:
  "affinity_scan lim t cls kind ds =
    (case find (\<lambda>d. (cls = WlOffload \<or> dom_kind d = Numa) \<and> domain_has_enabled_kind t d kind) ds of
       None \<Rightarrow> hint_any
     | Some d \<Rightarrow> \<lparr>hint_domain_id = dom_id d, hint_preferred_kind = kind,
         hint_smp_eligible = (cls \<noteq> WlOffload \<and> (cls = WlIo \<or> topo_has_trait t (FLAG_SMP lim)))\<rparr>)"
  by (induction ds) auto

section \<open>Negotiation\<close>

text \<open>The features a negotiation may end with, as sets of bit positions.\<close>

definition feature_set :: "u64 \<Rightarrow> nat set" where "feature_set w = {n. n < 64 \<and> bit w n}"

lemma feature_set_subset: "feature_set a \<subseteq> feature_set b \<longleftrightarrow> a AND NOT b = 0"
proof
  assume "feature_set a \<subseteq> feature_set b"
  then show "a AND NOT b = 0"
    by (intro bit_word_eqI) (auto simp: feature_set_def bit_and_iff bit_not_iff)
next
  assume z: "a AND NOT b = 0"
  show "feature_set a \<subseteq> feature_set b"
  proof
    fix n assume n: "n \<in> feature_set a"
    have "\<not> bit (a AND NOT b) n" using z by simp
    with n show "n \<in> feature_set b" by (simp add: feature_set_def bit_and_iff bit_not_iff)
  qed
qed

lemma feature_set_or: "feature_set (a OR b) = feature_set a \<union> feature_set b"
  by (auto simp: feature_set_def bit_or_iff)

lemma abi_negotiate_Ok:
  assumes "abi_negotiate lim kern n = Ok f"
  shows "feature_set (required_lo n) \<subseteq> feature_set (granted_lo f)"
    "feature_set (granted_lo f) \<subseteq> feature_set (required_lo n) \<union> feature_set (optional_lo n)"
    "feature_set (required_hi n) \<subseteq> feature_set (granted_hi f)"
    "feature_set (granted_hi f) \<subseteq> feature_set (required_hi n) \<union> feature_set (optional_hi n)"
  using assms unfolding feature_set_or [symmetric] feature_set_subset
  by (auto simp: abi_negotiate_def Let_def rust_result split: prod.splits if_splits)

lemma abi_negotiate_missing:
  assumes "abi_negotiate lim kern n = Err (RequiredFeatureMissing lo hi)"
  shows "feature_set lo \<subseteq> feature_set (required_lo n)" "feature_set hi \<subseteq> feature_set (required_hi n)"
    "lo \<noteq> 0 \<or> hi \<noteq> 0"
  using assms
  by (auto simp: abi_negotiate_def Let_def rust_result feature_set_def bit_and_iff syscall_decode_def
      split: prod.splits if_splits)

lemma topology_query_slot:
  assumes "topology_query lim kern slot = (slot', res)"
  shows "slot_claimed slot' = slot_claimed slot"
    and "res = Ok t \<Longrightarrow> \<not> slot_claimed slot \<and> topology_from_raw lim (slot_reply slot') = Ok t"
  using assms
  by (auto simp: topology_query_def slot_acquire_def slot_drop_def Let_def split: if_splits prod.splits sum.splits)

lemma topology_query_ref_slot:
  assumes "topology_query_ref lim kern st = (st', res)"
  shows "slot_claimed (fst st') = slot_claimed (fst st)"
    and "res = Ok t \<Longrightarrow> \<not> slot_claimed (fst st) \<and> snd st' = Some t
      \<and> topology_from_raw lim (slot_reply (fst st')) = Ok t"
    and "\<not> is_ok res \<Longrightarrow> snd st' = snd st"
proof -
  obtain slot r where q: "topology_query lim kern (fst st) = (slot, r)" by fastforce
  note facts = topology_query_slot [OF q]
  show "slot_claimed (fst st') = slot_claimed (fst st)" and "\<not> is_ok res \<Longrightarrow> snd st' = snd st"
    using assms facts(1) by (cases r; force simp: topology_query_ref_def q)+
  show "res = Ok t \<Longrightarrow> \<not> slot_claimed (fst st) \<and> snd st' = Some t
      \<and> topology_from_raw lim (slot_reply (fst st')) = Ok t"
    using assms facts(2) [of t] by (cases r) (auto simp: topology_query_ref_def q)
qed

lemma kairos_run_with_slot:
  "slot_claimed (fst (fst (kairos_run_with lim abi topo n required optional st))) = slot_claimed (fst st)"
  using topology_query_ref_slot(1) [of lim topo st]
  by (auto simp: kairos_run_with_def split: sum.splits prod.splits)

lemma kairos_run_with_Ok:
  assumes "kairos_run_with lim abi topo n required optional st = (st', Ok i)"
  shows "abi_negotiate lim abi (negotiator_want (negotiator_require n required) optional) = Ok (init_features i)"
    "snd st' = Some (init_topology i)"
    "topology_from_raw lim (slot_reply (fst st')) = Ok (init_topology i)"
    "\<not> slot_claimed (fst st')"
proof -
  obtain f where f: "abi_negotiate lim abi (negotiator_want (negotiator_require n required) optional) = Inr f"
    using assms by (cases "abi_negotiate lim abi (negotiator_want (negotiator_require n required) optional)")
      (simp_all add: kairos_run_with_def)
  obtain st1 res where q: "topology_query_ref lim topo st = (st1, res)" by fastforce
  from assms f q obtain t where t: "res = Ok t" "st1 = st'" "i = \<lparr>init_topology = t, init_features = f\<rparr>"
    by (cases res) (simp_all add: kairos_run_with_def)
  then show "abi_negotiate lim abi (negotiator_want (negotiator_require n required) optional) = Ok (init_features i)"
    using f by simp
  from topology_query_ref_slot(1) [OF q] topology_query_ref_slot(2) [OF q, of t] t
  show "snd st' = Some (init_topology i)" "topology_from_raw lim (slot_reply (fst st')) = Ok (init_topology i)"
    "\<not> slot_claimed (fst st')" by simp_all
qed

text \<open>
  C32. A completed boot is a sound one: the process-wide query slot is free, every required feature
  word is granted and nothing beyond the required and optional ones is, in both halves, and the
  topology handed out is the one kept in the process-lifetime storage and is the validated decoding
  of the reply the kernel wrote into the slot.  Whatever happens, booting leaves the slot claimed
  exactly when it was claimed before, so an error never wedges later queries.
\<close>

theorem boot_sound:
  "(kairos_run_with lim abi topo n required optional st = (st', Ok i) \<longrightarrow>
      feature_set (required_lo n) \<union> feature_set required \<subseteq> feature_set (granted_lo (init_features i))
    \<and> feature_set (granted_lo (init_features i))
        \<subseteq> feature_set (required_lo n) \<union> feature_set required \<union> feature_set (optional_lo n) \<union> feature_set optional
    \<and> feature_set (required_hi n) \<subseteq> feature_set (granted_hi (init_features i))
    \<and> feature_set (granted_hi (init_features i)) \<subseteq> feature_set (required_hi n) \<union> feature_set (optional_hi n)
    \<and> snd st' = Some (init_topology i)
    \<and> topology_from_raw lim (slot_reply (fst st')) = Ok (init_topology i)
    \<and> \<not> slot_claimed (fst st'))
   \<and> slot_claimed (fst (fst (kairos_run_with lim abi topo n required optional st))) = slot_claimed (fst st)"
proof (intro conjI impI)
  assume run: "kairos_run_with lim abi topo n required optional st = (st', Ok i)"
  note r = kairos_run_with_Ok [OF run]
  note f = abi_negotiate_Ok [OF r(1)]
  show "feature_set (required_lo n) \<union> feature_set required \<subseteq> feature_set (granted_lo (init_features i))"
    "feature_set (granted_lo (init_features i))
       \<subseteq> feature_set (required_lo n) \<union> feature_set required \<union> feature_set (optional_lo n) \<union> feature_set optional"
    "feature_set (required_hi n) \<subseteq> feature_set (granted_hi (init_features i))"
    "feature_set (granted_hi (init_features i)) \<subseteq> feature_set (required_hi n) \<union> feature_set (optional_hi n)"
    using f by (simp_all add: negotiator_want_def negotiator_require_def feature_set_or Un_assoc)
qed (simp_all add: kairos_run_with_Ok kairos_run_with_slot)

definition example_abi :: "AbiRequest \<Rightarrow> isize \<times> AbiReply" where
  "example_abi q = (0, \<lparr>rep_status = 0, rep_features_lo_granted = req_features_lo_req q,
     rep_features_hi_granted = 0, rep_features_lo_unavailable = 0, rep_features_hi_unavailable = 0\<rparr>)"

definition example_slot :: RawQuerySlot where
  "example_slot = \<lparr>slot_claimed = False, slot_reply = example_reply\<rparr>"

lemma example_boot:
  "kairos_run example_limits example_abi (\<lambda>r. (0, r)) 4 8 (example_slot, None) =
    ((example_slot, Some (decoded_topology example_limits example_reply)),
     Ok \<lparr>init_topology = decoded_topology example_limits example_reply,
        init_features = \<lparr>granted_lo = 5, granted_hi = 0, unavailable_lo = 0, unavailable_hi = 0\<rparr>\<rparr>)"
  by (simp add: kairos_run_def kairos_run_with_def abi_negotiate_def negotiator_native_def negotiator_want_def
        negotiator_require_def example_abi_def abi_request_def syscall_decode_def topology_query_ref_def
        topology_query_def slot_acquire_def slot_drop_def example_slot_def example_topology Let_def)
      (simp add: example_limits_def)

theorem boot_sound_witness:
  "\<exists>st' i. kairos_run example_limits example_abi (\<lambda>r. (0, r)) 4 8 (example_slot, None) = (st', Ok i)
    \<and> feature_set 5 \<subseteq> feature_set (granted_lo (init_features i)) \<and> snd st' = Some (init_topology i)"
proof -
  show ?thesis
    using example_boot boot_sound [of example_limits example_abi "\<lambda>r. (0, r)" "negotiator_native example_limits" 4 8
        "(example_slot, None)"]
    by (auto simp: kairos_run_def)
qed

lemma KairosPage_size: "KairosPage_layout = (64, 64)"
  by code_simp

end
