(* ===== verification/Hypermedia.thy ===== *)
theory Hypermedia
  imports Slope_Prelude Repr_C
begin

text \<open>
  Bounded HTTPS authority, \<open>hypermedia.rs\<close>: canonical origins and requests, leases, trust anchors,
  the fixed-layout IPC envelopes, and the endpoint session that serialises requests.  Byte strings
  are lists of \<open>u8\<close>; a fixed array is a list of its declared length.
\<close>

section \<open>Constants and errors\<close>

definition MAX_HTTP_HOST_BYTES :: nat where "MAX_HTTP_HOST_BYTES = 48"
definition MAX_HTTP_PATH_BYTES :: nat where "MAX_HTTP_PATH_BYTES = 128"
definition MAX_HTTP_REQUEST_BYTES :: u16 where "MAX_HTTP_REQUEST_BYTES = 2048"
definition MAX_HTTP_RESPONSE_BYTES :: u16 where "MAX_HTTP_RESPONSE_BYTES = 32 * 1024"
definition MAX_TCP_SEGMENTS :: u8 where "MAX_TCP_SEGMENTS = 32"
definition TLS_SHA256_BYTES :: nat where "TLS_SHA256_BYTES = 32"
definition HTTP_IPC_VERSION :: u16 where "HTTP_IPC_VERSION = 1"
definition ARGUS_ENDPOINT_VERSION :: u16 where "ARGUS_ENDPOINT_VERSION = 1"
definition ARGUS_ENDPOINT_OWNER :: u8 where "ARGUS_ENDPOINT_OWNER = 3"

datatype HypermediaError =
    NotHttps | InvalidHost | InvalidPath | InvalidBudget | InvalidLease | LeaseExpired | LeaseMismatch

section \<open>Bytes\<close>

definition is_ascii_alphanumeric :: "u8 \<Rightarrow> bool" where
  "is_ascii_alphanumeric b \<longleftrightarrow> (48 \<le> b \<and> b \<le> 57) \<or> (65 \<le> b \<and> b \<le> 90) \<or> (97 \<le> b \<and> b \<le> 122)"

definition is_ascii_graphic :: "u8 \<Rightarrow> bool" where "is_ascii_graphic b \<longleftrightarrow> 33 \<le> b \<and> b \<le> 126"

definition to_ascii_lowercase :: "u8 \<Rightarrow> u8" where
  "to_ascii_lowercase b = (if 65 \<le> b \<and> b \<le> 90 then b + 32 else b)"

abbreviation DOT :: u8 where "DOT \<equiv> 46"
abbreviation DASH :: u8 where "DASH \<equiv> 45"
abbreviation SLASH :: u8 where "SLASH \<equiv> 47"
abbreviation HASH :: u8 where "HASH \<equiv> 35"

text \<open>\<open>b"https://"\<close>\<close>

definition HTTPS_PREFIX :: bytes where "HTTPS_PREFIX = [104, 116, 116, 112, 115, 58, 47, 47]"

section \<open>Budgets and origins\<close>

record HttpBudget =
  request_bytes :: u16
  response_bytes :: u16
  max_segments :: u8
  yield_every_segments :: u8

definition budget_DEFAULT :: HttpBudget where
  "budget_DEFAULT = \<lparr>request_bytes = 1024, response_bytes = 16 * 1024, max_segments = 16, yield_every_segments = 1\<rparr>"

definition budget_is_valid :: "HttpBudget \<Rightarrow> bool" where
  "budget_is_valid b \<longleftrightarrow>
     request_bytes b \<noteq> 0 \<and> request_bytes b \<le> MAX_HTTP_REQUEST_BYTES
   \<and> response_bytes b \<noteq> 0 \<and> response_bytes b \<le> MAX_HTTP_RESPONSE_BYTES
   \<and> max_segments b \<noteq> 0 \<and> max_segments b \<le> MAX_TCP_SEGMENTS
   \<and> yield_every_segments b \<noteq> 0 \<and> yield_every_segments b \<le> max_segments b"

record HttpsOrigin =
  host_bytes :: bytes
  host_length :: u8

text \<open>The byte loop of \<open>HttpsOrigin::new\<close>: \<open>None\<close> is its early return, \<open>Some\<close> the last \<open>previous_dot\<close>.\<close>

fun host_scan :: "bytes \<Rightarrow> bool \<Rightarrow> bool option" where
  "host_scan [] previous_dot = Some previous_dot"
| "host_scan (b # bs) previous_dot =
    (if \<not> (is_ascii_alphanumeric b \<or> b = DASH \<or> b = DOT) \<or> (b = DOT \<and> previous_dot) then None
     else host_scan bs (b = DOT))"

definition origin_new :: "bytes \<Rightarrow> (HypermediaError, HttpsOrigin) result" where
  "origin_new host =
    (if host = [] \<or> length host > MAX_HTTP_HOST_BYTES then Err InvalidHost
     else case host_scan host True of
       None \<Rightarrow> Err InvalidHost
     | Some previous_dot \<Rightarrow>
         if previous_dot \<or> host ! 0 = DASH \<or> host ! (length host - 1) = DASH then Err InvalidHost
         else Ok \<lparr>host_bytes = copy_prefix (replicate MAX_HTTP_HOST_BYTES 0) (map to_ascii_lowercase host),
                  host_length = of_nat (length host)\<rparr>)"

definition origin_host :: "HttpsOrigin \<Rightarrow> bytes" where
  "origin_host o' = take (unat (host_length o')) (host_bytes o')"

section \<open>Trust anchors\<close>

datatype TlsTrustError = GenerationMismatch | OriginMismatch | CertificateMismatch

record TlsTrustAnchor =
  anchor_origin :: HttpsOrigin
  anchor_sha256 :: bytes
  anchor_generation :: u32

record TlsPeerIdentity =
  peer_origin :: HttpsOrigin
  peer_sha256 :: bytes
  peer_generation :: u32

definition anchor_from_broker ::
  "HttpsOrigin \<Rightarrow> bytes \<Rightarrow> u32 \<Rightarrow> (HypermediaError, TlsTrustAnchor) result" where
  "anchor_from_broker origin sha generation =
    (if generation = 0 \<or> sha = replicate TLS_SHA256_BYTES 0 then Err InvalidLease
     else Ok \<lparr>anchor_origin = origin, anchor_sha256 = sha, anchor_generation = generation\<rparr>)"

definition anchor_permits ::
  "TlsTrustAnchor \<Rightarrow> HttpsOrigin \<Rightarrow> bytes \<Rightarrow> u32 \<Rightarrow> (TlsTrustError, TlsPeerIdentity) result" where
  "anchor_permits a origin sha generation =
    (if generation \<noteq> anchor_generation a then Err GenerationMismatch
     else if origin \<noteq> anchor_origin a then Err OriginMismatch
     else if sha \<noteq> anchor_sha256 a then Err CertificateMismatch
     else Ok \<lparr>peer_origin = origin, peer_sha256 = sha, peer_generation = generation\<rparr>)"

section \<open>Requests\<close>

record HttpsRequest =
  req_origin :: HttpsOrigin
  req_path :: bytes
  req_path_length :: u8
  req_budget :: HttpBudget

definition request_new :: "HttpsOrigin \<Rightarrow> bytes \<Rightarrow> HttpBudget \<Rightarrow> (HypermediaError, HttpsRequest) result" where
  "request_new origin path budget =
    (if path = [] \<or> length path > MAX_HTTP_PATH_BYTES \<or> path ! 0 \<noteq> SLASH \<or> \<not> budget_is_valid budget
     then Err (if budget_is_valid budget then InvalidPath else InvalidBudget)
     else if list_ex (\<lambda>b. \<not> is_ascii_graphic b \<or> b = HASH) path then Err InvalidPath
     else Ok \<lparr>req_origin = origin, req_path = copy_prefix (replicate MAX_HTTP_PATH_BYTES 0) path,
              req_path_length = of_nat (length path), req_budget = budget\<rparr>)"

definition strip_prefix :: "bytes \<Rightarrow> bytes \<Rightarrow> bytes option" where
  "strip_prefix p xs = (if take (length p) xs = p then Some (drop (length p) xs) else None)"

definition parse_location :: "bytes \<Rightarrow> HttpBudget \<Rightarrow> (HypermediaError, HttpsRequest) result" where
  "parse_location location budget =
    and_then (ok_or NotHttps (strip_prefix HTTPS_PREFIX location)) (\<lambda>remainder.
      let split = (case position (\<lambda>b. b = SLASH) remainder of None \<Rightarrow> length remainder | Some i \<Rightarrow> i) in
      and_then (origin_new (take split remainder)) (\<lambda>origin.
        let path = (if split = length remainder then [SLASH] else drop split remainder) in
        request_new origin path budget))"

definition request_path :: "HttpsRequest \<Rightarrow> bytes" where
  "request_path r = take (unat (req_path_length r)) (req_path r)"

section \<open>IPC envelopes and leases\<close>

record HttpIpcRequest =
  wire_version :: u16
  wire_request_bytes :: u16
  wire_response_bytes :: u16
  wire_max_segments :: u8
  wire_yield_every_segments :: u8
  wire_capability :: u64
  wire_generation :: u32
  wire_sequence :: u32
  wire_expiry_epoch :: u64
  wire_host_length :: u8
  wire_path_length :: u8
  wire_reserved :: bytes
  wire_host :: bytes
  wire_path :: bytes

definition HttpIpcRequest_layout :: layout where
  "HttpIpcRequest_layout = repr_c [U16, U16, U16, U8, U8, U64, U32, U32, U64, U8, U8, array_layout 2 U8,
     array_layout MAX_HTTP_HOST_BYTES U8, array_layout MAX_HTTP_PATH_BYTES U8]"

definition ipc_empty :: HttpIpcRequest where
  "ipc_empty = \<lparr>wire_version = 0, wire_request_bytes = 0, wire_response_bytes = 0, wire_max_segments = 0,
     wire_yield_every_segments = 0, wire_capability = 0, wire_generation = 0, wire_sequence = 0,
     wire_expiry_epoch = 0, wire_host_length = 0, wire_path_length = 0, wire_reserved = [0, 0],
     wire_host = replicate MAX_HTTP_HOST_BYTES 0, wire_path = replicate MAX_HTTP_PATH_BYTES 0\<rparr>"

definition ipc_request :: "HttpIpcRequest \<Rightarrow> (HypermediaError, HttpsRequest) result" where
  "ipc_request w =
    (if wire_version w \<noteq> HTTP_IPC_VERSION \<or> wire_reserved w \<noteq> [0, 0]
      \<or> wire_host_length w = 0 \<or> unat (wire_host_length w) > MAX_HTTP_HOST_BYTES
      \<or> wire_path_length w = 0 \<or> unat (wire_path_length w) > MAX_HTTP_PATH_BYTES
     then Err InvalidLease
     else and_then (origin_new (take (unat (wire_host_length w)) (wire_host w))) (\<lambda>origin.
       request_new origin (take (unat (wire_path_length w)) (wire_path w))
         \<lparr>request_bytes = wire_request_bytes w, response_bytes = wire_response_bytes w,
          max_segments = wire_max_segments w, yield_every_segments = wire_yield_every_segments w\<rparr>))"

record HttpLease =
  lease_capability :: u64
  lease_generation :: u32
  lease_origin :: HttpsOrigin
  lease_budget :: HttpBudget
  lease_expiry_epoch :: u64

definition lease_from_broker ::
  "u64 \<Rightarrow> u32 \<Rightarrow> HttpsOrigin \<Rightarrow> HttpBudget \<Rightarrow> u64 \<Rightarrow> (HypermediaError, HttpLease) result" where
  "lease_from_broker capability generation origin budget expiry =
    (if capability = 0 \<or> generation = 0 \<or> expiry = 0 \<or> \<not> budget_is_valid budget then Err InvalidLease
     else Ok \<lparr>lease_capability = capability, lease_generation = generation, lease_origin = origin,
              lease_budget = budget, lease_expiry_epoch = expiry\<rparr>)"

definition lease_permits :: "HttpLease \<Rightarrow> HttpsRequest \<Rightarrow> u64 \<Rightarrow> (HypermediaError, unit) result" where
  "lease_permits l request current_epoch =
    (if lease_capability l = 0 \<or> lease_generation l = 0 then Err InvalidLease
     else if lease_expiry_epoch l \<le> current_epoch then Err LeaseExpired
     else if req_origin request \<noteq> lease_origin l
      \<or> request_bytes (req_budget request) > request_bytes (lease_budget l)
      \<or> response_bytes (req_budget request) > response_bytes (lease_budget l)
      \<or> max_segments (req_budget request) > max_segments (lease_budget l)
      \<or> yield_every_segments (req_budget request) > yield_every_segments (lease_budget l)
     then Err LeaseMismatch
     else Ok ())"

definition to_ipc_request ::
  "HttpLease \<Rightarrow> HttpsRequest \<Rightarrow> u64 \<Rightarrow> u32 \<Rightarrow> (HypermediaError, HttpIpcRequest) result" where
  "to_ipc_request l request current_epoch sequence =
    and_then (lease_permits l request current_epoch) (\<lambda>_.
      Ok (ipc_empty\<lparr>wire_version := HTTP_IPC_VERSION, wire_capability := lease_capability l,
        wire_generation := lease_generation l, wire_sequence := sequence,
        wire_expiry_epoch := lease_expiry_epoch l,
        wire_host_length := host_length (req_origin request),
        wire_path_length := req_path_length request,
        wire_host := copy_prefix (wire_host ipc_empty) (origin_host (req_origin request)),
        wire_path := copy_prefix (wire_path ipc_empty) (request_path request),
        wire_request_bytes := request_bytes (req_budget request),
        wire_response_bytes := response_bytes (req_budget request),
        wire_max_segments := max_segments (req_budget request),
        wire_yield_every_segments := yield_every_segments (req_budget request)\<rparr>))"

definition authorize_ipc :: "HttpLease \<Rightarrow> HttpIpcRequest \<Rightarrow> u64 \<Rightarrow> (HypermediaError, HttpsRequest) result" where
  "authorize_ipc l w current_epoch =
    (if wire_version w \<noteq> HTTP_IPC_VERSION \<or> wire_capability w \<noteq> lease_capability l
      \<or> wire_generation w \<noteq> lease_generation l \<or> wire_expiry_epoch w \<noteq> lease_expiry_epoch l
     then Err LeaseMismatch
     else and_then (ipc_request w) (\<lambda>request.
       and_then (lease_permits l request current_epoch) (\<lambda>_. Ok request)))"

section \<open>Endpoint sessions\<close>

datatype EndpointError =
    EndpointInvalidLease | WrongOwner | EndpointExpired | Revoked | InvalidRequest | WrongEndpoint
  | WrongMapping | WrongGeneration | SequenceError | EndpointBusy | NotInFlight

record ArgusEndpointLease =
  ep_version :: u16
  ep_owner :: u8
  ep_reserved :: u8
  ep_endpoint_capability :: u64
  ep_mapping_capability :: u64
  ep_generation :: u32
  ep_mapping_generation :: u32
  ep_expiry_epoch :: u64

definition ArgusEndpointLease_layout :: layout where
  "ArgusEndpointLease_layout = repr_c [U16, U8, U8, U64, U64, U32, U32, U64]"

definition endpoint_from_broker ::
  "u64 \<Rightarrow> u64 \<Rightarrow> u32 \<Rightarrow> u32 \<Rightarrow> u64 \<Rightarrow> (EndpointError, ArgusEndpointLease) result" where
  "endpoint_from_broker endpoint mapping generation mapping_generation expiry =
    (if endpoint = 0 \<or> mapping = 0 \<or> generation = 0 \<or> mapping_generation = 0 \<or> expiry = 0
     then Err EndpointInvalidLease
     else Ok \<lparr>ep_version = ARGUS_ENDPOINT_VERSION, ep_owner = ARGUS_ENDPOINT_OWNER, ep_reserved = 0,
              ep_endpoint_capability = endpoint, ep_mapping_capability = mapping, ep_generation = generation,
              ep_mapping_generation = mapping_generation, ep_expiry_epoch = expiry\<rparr>)"

definition valid_for :: "ArgusEndpointLease \<Rightarrow> u64 \<Rightarrow> bool" where
  "valid_for l current_epoch \<longleftrightarrow>
     ep_version l = ARGUS_ENDPOINT_VERSION \<and> ep_owner l = ARGUS_ENDPOINT_OWNER \<and> ep_reserved l = 0
   \<and> ep_endpoint_capability l \<noteq> 0 \<and> ep_mapping_capability l \<noteq> 0 \<and> ep_generation l \<noteq> 0
   \<and> ep_mapping_generation l \<noteq> 0 \<and> current_epoch < ep_expiry_epoch l"

record ArgusIpcRequest =
  env_version :: u16
  env_reserved :: u16
  env_endpoint_capability :: u64
  env_mapping_capability :: u64
  env_generation :: u32
  env_mapping_generation :: u32
  env_request :: HttpIpcRequest

definition ArgusIpcRequest_layout :: layout where
  "ArgusIpcRequest_layout = repr_c [U16, U16, U64, U64, U32, U32, HttpIpcRequest_layout]"

definition authorize_request ::
  "ArgusEndpointLease \<Rightarrow> HttpIpcRequest \<Rightarrow> u64 \<Rightarrow> (EndpointError, ArgusIpcRequest) result" where
  "authorize_request l request current_epoch =
    (if ep_version l \<noteq> ARGUS_ENDPOINT_VERSION \<or> ep_reserved l \<noteq> 0 then Err EndpointInvalidLease
     else if ep_owner l \<noteq> ARGUS_ENDPOINT_OWNER then Err WrongOwner
     else if ep_expiry_epoch l \<le> current_epoch then Err EndpointExpired
     else if wire_version request \<noteq> HTTP_IPC_VERSION \<or> wire_sequence request = 0 then Err InvalidRequest
     else Ok \<lparr>env_version = ARGUS_ENDPOINT_VERSION, env_reserved = 0,
              env_endpoint_capability = ep_endpoint_capability l,
              env_mapping_capability = ep_mapping_capability l, env_generation = ep_generation l,
              env_mapping_generation = ep_mapping_generation l, env_request = request\<rparr>)"

record ArgusEndpointSession =
  ses_lease :: ArgusEndpointLease
  next_sequence :: u32
  in_flight :: bool
  revoked :: bool

definition session_new :: "ArgusEndpointLease \<Rightarrow> ArgusEndpointSession" where
  "session_new l = \<lparr>ses_lease = l, next_sequence = 1, in_flight = False, revoked = False\<rparr>"

definition session_prepare ::
  "ArgusEndpointSession \<Rightarrow> HttpIpcRequest \<Rightarrow> u64 \<Rightarrow> (EndpointError, ArgusIpcRequest) result" where
  "session_prepare s request current_epoch =
    (if revoked s then Err Revoked
     else if in_flight s then Err EndpointBusy
     else if wire_sequence request \<noteq> next_sequence s then Err SequenceError
     else authorize_request (ses_lease s) request current_epoch)"

definition validate_envelope :: "ArgusEndpointSession \<Rightarrow> ArgusIpcRequest \<Rightarrow> (EndpointError, unit) result" where
  "validate_envelope s e =
    (if env_version e \<noteq> ARGUS_ENDPOINT_VERSION \<or> env_reserved e \<noteq> 0 then Err InvalidRequest
     else if env_endpoint_capability e \<noteq> ep_endpoint_capability (ses_lease s) then Err WrongEndpoint
     else if env_mapping_capability e \<noteq> ep_mapping_capability (ses_lease s) then Err WrongMapping
     else if env_generation e \<noteq> ep_generation (ses_lease s) then Err WrongGeneration
     else if env_mapping_generation e \<noteq> ep_mapping_generation (ses_lease s) then Err WrongGeneration
     else if wire_sequence (env_request e) \<noteq> next_sequence s then Err SequenceError
     else Ok ())"

definition session_commit ::
  "ArgusEndpointSession \<Rightarrow> ArgusIpcRequest \<Rightarrow> ArgusEndpointSession \<times> (EndpointError, unit) result" where
  "session_commit s e =
    (if revoked s then (s, Err Revoked)
     else case validate_envelope s e of
       Inl err \<Rightarrow> (s, Err err)
     | Inr _ \<Rightarrow> if in_flight s then (s, Err EndpointBusy) else (s\<lparr>in_flight := True\<rparr>, Ok ()))"

definition session_complete ::
  "ArgusEndpointSession \<Rightarrow> u32 \<Rightarrow> ArgusEndpointSession \<times> (EndpointError, unit) result" where
  "session_complete s sequence =
    (if \<not> in_flight s then (s, Err NotInFlight)
     else if sequence \<noteq> next_sequence s then (s, Err SequenceError)
     else (s\<lparr>in_flight := False, next_sequence := wrapping_next (next_sequence s)\<rparr>, Ok ()))"

definition session_revoke :: "ArgusEndpointSession \<Rightarrow> ArgusEndpointSession" where
  "session_revoke s = s\<lparr>revoked := True, in_flight := False\<rparr>"


section \<open>Hosts\<close>

lemma unat_lowercase:
  "unat (to_ascii_lowercase b) = (if 65 \<le> unat b \<and> unat b \<le> 90 then unat b + 32 else unat b)"
proof -
  have "unat (b + 32) = unat b + 32" if "unat b \<le> 90"
    using that by (simp add: unat_word_ariths)
  then show ?thesis by (auto simp: to_ascii_lowercase_def word_le_nat_alt)
qed

lemma byte_eq_nat: "(b :: u8) = c \<longleftrightarrow> unat b = unat c"
  by (rule word_unat_eq_iff)

lemmas byte_arith = byte_eq_nat [where c = "numeral _"] word_le_nat_alt unat_lowercase
  is_ascii_alphanumeric_def is_ascii_graphic_def

lemma lowercase_idem [simp]: "to_ascii_lowercase (to_ascii_lowercase b) = to_ascii_lowercase b"
  by (auto simp: byte_eq_nat [where c = "to_ascii_lowercase _"] unat_lowercase)

lemma lowercase_keeps [simp]:
  "to_ascii_lowercase b = DOT \<longleftrightarrow> b = DOT"
  "to_ascii_lowercase b = DASH \<longleftrightarrow> b = DASH"
  "is_ascii_alphanumeric (to_ascii_lowercase b) \<longleftrightarrow> is_ascii_alphanumeric b"
  by (auto simp: byte_arith)

definition host_byte :: "u8 \<Rightarrow> bool" where
  "host_byte b \<longleftrightarrow> is_ascii_alphanumeric b \<or> b = DASH \<or> b = DOT"

lemma host_byte_no_slash: "host_byte b \<Longrightarrow> b \<noteq> SLASH"
  by (auto simp: host_byte_def byte_arith)

text \<open>The labels of a host: the pieces between its dots.\<close>

fun labels :: "bytes \<Rightarrow> bytes list" where
  "labels [] = [[]]"
| "labels (b # bs) = (if b = DOT then [] # labels bs else (b # hd (labels bs)) # tl (labels bs))"

definition canonical_host :: "bytes \<Rightarrow> bool" where
  "canonical_host h \<longleftrightarrow>
     length h \<le> MAX_HTTP_HOST_BYTES \<and> list_all host_byte h \<and> [] \<notin> set (labels h)
   \<and> hd h \<noteq> DASH \<and> last h \<noteq> DASH"

lemma labels_nonempty [simp]: "labels h \<noteq> []"
  by (induction h) auto

lemma host_scan_labels:
  "host_scan h pd = Some False \<longleftrightarrow>
     list_all host_byte h \<and> (pd \<longrightarrow> hd (labels h) \<noteq> []) \<and> [] \<notin> set (tl (labels h))"
proof (induction h pd rule: host_scan.induct)
  case (2 b bs pd)
  have "labels bs = hd (labels bs) # tl (labels bs)" by simp
  then have "[] \<notin> set (labels bs) \<longleftrightarrow> hd (labels bs) \<noteq> [] \<and> [] \<notin> set (tl (labels bs))"
    by (metis list.set_intros(1) list.set_intros(2) set_ConsD)
  with 2 show ?case by (auto simp: host_byte_def)
qed simp

lemma labels_all: "[] \<notin> set (labels h) \<longleftrightarrow> hd (labels h) \<noteq> [] \<and> [] \<notin> set (tl (labels h))"
  by (metis labels_nonempty list.collapse list.set_intros(1,2) set_ConsD)

definition origin_of :: "bytes \<Rightarrow> HttpsOrigin" where
  "origin_of h = \<lparr>host_bytes = copy_prefix (replicate MAX_HTTP_HOST_BYTES 0) h, host_length = of_nat (length h)\<rparr>"

lemma origin_new_exact:
  "origin_new h = (if canonical_host h then Ok (origin_of (map to_ascii_lowercase h)) else Err InvalidHost)"
proof (cases "h = []")
  case True
  then show ?thesis by (simp add: origin_new_def canonical_host_def)
next
  case False
  have scan: "host_scan h True = Some False \<longleftrightarrow> list_all host_byte h \<and> [] \<notin> set (labels h)"
    by (simp add: host_scan_labels labels_all)
  show ?thesis
  proof (cases "host_scan h True = Some False")
    case True
    with False scan show ?thesis
      by (simp add: origin_new_def canonical_host_def origin_of_def hd_conv_nth last_conv_nth not_less)
  next
    case False
    with scan show ?thesis by (auto simp: origin_new_def canonical_host_def split: option.splits)
  qed
qed

lemma unat_of_nat_u8: "n \<le> 128 \<Longrightarrow> unat (of_nat n :: u8) = n"
  by (simp add: unat_of_nat)

lemma origin_host_of:
  assumes "length h \<le> MAX_HTTP_HOST_BYTES"
  shows "origin_host (origin_of h) = h" "unat (host_length (origin_of h)) = length h"
proof -
  have "unat (of_nat (length h) :: u8) = length h"
    using assms by (intro unat_of_nat_u8) (simp add: MAX_HTTP_HOST_BYTES_def)
  then show "origin_host (origin_of h) = h" "unat (host_length (origin_of h)) = length h"
    by (simp_all add: origin_host_def origin_of_def)
qed

lemma labels_lowercase: "labels (map to_ascii_lowercase h) = map (map to_ascii_lowercase) (labels h)"
  by (induction h) (simp_all add: hd_map map_tl)

lemma canonical_lowercase: "canonical_host (map to_ascii_lowercase h) \<longleftrightarrow> canonical_host h"
proof (cases "h = []")
  case False
  then show ?thesis
    by (simp add: canonical_host_def labels_lowercase list_all_iff host_byte_def hd_map last_map image_iff)
qed (simp add: canonical_host_def)

lemma origin_new_host:
  assumes "origin_new h = Ok o'"
  shows "origin_host o' = map to_ascii_lowercase h" "origin_new (origin_host o') = Ok o'"
    "unat (host_length o') = length h" "o' = origin_of (map to_ascii_lowercase h)" "canonical_host h"
proof -
  from assms have c: "canonical_host h" and o: "o' = origin_of (map to_ascii_lowercase h)"
    by (auto simp: origin_new_exact split: if_splits)
  then have len: "length (map to_ascii_lowercase h) \<le> MAX_HTTP_HOST_BYTES" by (simp add: canonical_host_def)
  show h: "origin_host o' = map to_ascii_lowercase h" "unat (host_length o') = length h"
    using origin_host_of [OF len] o by simp_all
  show "origin_new (origin_host o') = Ok o'"
    unfolding h using c o by (simp add: origin_new_exact canonical_lowercase comp_def)
  show "canonical_host h" "o' = origin_of (map to_ascii_lowercase h)" by (fact c o)+
qed

section \<open>Requests and locations\<close>

definition canonical_path :: "bytes \<Rightarrow> bool" where
  "canonical_path p \<longleftrightarrow> p \<noteq> [] \<and> length p \<le> MAX_HTTP_PATH_BYTES \<and> hd p = SLASH
     \<and> list_all (\<lambda>b. is_ascii_graphic b \<and> b \<noteq> HASH) p"

definition request_of :: "HttpsOrigin \<Rightarrow> bytes \<Rightarrow> HttpBudget \<Rightarrow> HttpsRequest" where
  "request_of origin p b = \<lparr>req_origin = origin, req_path = copy_prefix (replicate MAX_HTTP_PATH_BYTES 0) p,
     req_path_length = of_nat (length p), req_budget = b\<rparr>"

lemma request_new_exact:
  "request_new origin p b =
    (if \<not> budget_is_valid b then Err InvalidBudget
     else if canonical_path p then Ok (request_of origin p b) else Err InvalidPath)"
  by (auto simp: request_new_def canonical_path_def request_of_def hd_conv_nth list_ex_iff list_all_iff)

lemma request_new_Ok:
  assumes "request_new origin p b = Ok q"
  shows "request_path q = p" "req_origin q = origin" "req_budget q = b" "q = request_of origin p b"
    "canonical_path p" "budget_is_valid b" "unat (req_path_length q) = length p"
proof -
  from assms have c: "canonical_path p" "budget_is_valid b" and q: "q = request_of origin p b"
    by (auto simp: request_new_exact split: if_splits)
  then have "unat (of_nat (length p) :: u8) = length p"
    by (intro unat_of_nat_u8) (simp add: canonical_path_def MAX_HTTP_PATH_BYTES_def)
  then show "request_path q = p" "unat (req_path_length q) = length p"
    by (simp_all add: q request_path_def request_of_def)
  show "req_origin q = origin" "req_budget q = b" by (simp_all add: q request_of_def)
qed (use assms in \<open>auto simp: request_new_exact split: if_splits\<close>)

text \<open>
  A request the public constructors can build.  The fields are private in the source, so every
  request of the program is one of these.
\<close>

definition built_request :: "HttpsRequest \<Rightarrow> bool" where
  "built_request q \<longleftrightarrow>
     origin_new (origin_host (req_origin q)) = Ok (req_origin q)
   \<and> request_new (req_origin q) (request_path q) (req_budget q) = Ok q"

lemma request_new_built: "origin_new h = Ok o' \<Longrightarrow> request_new o' p b = Ok q \<Longrightarrow> built_request q"
  using origin_new_host(2) by (simp add: built_request_def request_new_Ok)

lemma position_slash_host:
  assumes "list_all host_byte h"
  shows "position (\<lambda>b. b = SLASH) h = None"
    and "position (\<lambda>b. b = SLASH) (h @ SLASH # p) = Some (length h)"
  using assms by (induction h) (auto dest: host_byte_no_slash)

lemma strip_prefix_Some_iff: "strip_prefix p xs = Some ys \<longleftrightarrow> xs = p @ ys"
  unfolding strip_prefix_def by (metis append_eq_conv_conj append_take_drop_id option.distinct(1) option.inject)

definition split_location :: "bytes \<Rightarrow> bytes \<times> bytes" where
  "split_location r =
    (case position (\<lambda>b. b = SLASH) r of None \<Rightarrow> (r, []) | Some i \<Rightarrow> (take i r, drop i r))"

lemma split_location_eq:
  assumes "split_location r = (h, p)"
  shows "r = h @ p" "p = [] \<or> hd p = SLASH" "SLASH \<notin> set h"
proof -
  show "r = h @ p" using assms by (auto simp: split_location_def split: option.splits)
  show "p = [] \<or> hd p = SLASH"
    using assms by (auto simp: split_location_def position_Some_iff hd_drop_conv_nth split: option.splits)
  have "position (\<lambda>b. b = SLASH) r = None \<longleftrightarrow> SLASH \<notin> set r" by (induction r) auto
  then show "SLASH \<notin> set h"
    using assms by (auto simp: split_location_def position_Some_iff in_set_conv_nth split: option.splits)
qed

lemma split_location_host:
  assumes "list_all host_byte h" "p = [] \<or> hd p = SLASH"
  shows "split_location (h @ p) = (h, p)"
proof (cases p)
  case (Cons a q)
  with assms position_slash_host(2) [OF assms(1), of q] show ?thesis by (simp add: split_location_def)
qed (use assms in \<open>simp add: split_location_def position_slash_host\<close>)

definition path_or_root :: "bytes \<Rightarrow> bytes" where
  "path_or_root p = (if p = [] then [SLASH] else p)"

lemma parse_location_split:
  "parse_location (HTTPS_PREFIX @ r) b =
    (case split_location r of (h, p) \<Rightarrow>
       and_then (origin_new h) (\<lambda>origin. request_new origin (path_or_root p) b))"
proof -
  have "strip_prefix HTTPS_PREFIX (HTTPS_PREFIX @ r) = Some r" by (simp add: strip_prefix_Some_iff)
  moreover have "i < length r" if "position (\<lambda>b. b = SLASH) r = Some i" for i
    using that by (simp add: position_Some_iff)
  ultimately show ?thesis
    by (cases "position (\<lambda>b. b = SLASH) r")
      (simp_all add: parse_location_def split_location_def path_or_root_def Let_def)
qed

lemma parse_location_prefix:
  assumes "\<nexists>r. loc = HTTPS_PREFIX @ r"
  shows "parse_location loc b = Err NotHttps"
proof -
  have "strip_prefix HTTPS_PREFIX loc = None" using assms strip_prefix_Some_iff by (metis not_None_eq)
  then show ?thesis by (simp add: parse_location_def)
qed

text \<open>
  C11. Parsing is exact and fails closed: a location becomes a request if and only if it is
  \<open>https://\<close>, then a host of at most 48 bytes made of letters, digits, dashes and dots with no
  empty label and no dash at either end, then nothing or a path of at most 128 printable bytes that
  starts with a slash and has no \<open>#\<close>, under a valid budget.  The request then carries the host in
  lower case and the path, \<open>/\<close> when there was none.
\<close>

theorem parse_location_exact:
  "parse_location loc b = Ok q \<longleftrightarrow>
    (\<exists>h p. loc = HTTPS_PREFIX @ h @ p \<and> canonical_host h \<and> (p = [] \<or> hd p = SLASH)
       \<and> canonical_path (path_or_root p) \<and> budget_is_valid b
       \<and> q = request_of (origin_of (map to_ascii_lowercase h)) (path_or_root p) b)"
proof
  assume ok: "parse_location loc b = Ok q"
  then obtain r where loc: "loc = HTTPS_PREFIX @ r" using parse_location_prefix by fastforce
  obtain h p where sp: "split_location r = (h, p)" by fastforce
  from ok loc sp have "and_then (origin_new h) (\<lambda>origin. request_new origin (path_or_root p) b) = Ok q"
    by (simp add: parse_location_split)
  then have "canonical_host h" "canonical_path (path_or_root p)" "budget_is_valid b"
      "q = request_of (origin_of (map to_ascii_lowercase h)) (path_or_root p) b"
    by (auto simp: origin_new_exact request_new_exact split: if_splits)
  with loc split_location_eq [OF sp] show "\<exists>h p. loc = HTTPS_PREFIX @ h @ p \<and> canonical_host h
      \<and> (p = [] \<or> hd p = SLASH) \<and> canonical_path (path_or_root p) \<and> budget_is_valid b
      \<and> q = request_of (origin_of (map to_ascii_lowercase h)) (path_or_root p) b" by blast
next
  assume "\<exists>h p. loc = HTTPS_PREFIX @ h @ p \<and> canonical_host h \<and> (p = [] \<or> hd p = SLASH)
       \<and> canonical_path (path_or_root p) \<and> budget_is_valid b
       \<and> q = request_of (origin_of (map to_ascii_lowercase h)) (path_or_root p) b"
  then obtain h p where *: "loc = HTTPS_PREFIX @ h @ p" "canonical_host h" "p = [] \<or> hd p = SLASH"
      "canonical_path (path_or_root p)" "budget_is_valid b"
      "q = request_of (origin_of (map to_ascii_lowercase h)) (path_or_root p) b" by blast
  then have "split_location (h @ p) = (h, p)" by (intro split_location_host) (simp_all add: canonical_host_def)
  with * show "parse_location loc b = Ok q"
    by (simp only: parse_location_split) (simp add: origin_new_exact request_new_exact)
qed

definition render_location :: "HttpsRequest \<Rightarrow> bytes" where
  "render_location q = HTTPS_PREFIX @ origin_host (req_origin q) @ request_path q"

lemma render_parse:
  assumes "built_request q"
  shows "parse_location (render_location q) (req_budget q) = Ok q"
proof -
  from assms have o: "origin_new (origin_host (req_origin q)) = Ok (req_origin q)"
    and q: "request_new (req_origin q) (request_path q) (req_budget q) = Ok q"
    by (simp_all add: built_request_def)
  from origin_new_host(5) [OF o] have "list_all host_byte (origin_host (req_origin q))"
    by (simp add: canonical_host_def)
  moreover from request_new_Ok(5) [OF q] have p: "request_path q \<noteq> []" "hd (request_path q) = SLASH"
    by (simp_all add: canonical_path_def)
  ultimately have "split_location (origin_host (req_origin q) @ request_path q)
      = (origin_host (req_origin q), request_path q)"
    by (intro split_location_host) simp_all
  with o q p show ?thesis by (simp add: render_location_def parse_location_split path_or_root_def)
qed

section \<open>Leases\<close>

lemma lease_permits_Ok_iff:
  "lease_permits l q t = Ok u \<longleftrightarrow>
     lease_capability l \<noteq> 0 \<and> lease_generation l \<noteq> 0 \<and> t < lease_expiry_epoch l
   \<and> req_origin q = lease_origin l
   \<and> request_bytes (req_budget q) \<le> request_bytes (lease_budget l)
   \<and> response_bytes (req_budget q) \<le> response_bytes (lease_budget l)
   \<and> max_segments (req_budget q) \<le> max_segments (lease_budget l)
   \<and> yield_every_segments (req_budget q) \<le> yield_every_segments (lease_budget l)"
  by (auto simp: lease_permits_def not_le not_less)

lemma ipc_request_built:
  assumes "ipc_request w = Ok q"
  shows "built_request q" "budget_is_valid (req_budget q)"
proof -
  from assms obtain o' b where "origin_new (take (unat (wire_host_length w)) (wire_host w)) = Ok o'"
    and q: "request_new o' (take (unat (wire_path_length w)) (wire_path w)) b = Ok q"
    by (auto simp: ipc_request_def rust_result split: if_splits)
  then show "built_request q" by (rule request_new_built)
  from request_new_Ok(3,6) [OF q] show "budget_is_valid (req_budget q)" by simp
qed

text \<open>
  C7. A lease cannot be amplified: whatever bytes arrive in the envelope, if the broker authorises
  it then it names exactly this lease, the lease has not expired, and the request it yields is a
  canonical one for exactly the leased origin, with a valid budget that exceeds the leased budget
  in no component.
\<close>

theorem authorize_ipc_no_amplification:
  assumes "authorize_ipc l w t = Ok q"
  shows "wire_capability w = lease_capability l \<and> wire_generation w = lease_generation l
    \<and> wire_expiry_epoch w = lease_expiry_epoch l \<and> lease_capability l \<noteq> 0 \<and> lease_generation l \<noteq> 0
    \<and> t < lease_expiry_epoch l \<and> built_request q \<and> budget_is_valid (req_budget q)
    \<and> req_origin q = lease_origin l
    \<and> request_bytes (req_budget q) \<le> request_bytes (lease_budget l)
    \<and> response_bytes (req_budget q) \<le> response_bytes (lease_budget l)
    \<and> max_segments (req_budget q) \<le> max_segments (lease_budget l)
    \<and> yield_every_segments (req_budget q) \<le> yield_every_segments (lease_budget l)"
proof -
  from assms have m: "wire_capability w = lease_capability l" "wire_generation w = lease_generation l"
      "wire_expiry_epoch w = lease_expiry_epoch l"
    and q: "ipc_request w = Ok q" and p: "lease_permits l q t = Ok ()"
    by (auto simp: authorize_ipc_def rust_result split: if_splits)
  from m ipc_request_built [OF q] p [unfolded lease_permits_Ok_iff] show ?thesis by simp
qed

definition example_request :: HttpsRequest where
  "example_request = request_of (origin_of [97, 46, 98]) [SLASH, 100] budget_DEFAULT"

definition example_lease :: HttpLease where
  "example_lease = \<lparr>lease_capability = 9, lease_generation = 4, lease_origin = origin_of [97, 46, 98],
     lease_budget = budget_DEFAULT, lease_expiry_epoch = 30\<rparr>"

definition example_wire :: HttpIpcRequest where
  "example_wire = (case to_ipc_request example_lease example_request 10 1 of Inr w \<Rightarrow> w | Inl _ \<Rightarrow> ipc_empty)"

lemma example_facts:
  "built_request example_request" "to_ipc_request example_lease example_request 10 1 = Ok example_wire"
  "authorize_ipc example_lease example_wire 10 = Ok example_request"
  by code_simp+

theorem authorize_ipc_no_amplification_witness:
  "authorize_ipc example_lease example_wire 10 = Ok example_request
   \<and> (10 :: u64) < lease_expiry_epoch example_lease \<and> req_origin example_request = lease_origin example_lease"
  using authorize_ipc_no_amplification [OF example_facts(3)] example_facts(3) by simp

lemma to_ipc_request_Ok:
  assumes "to_ipc_request l q t n = Ok w" "built_request q"
  shows "ipc_request w = Ok q" "wire_sequence w = n" "wire_version w = HTTP_IPC_VERSION"
    "wire_capability w = lease_capability l" "wire_generation w = lease_generation l"
    "wire_expiry_epoch w = lease_expiry_epoch l" "lease_permits l q t = Ok ()"
proof -
  let ?h = "origin_host (req_origin q)" and ?p = "request_path q"
  from assms(2) have o: "origin_new ?h = Ok (req_origin q)"
    and q: "request_new (req_origin q) ?p (req_budget q) = Ok q"
    by (simp_all add: built_request_def)
  have hl: "unat (host_length (req_origin q)) = length ?h" "length ?h \<le> MAX_HTTP_HOST_BYTES" "?h \<noteq> []"
    using origin_new_host(3,5) [OF o] by (auto simp: canonical_host_def)
  have pl: "unat (req_path_length q) = length ?p" "length ?p \<le> MAX_HTTP_PATH_BYTES" "?p \<noteq> []"
    using request_new_Ok(5,7) [OF q] by (simp_all add: canonical_path_def)
  have nz: "host_length (req_origin q) \<noteq> 0" "req_path_length q \<noteq> 0"
    using hl pl by (auto simp: word_unat_eq_iff [where w = 0])
  show perm: "lease_permits l q t = Ok ()" using assms(1) by (auto simp: to_ipc_request_def rust_result)
  note w = assms(1) [unfolded to_ipc_request_def perm and_then_simps, THEN sum.inject(2) [THEN iffD1], symmetric]
  show "wire_sequence w = n" "wire_version w = HTTP_IPC_VERSION" "wire_capability w = lease_capability l"
    "wire_generation w = lease_generation l" "wire_expiry_epoch w = lease_expiry_epoch l"
    by (simp_all add: w)
  have b: "\<lparr>request_bytes = request_bytes (req_budget q), response_bytes = response_bytes (req_budget q),
      max_segments = max_segments (req_budget q),
      yield_every_segments = yield_every_segments (req_budget q)\<rparr> = req_budget q" by simp
  show "ipc_request w = Ok q"
    using hl pl nz o q b take_copy_prefix [of ?h "wire_host ipc_empty"] take_copy_prefix [of ?p "wire_path ipc_empty"]
    by (simp add: w ipc_request_def ipc_empty_def b)
qed

lemma authorize_own_request:
  assumes "to_ipc_request l q t n = Ok w" "built_request q"
  shows "authorize_ipc l w t' = (if t' < lease_expiry_epoch l then Ok q else Err LeaseExpired)"
  using to_ipc_request_Ok [OF assms]
  by (auto simp: authorize_ipc_def lease_permits_def not_le not_less split: if_splits)

section \<open>Sessions\<close>

lemma prepare_Ok:
  assumes "session_prepare s w t = Ok e"
  shows "env_request e = w" "session_commit s e = (s\<lparr>in_flight := True\<rparr>, Ok ())"
    "t < ep_expiry_epoch (ses_lease s)"
  using assms
  by (auto simp: session_prepare_def authorize_request_def session_commit_def validate_envelope_def not_le
      split: if_splits)

text \<open>
  C12. The whole path of a request works and preserves it: a request built by the constructors and
  encoded under a lease with the session's next sequence number is prepared and committed by an
  idle, unexpired session, the broker decodes and authorises exactly the original request from the
  committed envelope at every time before the lease expires and refuses it afterwards, and
  completing it makes the session idle again at the next sequence number.
\<close>

theorem request_path_end_to_end:
  assumes "built_request q" and "to_ipc_request l q t (next_sequence s) = Ok w"
    and "valid_for (ses_lease s) t" and "\<not> revoked s" and "\<not> in_flight s" and "next_sequence s \<noteq> 0"
  shows "\<exists>e. session_prepare s w t = Ok e
    \<and> session_commit s e = (s\<lparr>in_flight := True\<rparr>, Ok ())
    \<and> (\<forall>t'. authorize_ipc l (env_request e) t' = (if t' < lease_expiry_epoch l then Ok q else Err LeaseExpired))
    \<and> session_complete (s\<lparr>in_flight := True\<rparr>) (next_sequence s)
        = (s\<lparr>next_sequence := wrapping_next (next_sequence s)\<rparr>, Ok ())"
proof -
  note w = to_ipc_request_Ok [OF assms(2,1)]
  from assms w(2,3) obtain e where e: "session_prepare s w t = Ok e"
    by (auto simp: session_prepare_def authorize_request_def valid_for_def not_le)
  have "session_complete (s\<lparr>in_flight := True\<rparr>) (next_sequence s)
        = (s\<lparr>next_sequence := wrapping_next (next_sequence s)\<rparr>, Ok ())"
    using assms(5) by (cases s) (simp add: session_complete_def)
  with e prepare_Ok [OF e] authorize_own_request [OF assms(2,1)] show ?thesis by auto
qed

definition example_endpoint :: ArgusEndpointLease where
  "example_endpoint = \<lparr>ep_version = ARGUS_ENDPOINT_VERSION, ep_owner = ARGUS_ENDPOINT_OWNER, ep_reserved = 0,
     ep_endpoint_capability = 11, ep_mapping_capability = 12, ep_generation = 4, ep_mapping_generation = 9,
     ep_expiry_epoch = 30\<rparr>"

theorem request_path_end_to_end_witness:
  "\<exists>e. session_prepare (session_new example_endpoint) example_wire 10 = Ok e
    \<and> authorize_ipc example_lease (env_request e) 10 = Ok example_request"
proof -
  have "valid_for (ses_lease (session_new example_endpoint)) 10"
    "next_sequence (session_new example_endpoint) = 1" "\<not> revoked (session_new example_endpoint)"
    "\<not> in_flight (session_new example_endpoint)"
    by (simp_all add: valid_for_def session_new_def example_endpoint_def)
  then show ?thesis
    using request_path_end_to_end [of example_request example_lease 10 "session_new example_endpoint" example_wire]
      example_facts by (auto simp: example_lease_def)
qed

text \<open>The histories of a session: every call with any arguments, and the sequence numbers whose
  commit and whose completion were accepted.\<close>

inductive session_reach :: "ArgusEndpointLease \<Rightarrow> ArgusEndpointSession \<Rightarrow> u32 list \<Rightarrow> u32 list \<Rightarrow> bool" where
  start: "session_reach l (session_new l) [] []"
| commit: "session_reach l s cs ds \<Longrightarrow> session_commit s e = (s', r) \<Longrightarrow>
    session_reach l s' (if is_ok r then cs @ [wire_sequence (env_request e)] else cs) ds"
| complete: "session_reach l s cs ds \<Longrightarrow> session_complete s n = (s', r) \<Longrightarrow>
    session_reach l s' cs (if is_ok r then ds @ [n] else ds)"
| revoke: "session_reach l s cs ds \<Longrightarrow> session_reach l (session_revoke s) cs ds"

definition nth_sequence :: "nat \<Rightarrow> u32" where "nth_sequence n = (wrapping_next ^^ n) 1"

definition session_inv :: "ArgusEndpointLease \<Rightarrow> ArgusEndpointSession \<Rightarrow> u32 list \<Rightarrow> u32 list \<Rightarrow> bool" where
  "session_inv l s cs ds \<longleftrightarrow>
     ses_lease s = l \<and> next_sequence s = nth_sequence (length ds)
   \<and> ds = map nth_sequence [0..<length ds]
   \<and> cs = map nth_sequence [0..<length cs]
   \<and> (if in_flight s then \<not> revoked s \<and> length cs = length ds + 1
      else if revoked s then length cs = length ds \<or> length cs = length ds + 1
      else length cs = length ds)"

lemma session_commit_Ok_iff:
  "session_commit s e = (s', Ok ()) \<longleftrightarrow>
     s' = s\<lparr>in_flight := True\<rparr> \<and> \<not> revoked s \<and> \<not> in_flight s \<and> validate_envelope s e = Ok ()"
  by (auto simp: session_commit_def split: if_splits sum.splits)

lemma session_commit_Err: "session_commit s e = (s', Err r) \<Longrightarrow> s' = s"
  by (auto simp: session_commit_def split: if_splits sum.splits)

lemma session_complete_Ok_iff:
  "session_complete s n = (s', Ok ()) \<longleftrightarrow>
     s' = s\<lparr>in_flight := False, next_sequence := wrapping_next (next_sequence s)\<rparr> \<and> in_flight s \<and> n = next_sequence s"
  by (auto simp: session_complete_def)

lemma session_complete_Err: "session_complete s n = (s', Err r) \<Longrightarrow> s' = s"
  by (auto simp: session_complete_def split: if_splits)

lemma validate_envelope_Ok:
  "validate_envelope s e = Ok () \<longleftrightarrow>
     env_version e = ARGUS_ENDPOINT_VERSION \<and> env_reserved e = 0
   \<and> env_endpoint_capability e = ep_endpoint_capability (ses_lease s)
   \<and> env_mapping_capability e = ep_mapping_capability (ses_lease s)
   \<and> env_generation e = ep_generation (ses_lease s)
   \<and> env_mapping_generation e = ep_mapping_generation (ses_lease s)
   \<and> wire_sequence (env_request e) = next_sequence s"
  by (auto simp: validate_envelope_def)

lemma nth_sequence_Suc: "nth_sequence (Suc n) = wrapping_next (nth_sequence n)"
  by (simp add: nth_sequence_def)

lemma history_extend:
  assumes "cs = map f [0..<length cs]" "ds = map f [0..<length ds]" "length cs = Suc (length ds)"
  shows "cs = ds @ [f (length ds)]"
proof -
  from assms(1,3) have "cs = map f [0..<Suc (length ds)]" by metis
  also have "\<dots> = map f [0..<length ds] @ [f (length ds)]" by simp
  also have "\<dots> = ds @ [f (length ds)]" using assms(2) by metis
  finally show ?thesis .
qed

lemma session_inv_reach: "session_reach l s cs ds \<Longrightarrow> session_inv l s cs ds"
proof (induction rule: session_reach.induct)
  case (start l)
  show ?case by (simp add: session_inv_def session_new_def nth_sequence_def)
next
  case (commit l s cs ds e s' r)
  show ?case
  proof (cases r)
    case (Inr u)
    with commit have "s' = s\<lparr>in_flight := True\<rparr>" "\<not> revoked s" "\<not> in_flight s"
      "wire_sequence (env_request e) = next_sequence s"
      by (simp_all add: session_commit_Ok_iff validate_envelope_Ok)
    moreover from this commit.IH have "cs = ds" unfolding session_inv_def by metis
    ultimately show ?thesis using commit.IH Inr by (simp add: session_inv_def)
  qed (use commit in \<open>auto dest: session_commit_Err\<close>)
next
  case (complete l s cs ds n s' r)
  show ?case
  proof (cases r)
    case (Inr u)
    with complete have "s' = s\<lparr>in_flight := False, next_sequence := wrapping_next (next_sequence s)\<rparr>"
      "in_flight s" "n = next_sequence s" by (simp_all add: session_complete_Ok_iff)
    moreover from this complete.IH have "cs = ds @ [nth_sequence (length ds)]"
      unfolding session_inv_def by (metis history_extend Suc_eq_plus1)
    ultimately show ?thesis using complete.IH Inr by (simp add: session_inv_def nth_sequence_Suc)
  qed (use complete in \<open>auto dest: session_complete_Err\<close>)
next
  case (revoke l s cs ds)
  then show ?case by (auto simp: session_inv_def session_revoke_def split: if_splits)
qed

lemma unat_nth_sequence: "unat (nth_sequence n) = n mod (2 ^ 32 - 1) + 1"
  using unat_wrapping_iterate [where ?'a = 32, of n] by (simp add: nth_sequence_def)



lemma layout_sizes:
  "HttpIpcRequest_layout = (216, 8)" "ArgusEndpointLease_layout = (40, 8)" "ArgusIpcRequest_layout = (248, 8)"
  by code_simp+

end
