(* ===== verification/Env_Block.thy ===== *)
theory Env_Block
  imports Absorber
begin

text \<open>
  Process arguments and environment, \<open>env.rs\<close>.  The process stack and the strings it points to are
  a byte memory; a pointer is an address and a \<open>&[u8]\<close> an address with a length.  The loops that
  run until a terminator are partial functions: their outer \<open>None\<close> means the loop does not stop.
\<close>

section \<open>Memory\<close>

type_synonym memory = "nat \<Rightarrow> u8"
type_synonym slice = "nat \<times> nat"

text \<open>A little-endian 64-bit load.\<close>

definition read_u64 :: "memory \<Rightarrow> nat \<Rightarrow> u64" where
  "read_u64 m a = word_rcat [m (a + 7), m (a + 6), m (a + 5), m (a + 4), m (a + 3), m (a + 2), m (a + 1), m a]"

definition read_ptr :: "memory \<Rightarrow> nat \<Rightarrow> nat" where "read_ptr m a = unat (read_u64 m a)"

definition slice_bytes :: "memory \<Rightarrow> slice \<Rightarrow> bytes" where
  "slice_bytes m s = map m [fst s..<fst s + snd s]"

partial_function (option) cstr_len :: "memory \<Rightarrow> nat \<Rightarrow> nat \<Rightarrow> nat option" where
  "cstr_len m ptr len = (if m (ptr + len) = 0 then Some len else cstr_len m ptr (len + 1))"

definition cstr_to_bytes :: "memory \<Rightarrow> nat \<Rightarrow> slice option" where
  "cstr_to_bytes m ptr = map_option (\<lambda>len. (ptr, len)) (cstr_len m ptr 0)"

section \<open>Arguments\<close>

definition MAX_ARGV :: nat where "MAX_ARGV = 64"
definition MAX_ENV_VARS :: nat where "MAX_ENV_VARS = 128"

record QuantumArgv =
  argv_base :: nat
  argv_argc :: nat

definition from_stack :: "memory \<Rightarrow> nat \<Rightarrow> QuantumArgv" where
  "from_stack m stack_ptr =
    (let argc = unat (read_u64 m stack_ptr) in
     \<lparr>argv_base = stack_ptr, argv_argc = (if argc < MAX_ARGV then argc else MAX_ARGV)\<rparr>)"

definition argv_len :: "QuantumArgv \<Rightarrow> nat" where "argv_len v = argv_argc v"
definition argv_is_empty :: "QuantumArgv \<Rightarrow> bool" where "argv_is_empty v \<longleftrightarrow> argv_argc v = 0"

text \<open>\<open>get\<close>: the outer option is termination of the string scan, the inner one Rust's.\<close>

definition argv_get :: "memory \<Rightarrow> QuantumArgv \<Rightarrow> nat \<Rightarrow> slice option option" where
  "argv_get m v index =
    (if argv_argc v \<le> index then Some None
     else let ptr = read_ptr m (argv_base v + 8 * (1 + index)) in
       if ptr = 0 then Some None else map_option Some (cstr_to_bytes m ptr))"

definition argv_next :: "memory \<Rightarrow> QuantumArgv \<Rightarrow> nat \<Rightarrow> (nat \<times> slice option) option" where
  "argv_next m v index =
    map_option (\<lambda>r. case r of None \<Rightarrow> (index, None) | Some s \<Rightarrow> (index + 1, Some s)) (argv_get m v index)"

text \<open>Draining the iterator from an index.\<close>

function argv_collect :: "memory \<Rightarrow> QuantumArgv \<Rightarrow> nat \<Rightarrow> slice list option" where
  "argv_collect m v index =
    (case argv_next m v index of
       None \<Rightarrow> None
     | Some (_, None) \<Rightarrow> Some []
     | Some (index', Some s) \<Rightarrow> map_option ((#) s) (argv_collect m v index'))"
  by pat_completeness auto
termination
  by (relation "measure (\<lambda>(m, v, i). argv_argc v - i)")
    (auto simp: argv_next_def argv_get_def Let_def split: if_splits option.splits)

declare argv_collect.simps [simp del]

definition envp_base :: "QuantumArgv \<Rightarrow> nat" where
  "envp_base v = argv_base v + 8 * (1 + argv_argc v + 1)"

section \<open>Phase keys\<close>

datatype PhaseKey = PhaseKey u64

definition FNV_OFFSET :: u64 where "FNV_OFFSET = 0xcbf29ce484222325"
definition FNV_PRIME :: u64 where "FNV_PRIME = 0x00000100000001b3"

definition fnv1a_step :: "u64 \<Rightarrow> u8 \<Rightarrow> u64" where
  "fnv1a_step hash b = (hash XOR ucast b) * FNV_PRIME"

definition fnv1a_const :: "bytes \<Rightarrow> u64" where
  "fnv1a_const bs = foldl fnv1a_step FNV_OFFSET bs"

definition phase_from_bytes :: "bytes \<Rightarrow> PhaseKey" where
  "phase_from_bytes bs = PhaseKey (fnv1a_const bs)"

fun phase_hash :: "PhaseKey \<Rightarrow> u64" where "phase_hash (PhaseKey h) = h"

section \<open>Environment\<close>

abbreviation EQUALS :: u8 where "EQUALS \<equiv> 61"

partial_function (option) env_get_from :: "memory \<Rightarrow> nat \<Rightarrow> bytes \<Rightarrow> nat \<Rightarrow> slice option option" where
  "env_get_from m base key i =
    (if read_ptr m (base + 8 * i) = 0 then Some None
     else Option.bind (cstr_to_bytes m (read_ptr m (base + 8 * i))) (\<lambda>s.
       if snd s > length key + 1 \<and> take (length key) (slice_bytes m s) = key
          \<and> slice_bytes m s ! length key = EQUALS
       then Some (Some (fst s + (length key + 1), snd s - (length key + 1)))
       else env_get_from m base key (i + 1)))"

definition env_get :: "memory \<Rightarrow> nat \<Rightarrow> bytes \<Rightarrow> slice option option" where
  "env_get m base key = env_get_from m base key 0"

text \<open>The \<open>?\<close> on the separator leaves the whole function: an entry without \<open>=\<close> ends the search.\<close>

partial_function (option) env_get_phase_from :: "memory \<Rightarrow> nat \<Rightarrow> PhaseKey \<Rightarrow> nat \<Rightarrow> slice option option" where
  "env_get_phase_from m base key i =
    (if read_ptr m (base + 8 * i) = 0 then Some None
     else Option.bind (cstr_to_bytes m (read_ptr m (base + 8 * i))) (\<lambda>s.
       case position (\<lambda>b. b = EQUALS) (slice_bytes m s) of
         None \<Rightarrow> Some None
       | Some sep \<Rightarrow>
           if fnv1a_const (take sep (slice_bytes m s)) = phase_hash key
           then Some (Some (fst s + (sep + 1), snd s - (sep + 1)))
           else env_get_phase_from m base key (i + 1)))"

definition env_get_phase :: "memory \<Rightarrow> nat \<Rightarrow> PhaseKey \<Rightarrow> slice option option" where
  "env_get_phase m base key = env_get_phase_from m base key 0"

record EnvEntry =
  key_hash :: u64
  env_value :: nat
  env_value_len :: u16

record EnvSnapshot =
  env_entries :: "EnvEntry list"
  env_count :: nat

definition snapshot_empty :: EnvSnapshot where
  "snapshot_empty = \<lparr>env_entries = replicate MAX_ENV_VARS \<lparr>key_hash = 0, env_value = 0, env_value_len = 0\<rparr>,
     env_count = 0\<rparr>"

definition env_entry_of :: "memory \<Rightarrow> slice \<Rightarrow> nat \<Rightarrow> EnvEntry" where
  "env_entry_of m s sep =
    \<lparr>key_hash = fnv1a_const (take sep (slice_bytes m s)), env_value = fst s + (sep + 1),
     env_value_len = of_nat (min (snd s - (sep + 1)) 65535)\<rparr>"

definition snapshot_add :: "memory \<Rightarrow> slice \<Rightarrow> EnvSnapshot \<Rightarrow> EnvSnapshot" where
  "snapshot_add m s snap =
    (case position (\<lambda>b. b = EQUALS) (slice_bytes m s) of
       None \<Rightarrow> snap
     | Some sep \<Rightarrow>
         if env_count snap < MAX_ENV_VARS
         then snap\<lparr>env_entries := (env_entries snap)[env_count snap := env_entry_of m s sep],
                   env_count := env_count snap + 1\<rparr>
         else snap)"

partial_function (option) collapse_from :: "memory \<Rightarrow> nat \<Rightarrow> nat \<Rightarrow> EnvSnapshot \<Rightarrow> EnvSnapshot option" where
  "collapse_from m base i snap =
    (if read_ptr m (base + 8 * i) = 0 then Some snap
     else Option.bind (cstr_to_bytes m (read_ptr m (base + 8 * i))) (\<lambda>s.
       collapse_from m base (i + 1) (snapshot_add m s snap)))"

definition env_collapse :: "memory \<Rightarrow> nat \<Rightarrow> EnvSnapshot option" where
  "env_collapse m base = collapse_from m base 0 snapshot_empty"

definition snapshot_get :: "EnvSnapshot \<Rightarrow> PhaseKey \<Rightarrow> slice option" where
  "snapshot_get snap key =
    map_option (\<lambda>e. (env_value e, unat (env_value_len e)))
      (find (\<lambda>e. key_hash e = phase_hash key) (take (env_count snap) (env_entries snap)))"

section \<open>Hashing\<close>

lemma fnv_prime_unit: "FNV_PRIME * 0xce965057aff6957b = 1"
  by (simp add: FNV_PRIME_def)

interpretation fnv: absorber fnv1a_step
proof
  fix s t :: u64 and w
  assume "fnv1a_step s w = fnv1a_step t w"
  then have "s XOR ucast w = t XOR ucast w"
    unfolding fnv1a_step_def by (rule mult_unit_inj [OF fnv_prime_unit])
  then show "s = t" by (rule xor_cancel_right)
next
  fix s :: u64 and v w
  assume "fnv1a_step s v = fnv1a_step s w"
  then have "s XOR ucast v = s XOR ucast w"
    unfolding fnv1a_step_def by (rule mult_unit_inj [OF fnv_prime_unit])
  then have "(ucast v :: u64) = ucast w" by (rule xor_cancel_left)
  then show "v = w" by (rule ucast_up_inj [rotated]) simp
qed

text \<open>Keys that differ in exactly one byte never share a phase key.\<close>

lemma phase_key_single_byte:
  assumes "i < length bs" "b \<noteq> bs ! i"
  shows "phase_from_bytes (bs[i := b]) \<noteq> phase_from_bytes bs"
  using fnv.foldl_update_neq [OF assms, of FNV_OFFSET] by (simp add: phase_from_bytes_def fnv1a_const_def)

section \<open>Strings and pointer arrays in memory\<close>

definition cstr_at :: "memory \<Rightarrow> nat \<Rightarrow> bytes \<Rightarrow> bool" where
  "cstr_at m p bs \<longleftrightarrow>
     0 < p \<and> 0 \<notin> set bs \<and> m (p + length bs) = 0 \<and> list_all (\<lambda>i. m (p + i) = bs ! i) [0..<length bs]"

text \<open>A null-terminated array of string pointers at \<open>base\<close>, with the strings it points to.\<close>

fun strings_at :: "memory \<Rightarrow> nat \<Rightarrow> bytes list \<Rightarrow> bool" where
  "strings_at m base [] \<longleftrightarrow> read_ptr m base = 0"
| "strings_at m base (s # ss) \<longleftrightarrow> cstr_at m (read_ptr m base) s \<and> strings_at m (base + 8) ss"

text \<open>The documented process entry layout.\<close>

definition stack_image :: "memory \<Rightarrow> nat \<Rightarrow> bytes list \<Rightarrow> bytes list \<Rightarrow> bool" where
  "stack_image m sp args envs \<longleftrightarrow>
     unat (read_u64 m sp) = length args \<and> strings_at m (sp + 8) args
   \<and> strings_at m (sp + 8 * (length args + 2)) envs"

lemma cstr_len_at:
  assumes "cstr_at m p bs" "i \<le> length bs"
  shows "cstr_len m p i = Some (length bs)"
  using assms(2)
proof (induction i rule: inc_induct)
  case base
  then show ?case using assms(1) by (subst cstr_len.simps) (simp add: cstr_at_def)
next
  case (step n)
  from assms(1) step.hyps have "m (p + n) = bs ! n" "bs ! n \<in> set bs"
    by (simp_all add: cstr_at_def list_all_iff)
  with assms(1) have "m (p + n) \<noteq> 0" by (auto simp: cstr_at_def)
  with step.IH show ?case by (subst cstr_len.simps) simp
qed

lemma cstr_to_bytes_at:
  assumes "cstr_at m p bs"
  shows "cstr_to_bytes m p = Some (p, length bs)" "slice_bytes m (p, length bs) = bs"
proof -
  show "cstr_to_bytes m p = Some (p, length bs)"
    using cstr_len_at [OF assms, of 0] by (simp add: cstr_to_bytes_def)
  show "slice_bytes m (p, length bs) = bs"
    using assms by (auto simp: slice_bytes_def cstr_at_def list_all_iff intro!: nth_equalityI)
qed

lemma slice_bytes_drop:
  assumes "slice_bytes m (p, n) = bs" "k \<le> n"
  shows "slice_bytes m (p + k, n - k) = drop k bs"
proof -
  have "drop k bs = map m (drop k [p..<p + n])" using assms(1) by (simp add: slice_bytes_def drop_map flip: assms(1))
  with assms(2) show ?thesis by (simp add: slice_bytes_def drop_upt)
qed

lemma slice_bytes_take: "slice_bytes m (p, min n k) = take k (slice_bytes m (p, n))"
  by (simp add: slice_bytes_def take_map take_upt min_def)

lemma strings_at_nth:
  assumes "strings_at m base ss" "i < length ss"
  shows "cstr_at m (read_ptr m (base + 8 * i)) (ss ! i)" "read_ptr m (base + 8 * i) \<noteq> 0"
proof -
  show c: "cstr_at m (read_ptr m (base + 8 * i)) (ss ! i)"
    using assms
  proof (induction m base ss arbitrary: i rule: strings_at.induct)
    case (2 m base s ss)
    then show ?case by (cases i) (auto simp: algebra_simps)
  qed simp
  then show "read_ptr m (base + 8 * i) \<noteq> 0" by (simp add: cstr_at_def)
qed

lemma strings_at_end: "strings_at m base ss \<Longrightarrow> read_ptr m (base + 8 * length ss) = 0"
  by (induction m base ss rule: strings_at.induct) (auto simp: algebra_simps)

section \<open>Arguments are all observed\<close>

lemma argv_collect_from:
  assumes args: "strings_at m (argv_base v + 8) args" and n: "argv_argc v \<le> length args" and "i \<le> argv_argc v"
  shows "map_option (map (slice_bytes m)) (argv_collect m v i) = Some (drop i (take (argv_argc v) args))"
  using \<open>i \<le> argv_argc v\<close>
proof (induction i rule: inc_induct)
  case base
  then show ?case by (subst argv_collect.simps) (simp add: argv_next_def argv_get_def)
next
  case (step i)
  let ?p = "read_ptr m (argv_base v + 8 + 8 * i)"
  from step.hyps n have i: "i < length args" by simp
  note c = strings_at_nth [OF args i] and s = cstr_to_bytes_at [OF strings_at_nth(1) [OF args i]]
  have "argv_next m v i = Some (i + 1, Some (?p, length (args ! i)))"
    using step.hyps c(2) s(1) by (simp add: argv_next_def argv_get_def Let_def algebra_simps)
  moreover have "drop i (take (argv_argc v) args) = args ! i # drop (Suc i) (take (argv_argc v) args)"
    using step.hyps n Cons_nth_drop_Suc [of i "take (argv_argc v) args"] by simp
  ultimately show ?case
    using step.IH s(2) by (subst argv_collect.simps) (auto simp: option.map_comp comp_def)
qed

section \<open>The snapshot is a faithful table\<close>

text \<open>The abstract environment: the \<open>KEY=VALUE\<close> entries, split at the first \<open>=\<close>.\<close>

definition split_entry :: "bytes \<Rightarrow> (bytes \<times> bytes) option" where
  "split_entry e = map_option (\<lambda>i. (take i e, drop (i + 1) e)) (position (\<lambda>b. b = EQUALS) e)"

definition key_values :: "bytes list \<Rightarrow> (bytes \<times> bytes) list" where
  "key_values es = List.map_filter split_entry es"

definition env_lookup :: "(bytes \<times> bytes) list \<Rightarrow> PhaseKey \<Rightarrow> bytes option" where
  "env_lookup kvs key = map_option snd (find (\<lambda>(k, _). phase_from_bytes k = key) kvs)"

definition entry_view :: "memory \<Rightarrow> EnvEntry \<Rightarrow> u64 \<times> bytes" where
  "entry_view m e = (key_hash e, slice_bytes m (env_value e, unat (env_value_len e)))"

definition kv_view :: "bytes \<times> bytes \<Rightarrow> u64 \<times> bytes" where
  "kv_view kv = (fnv1a_const (fst kv), take 65535 (snd kv))"

definition snapshot_view :: "memory \<Rightarrow> EnvSnapshot \<Rightarrow> (u64 \<times> bytes) list" where
  "snapshot_view m snap = map (entry_view m) (take (env_count snap) (env_entries snap))"

definition snapshot_ok :: "memory \<Rightarrow> EnvSnapshot \<Rightarrow> (bytes \<times> bytes) list \<Rightarrow> bool" where
  "snapshot_ok m snap kvs \<longleftrightarrow>
     length (env_entries snap) = MAX_ENV_VARS \<and> env_count snap = min (length kvs) MAX_ENV_VARS
   \<and> snapshot_view m snap = map kv_view (take MAX_ENV_VARS kvs)"

lemma entry_view_of:
  assumes "cstr_at m p e" "position (\<lambda>b. b = EQUALS) e = Some sep"
  shows "entry_view m (env_entry_of m (p, length e) sep) = kv_view (take sep e, drop (sep + 1) e)"
proof -
  note s = cstr_to_bytes_at(2) [OF assms(1)]
  from assms(2) have "sep + 1 \<le> length e" by (auto simp: position_Some_iff)
  then have "slice_bytes m (p + (sep + 1), length e - (sep + 1)) = drop (sep + 1) e"
    by (rule slice_bytes_drop [OF s])
  moreover have "unat (of_nat (min (length e - (sep + 1)) 65535) :: u16) = min (length e - (sep + 1)) 65535"
    by (simp add: unat_of_nat)
  ultimately show ?thesis
    using slice_bytes_take [of m "p + (sep + 1)" "length e - (sep + 1)" 65535] s
    by (simp add: entry_view_def env_entry_of_def kv_view_def)
qed

lemma snapshot_add_ok:
  assumes ok: "snapshot_ok m snap kvs" and e: "cstr_at m p e"
  shows "snapshot_ok m (snapshot_add m (p, length e) snap) (kvs @ List.map_filter split_entry [e])"
proof (cases "position (\<lambda>b. b = EQUALS) e")
  case None
  then show ?thesis using ok cstr_to_bytes_at(2) [OF e]
    by (simp add: snapshot_add_def split_entry_def map_filter_simps)
next
  case (Some sep)
  note add = cstr_to_bytes_at(2) [OF e] Some entry_view_of [OF e Some]
  show ?thesis
  proof (cases "env_count snap < MAX_ENV_VARS")
    case True
    with ok have "length kvs < MAX_ENV_VARS" "env_count snap = length kvs" by (auto simp: snapshot_ok_def)
    with ok add show ?thesis
      by (auto simp: snapshot_add_def split_entry_def map_filter_simps snapshot_ok_def snapshot_view_def
          take_Suc_conv_app_nth)
  next
    case False
    with ok add show ?thesis
      by (auto simp: snapshot_add_def split_entry_def map_filter_simps snapshot_ok_def)
  qed
qed

lemma collapse_from_ok:
  assumes "strings_at m base es" "i \<le> length es" "snapshot_ok m snap (key_values (take i es))"
  shows "\<exists>snap'. collapse_from m base i snap = Some snap' \<and> snapshot_ok m snap' (key_values es)"
  using assms(2,3)
proof (induction i arbitrary: snap rule: inc_induct)
  case base
  then show ?case using strings_at_end [OF assms(1)] by (subst collapse_from.simps) simp
next
  case (step i)
  note c = strings_at_nth [OF assms(1) step.hyps(2)]
  have "key_values (take (Suc i) es) = key_values (take i es) @ List.map_filter split_entry [es ! i]"
    using step.hyps by (simp add: key_values_def take_Suc_conv_app_nth map_filter_def)
  with snapshot_add_ok [OF step.prems c(1)] step.IH
  obtain snap' where "collapse_from m base (Suc i)
      (snapshot_add m (read_ptr m (base + 8 * i), length (es ! i)) snap) = Some snap'"
    "snapshot_ok m snap' (key_values es)" by fastforce
  then show ?case using c(2) cstr_to_bytes_at(1) [OF c(1)] by (subst collapse_from.simps) simp
qed

lemma snapshot_ok_empty: "snapshot_ok m snapshot_empty []"
  by (simp add: snapshot_ok_def snapshot_empty_def snapshot_view_def)

lemma env_collapse_ok:
  assumes "strings_at m base es"
  shows "\<exists>snap. env_collapse m base = Some snap \<and> snapshot_ok m snap (key_values es)"
  using collapse_from_ok [OF assms, of 0 snapshot_empty] snapshot_ok_empty
  by (simp add: env_collapse_def key_values_def map_filter_simps)

lemma find_map: "find P (map f xs) = map_option f (find (P \<circ> f) xs)"
  by (induction xs) auto

lemma snapshot_get_ok:
  assumes "snapshot_ok m snap kvs"
  shows "map_option (slice_bytes m) (snapshot_get snap key) =
    map_option (take 65535) (env_lookup (take MAX_ENV_VARS kvs) key)"
proof -
  let ?P = "\<lambda>(h, _ :: bytes). h = phase_hash key"
  have "map_option (slice_bytes m) (snapshot_get snap key) = map_option snd (find ?P (snapshot_view m snap))"
    by (simp add: snapshot_get_def snapshot_view_def find_map option.map_comp comp_def entry_view_def)
  also have "\<dots> = map_option snd (find ?P (map kv_view (take MAX_ENV_VARS kvs)))"
    using assms by (simp add: snapshot_ok_def)
  also have "\<dots> = map_option (take 65535) (env_lookup (take MAX_ENV_VARS kvs) key)"
    by (cases key) (simp add: env_lookup_def find_map option.map_comp comp_def kv_view_def phase_from_bytes_def
        case_prod_unfold)
  finally show ?thesis .
qed

lemma from_stack_argc:
  assumes "stack_image m sp args envs" "length args \<le> MAX_ARGV"
  shows "argv_argc (from_stack m sp) = length args" "argv_base (from_stack m sp) = sp"
    "envp_base (from_stack m sp) = sp + 8 * (length args + 2)"
  using assms by (auto simp: from_stack_def stack_image_def Let_def envp_base_def)


text \<open>A stack at address 0 with one argument \<open>a\<close> and the environment \<open>K=v\<close>.\<close>

definition example_image :: bytes where
  "example_image = concat [[1, 0, 0, 0, 0, 0, 0, 0], [40, 0, 0, 0, 0, 0, 0, 0], [0, 0, 0, 0, 0, 0, 0, 0],
     [42, 0, 0, 0, 0, 0, 0, 0], [0, 0, 0, 0, 0, 0, 0, 0], [97, 0], [75, 61, 118, 0]]"

definition example_memory :: memory where
  "example_memory a = (if a < length example_image then example_image ! a else 0)"

lemma example_stack: "stack_image example_memory 0 [[97]] [[75, 61, 118]]"
  by code_simp


text \<open>
  Beyond 64 arguments the clamped count is also used to find the environment: the block then read
  as the environment starts inside the argument pointers.
\<close>

lemma envp_base_clamped:
  assumes "stack_image m sp args envs" "MAX_ARGV < length args"
  shows "envp_base (from_stack m sp) = sp + 8 * (MAX_ARGV + 2)"
    "envp_base (from_stack m sp) < sp + 8 * (length args + 2)"
  using assms by (auto simp: from_stack_def stack_image_def Let_def envp_base_def)

section \<open>The direct lookups\<close>

definition get_match :: "bytes \<Rightarrow> bytes \<Rightarrow> bool" where
  "get_match key e \<longleftrightarrow> length e > length key + 1 \<and> take (length key) e = key \<and> e ! length key = EQUALS"

lemma env_get_from_at:
  assumes "strings_at m base es" "i \<le> length es"
  shows "map_option (map_option (slice_bytes m)) (env_get_from m base key i) =
    Some (map_option (drop (length key + 1)) (find (get_match key) (drop i es)))"
  using assms(2)
proof (induction i rule: inc_induct)
  case base
  then show ?case using strings_at_end [OF assms(1)] by (subst env_get_from.simps) simp
next
  case (step i)
  note c = strings_at_nth [OF assms(1) step.hyps(2)] and s = cstr_to_bytes_at [OF strings_at_nth(1) [OF assms(1) step.hyps(2)]]
  have d: "drop i es = es ! i # drop (Suc i) es" using step.hyps by (simp add: Cons_nth_drop_Suc)
  show ?case
  proof (cases "get_match key (es ! i)")
    case True
    then have "length key + 1 \<le> length (es ! i)" by (simp add: get_match_def)
    from slice_bytes_drop [OF s(2) this] True c(2) s show ?thesis
      by (subst env_get_from.simps) (simp add: d get_match_def)
  next
    case False
    then have "env_get_from m base key i = env_get_from m base key (Suc i)"
      using c(2) s by (subst env_get_from.simps) (auto simp: get_match_def)
    with False step.IH show ?thesis by (simp add: d)
  qed
qed

text \<open>\<open>get_phase\<close> stops at the first entry without a separator.\<close>

fun phase_scan :: "PhaseKey \<Rightarrow> bytes list \<Rightarrow> bytes option" where
  "phase_scan key [] = None"
| "phase_scan key (e # es) =
    (case split_entry e of None \<Rightarrow> None
     | Some (k, v) \<Rightarrow> if phase_from_bytes k = key then Some v else phase_scan key es)"

lemma env_get_phase_from_at:
  assumes "strings_at m base es" "i \<le> length es"
  shows "map_option (map_option (slice_bytes m)) (env_get_phase_from m base key i) =
    Some (phase_scan key (drop i es))"
  using assms(2)
proof (induction i rule: inc_induct)
  case base
  then show ?case using strings_at_end [OF assms(1)] by (subst env_get_phase_from.simps) simp
next
  case (step i)
  note c = strings_at_nth [OF assms(1) step.hyps(2)] and s = cstr_to_bytes_at [OF strings_at_nth(1) [OF assms(1) step.hyps(2)]]
  have d: "drop i es = es ! i # drop (Suc i) es" using step.hyps by (simp add: Cons_nth_drop_Suc)
  show ?case
  proof (cases "position (\<lambda>b. b = EQUALS) (es ! i)")
    case None
    with c(2) s show ?thesis by (subst env_get_phase_from.simps) (simp add: d split_entry_def)
  next
    case (Some sep)
    then have "sep + 1 \<le> length (es ! i)" by (auto simp: position_Some_iff)
    from slice_bytes_drop [OF s(2) this] Some step.IH c(2) s show ?thesis
      by (subst env_get_phase_from.simps)
        (cases key, auto simp: d split_entry_def phase_from_bytes_def)
  qed
qed

lemma split_entry_Some:
  assumes "split_entry e = Some (k, v)"
  shows "e = k @ EQUALS # v" "EQUALS \<notin> set k"
proof -
  from assms obtain i where i: "position (\<lambda>b. b = EQUALS) e = Some i" "k = take i e" "v = drop (i + 1) e"
    by (auto simp: split_entry_def)
  then have "i < length e" "e ! i = EQUALS" "\<forall>j < i. e ! j \<noteq> EQUALS" by (auto simp: position_Some_iff)
  with i id_take_nth_drop [of i e] show "e = k @ EQUALS # v" by simp
  show "EQUALS \<notin> set k" using i(2) \<open>i < length e\<close> \<open>\<forall>j < i. e ! j \<noteq> EQUALS\<close> by (auto simp: in_set_conv_nth)
qed

lemma separator_unique:
  assumes "xs @ c # ys = zs @ c # ws" "c \<notin> set xs" "c \<notin> set zs"
  shows "xs = zs"
proof -
  have "takeWhile (\<lambda>b. b \<noteq> c) (us @ c # vs) = us" if "c \<notin> set us" for us vs
    using that by (induction us) auto
  from this [OF assms(2), of ys] this [OF assms(3), of ws] assms(1) show ?thesis by simp
qed

lemma get_match_split:
  assumes "split_entry e = Some (k, v)" "EQUALS \<notin> set key"
  shows "get_match key e \<longleftrightarrow> k = key \<and> v \<noteq> []"
proof
  note e = split_entry_Some [OF assms(1)]
  assume g: "get_match key e"
  then have "length key < length e" by (simp add: get_match_def)
  with g have "e = key @ EQUALS # drop (Suc (length key)) e"
    by (metis get_match_def id_take_nth_drop)
  with e(1) have "k @ EQUALS # v = key @ EQUALS # drop (Suc (length key)) e" by simp
  then have "k = key" using e(2) assms(2) by (rule separator_unique)
  with e g show "k = key \<and> v \<noteq> []" by (auto simp: get_match_def)
next
  assume "k = key \<and> v \<noteq> []"
  with split_entry_Some [OF assms(1)] show "get_match key e" by (simp add: get_match_def)
qed

text \<open>An environment on which the three lookups cannot be told apart.\<close>

definition plain_entry :: "bytes \<Rightarrow> bytes \<Rightarrow> bool" where
  "plain_entry key e = (case split_entry e of
     None \<Rightarrow> False
   | Some (k, v) \<Rightarrow> v \<noteq> [] \<and> length v \<le> 65535 \<and> (fnv1a_const k = fnv1a_const key \<longrightarrow> k = key))"

lemma lookups_on_plain:
  assumes "EQUALS \<notin> set key" "list_all (plain_entry key) es"
  shows "map_option (drop (length key + 1)) (find (get_match key) es) = env_lookup (key_values es) (phase_from_bytes key)"
    and "phase_scan (phase_from_bytes key) es = env_lookup (key_values es) (phase_from_bytes key)"
    and "map_option (take 65535) (env_lookup (key_values es) (phase_from_bytes key))
      = env_lookup (key_values es) (phase_from_bytes key)"
  using assms(2)
proof (induction es)
  case (Cons e es)
  {
    case 1
    then show ?case using Cons.IH(1) get_match_split [OF _ assms(1), of e] split_entry_Some [of e]
      by (auto simp: plain_entry_def key_values_def map_filter_simps env_lookup_def phase_from_bytes_def
          split: option.splits)
  next
    case 2
    then show ?case using Cons.IH(2)
      by (auto simp: plain_entry_def key_values_def map_filter_simps env_lookup_def split: option.splits)
  next
    case 3
    then show ?case using Cons.IH(3)
      by (auto simp: plain_entry_def key_values_def map_filter_simps env_lookup_def split: option.splits)
  }
qed (simp_all add: key_values_def map_filter_simps env_lookup_def)

text \<open>
  C22. On an ordinary environment the three ways to look a variable up are the same function: if
  there are at most 128 entries, each of the form \<open>KEY=VALUE\<close> with a value that is not empty and at
  most 65535 bytes long, and no other key present has the hash of the key sought, then \<open>get\<close>,
  \<open>get_phase\<close> and a lookup in the snapshot all terminate with the same bytes, or all find nothing.
\<close>

theorem env_lookups_agree:
  assumes "strings_at m base es" and "length es \<le> MAX_ENV_VARS"
    and "EQUALS \<notin> set key" and "list_all (plain_entry key) es"
  shows "\<exists>snap v. env_collapse m base = Some snap
    \<and> map_option (map_option (slice_bytes m)) (env_get m base key) = Some v
    \<and> map_option (map_option (slice_bytes m)) (env_get_phase m base (phase_from_bytes key)) = Some v
    \<and> map_option (slice_bytes m) (snapshot_get snap (phase_from_bytes key)) = v"
proof -
  obtain snap where snap: "env_collapse m base = Some snap" "snapshot_ok m snap (key_values es)"
    using env_collapse_ok [OF assms(1)] by blast
  have "length (key_values es) \<le> MAX_ENV_VARS"
    unfolding key_values_def map_filter_def length_map
    using length_filter_le assms(2) by (rule le_trans)
  then have "take MAX_ENV_VARS (key_values es) = key_values es" by simp
  then have "map_option (slice_bytes m) (snapshot_get snap (phase_from_bytes key))
      = env_lookup (key_values es) (phase_from_bytes key)"
    using snapshot_get_ok [OF snap(2)] lookups_on_plain(3) [OF assms(3,4)] by simp
  moreover have "map_option (map_option (slice_bytes m)) (env_get m base key)
      = Some (env_lookup (key_values es) (phase_from_bytes key))"
    using env_get_from_at [OF assms(1), of 0 key] lookups_on_plain(1) [OF assms(3,4)] by (simp add: env_get_def)
  moreover have "map_option (map_option (slice_bytes m)) (env_get_phase m base (phase_from_bytes key))
      = Some (env_lookup (key_values es) (phase_from_bytes key))"
    using env_get_phase_from_at [OF assms(1), of 0 "phase_from_bytes key"] lookups_on_plain(2) [OF assms(3,4)]
    by (simp add: env_get_phase_def)
  ultimately show ?thesis using snap(1) by blast
qed

theorem env_lookups_agree_witness:
  "\<exists>v. map_option (map_option (slice_bytes example_memory)) (env_get example_memory 24 [75]) = Some v
     \<and> map_option (map_option (slice_bytes example_memory)) (env_get_phase example_memory 24 (phase_from_bytes [75])) = Some v"
proof -
  have mem: "strings_at example_memory 24 [[75, 61, 118]]" by code_simp
  have len: "length [[75, 61, 118 :: u8]] \<le> MAX_ENV_VARS" by (simp add: MAX_ENV_VARS_def)
  have key: "EQUALS \<notin> set [75]" by simp
  have plain: "list_all (plain_entry [75]) [[75, 61, 118]]"
    by (simp add: plain_entry_def split_entry_def)
  from env_lookups_agree [OF mem len key plain] show ?thesis by blast
qed

text \<open>Why the assumptions are there: an empty value is invisible to \<open>get\<close> alone, and an entry without
  a separator ends the search of \<open>get_phase\<close> alone.\<close>

lemma get_misses_empty_value:
  "find (get_match [75]) [[75, 61]] = None" "phase_scan (phase_from_bytes [75]) [[75, 61]] = Some []"
  by code_simp+

lemma get_phase_stops_early:
  "map_option (drop 2) (find (get_match [75]) [[97], [75, 61, 118]]) = Some [118]"
  "phase_scan (phase_from_bytes [75]) [[97], [75, 61, 118]] = None"
  by code_simp+

end
