(* ===== verification/Capability.thy ===== *)
theory Capability
  imports Env_Block
begin

text \<open>
  Capability handles received through the environment, \<open>capability.rs\<close>.  A right is given by its two
  environment keys; the type parameter of \<open>CapHandle\<close> has no run-time content.
\<close>

section \<open>Parsing a handle\<close>

datatype CapabilityError = Missing | Malformed | NullHandle | CapOverflow

abbreviation UNDERSCORE :: u8 where "UNDERSCORE \<equiv> 95"

text \<open>The digit match: the letter arms are guarded by the radix.\<close>

definition handle_digit :: "u64 \<Rightarrow> u8 \<Rightarrow> u64 option" where
  "handle_digit radix b =
    (if 48 \<le> b \<and> b \<le> 57 then Some (ucast (b - 48))
     else if 97 \<le> b \<and> b \<le> 102 \<and> radix = 16 then Some (ucast (b - 97 + 10))
     else if 65 \<le> b \<and> b \<le> 70 \<and> radix = 16 then Some (ucast (b - 65 + 10))
     else None)"

fun handle_loop :: "u64 \<Rightarrow> bytes \<Rightarrow> u64 \<Rightarrow> nat \<Rightarrow> (CapabilityError, u64 \<times> nat) result" where
  "handle_loop radix [] acc consumed = Ok (acc, consumed)"
| "handle_loop radix (b # bs) acc consumed =
    (if b = UNDERSCORE then handle_loop radix bs acc consumed
     else case handle_digit radix b of
       None \<Rightarrow> Err Malformed
     | Some digit \<Rightarrow>
         if radix \<le> digit then Err Malformed
         else case Option.bind (checked_mul acc radix) (\<lambda>v. checked_add v digit) of
           None \<Rightarrow> Err CapOverflow
         | Some v \<Rightarrow> handle_loop radix bs v (consumed + 1))"

definition handle_radix :: "bytes \<Rightarrow> u64 \<times> bytes" where
  "handle_radix bs = (if take 2 bs = [48, 120] \<or> take 2 bs = [48, 88] then (16, drop 2 bs) else (10, bs))"

definition parse_handle :: "bytes \<Rightarrow> (CapabilityError, u64) result" where
  "parse_handle bs =
    (case handle_radix bs of (radix, digits) \<Rightarrow>
       if digits = [] then Err Malformed
       else and_then (handle_loop radix digits 0 0) (\<lambda>(acc, consumed).
         if consumed = 0 then Err Malformed else Ok acc))"

section \<open>Receiving a capability\<close>

record right =
  ENV_KEY :: PhaseKey
  LEGACY_ENV_KEY :: "PhaseKey option"

definition declare_right :: "bytes \<Rightarrow> bytes \<Rightarrow> right" where
  "declare_right key legacy = \<lparr>ENV_KEY = phase_from_bytes key, LEGACY_ENV_KEY = Some (phase_from_bytes legacy)\<rparr>"

definition ascii :: "string \<Rightarrow> bytes" where "ascii s = map of_char s"

definition FabricRight :: right where
  "FabricRight = declare_right (ascii ''ARACH_CAP_FABRIC'') (ascii ''SISYPHUS_CAP_FABRIC'')"
definition ResonanceRight :: right where
  "ResonanceRight = declare_right (ascii ''ARACH_CAP_RESONANCE'') (ascii ''SISYPHUS_CAP_RESONANCE'')"
definition SchedulerRight :: right where
  "SchedulerRight = declare_right (ascii ''ARACH_CAP_SCHEDULER'') (ascii ''SISYPHUS_CAP_SCHEDULER'')"
definition LearningRight :: right where
  "LearningRight = declare_right (ascii ''ARACH_CAP_LEARNING'') (ascii ''SISYPHUS_CAP_LEARNING'')"
definition DmaRight :: right where
  "DmaRight = declare_right (ascii ''ARACH_CAP_DMA'') (ascii ''SISYPHUS_CAP_DMA'')"
definition DeviceMemoryRight :: right where
  "DeviceMemoryRight = declare_right (ascii ''ARACH_CAP_DEVICE_MEMORY'') (ascii ''SISYPHUS_CAP_DEVICE_MEMORY'')"

definition cap_recv :: "memory \<Rightarrow> EnvSnapshot \<Rightarrow> right \<Rightarrow> (CapabilityError, u64) result" where
  "cap_recv m env r =
    (let found = (case snapshot_get env (ENV_KEY r) of
           Some s \<Rightarrow> Some s
         | None \<Rightarrow> Option.bind (LEGACY_ENV_KEY r) (snapshot_get env))
     in and_then (ok_or Missing found) (\<lambda>s.
        and_then (parse_handle (slice_bytes m s)) (\<lambda>raw.
        if raw = 0 then Err NullHandle else Ok raw)))"

text \<open>The twelve keys of the declared rights have pairwise different hashes, so that no right can be
  received through the variable of another.\<close>

lemma declared_keys_distinct:
  "distinct (concat (map (\<lambda>r. [phase_hash (ENV_KEY r), phase_hash (the (LEGACY_ENV_KEY r))])
     [FabricRight, ResonanceRight, SchedulerRight, LearningRight, DmaRight, DeviceMemoryRight]))"
  by code_simp

section \<open>Numerals\<close>

text \<open>The mathematical reading of a digit string: underscores are skipped, digits accumulate.\<close>

definition digit_value :: "nat \<Rightarrow> u8 \<Rightarrow> nat option" where
  "digit_value radix b =
    (let n = unat b in
     if 48 \<le> n \<and> n \<le> 57 then Some (n - 48)
     else if radix = 16 \<and> 97 \<le> n \<and> n \<le> 102 then Some (n - 87)
     else if radix = 16 \<and> 65 \<le> n \<and> n \<le> 70 then Some (n - 55)
     else None)"

definition numeral_digits :: "bytes \<Rightarrow> bytes" where
  "numeral_digits ds = filter (\<lambda>b. b \<noteq> UNDERSCORE) ds"

definition numeral_from :: "nat \<Rightarrow> nat \<Rightarrow> bytes \<Rightarrow> nat" where
  "numeral_from radix v ds = foldl (\<lambda>v b. v * radix + the (digit_value radix b)) v ds"

lemma numeral_digits_simps [simp]:
  "numeral_digits [] = []"
  "numeral_digits (b # bs) = (if b = UNDERSCORE then numeral_digits bs else b # numeral_digits bs)"
  by (simp_all add: numeral_digits_def)

lemma numeral_from_Nil [simp]: "numeral_from radix v [] = v"
  by (simp add: numeral_from_def)

text \<open>A well-formed digit string: at least one digit, nothing else but underscores.\<close>

definition well_formed_digits :: "nat \<Rightarrow> bytes \<Rightarrow> bool" where
  "well_formed_digits radix ds \<longleftrightarrow>
     numeral_digits ds \<noteq> [] \<and> list_all (\<lambda>b. digit_value radix b \<noteq> None) (numeral_digits ds)"

lemma byte_sub_nat: "k \<le> unat b \<Longrightarrow> k < 256 \<Longrightarrow> unat (b - of_nat k :: u8) = unat b - k" for b :: u8
  by (simp add: unat_sub_if' unat_of_nat)

lemma handle_digit_value:
  assumes "radix = 10 \<or> radix = 16"
  shows "map_option unat (handle_digit radix b) = digit_value (unat radix) b"
proof -
  have d: "unat (ucast (b - 48) :: u64) = unat b - 48" if "48 \<le> unat b"
    using byte_sub_nat [of 48 b] that by (simp add: unat_u8_u64)
  have l: "unat (ucast (b - 97 + 10) :: u64) = unat b - 87" if "97 \<le> unat b" "unat b \<le> 102"
    using byte_sub_nat [of 87 b] that by (simp add: unat_u8_u64)
  have u: "unat (ucast (b - 65 + 10) :: u64) = unat b - 55" if "65 \<le> unat b" "unat b \<le> 70"
    using byte_sub_nat [of 55 b] that by (simp add: unat_u8_u64)
  from assms d l u show ?thesis
    by (auto simp: handle_digit_def digit_value_def Let_def word_le_nat_alt)
qed

lemma digit_value_less: "radix = 10 \<or> radix = 16 \<Longrightarrow> digit_value radix b = Some d \<Longrightarrow> d < radix"
  by (auto simp: digit_value_def Let_def split: if_splits)

lemma underscore_no_digit: "digit_value radix UNDERSCORE = None"
  by (simp add: digit_value_def Let_def)

lemma numeral_from_Cons:
  "numeral_from radix v (b # ds) = numeral_from radix (v * radix + the (digit_value radix b)) ds"
  by (simp add: numeral_from_def)

lemma numeral_from_ge: "0 < radix \<Longrightarrow> v \<le> numeral_from radix v ds"
proof (induction ds arbitrary: v)
  case (Cons b ds)
  have "v \<le> v * radix + the (digit_value radix b)" using Cons.prems by (cases radix) auto
  also have "\<dots> \<le> numeral_from radix (v * radix + the (digit_value radix b)) ds" using Cons by simp
  finally show ?case by (simp add: numeral_from_Cons)
qed (simp add: numeral_from_def)

lemma accumulate_step:
  fixes acc radix digit :: u64
  shows "Option.bind (checked_mul acc radix) (\<lambda>v. checked_add v digit) =
    (if unat acc * unat radix + unat digit < 2 ^ 64 then Some (acc * radix + digit) else None)"
proof (cases "unat acc * unat radix < 2 ^ 64")
  case True
  then have "unat (acc * radix) = unat acc * unat radix" by (simp add: unat_word_ariths)
  with True show ?thesis by (simp add: checked_mul_def checked_add_def)
qed (simp add: checked_mul_def)

lemma unat_accumulate:
  fixes acc radix digit :: u64
  assumes "unat acc * unat radix + unat digit < 2 ^ 64"
  shows "unat (acc * radix + digit) = unat acc * unat radix + unat digit"
  using assms by (simp add: unat_word_ariths)

text \<open>Intermediate overflow is never premature: the value only grows.\<close>

lemma handle_loop_digits:
  assumes radix: "radix = 10 \<or> radix = 16"
    and "list_all (\<lambda>b. digit_value (unat radix) b \<noteq> None) (numeral_digits ds)"
  shows "handle_loop radix ds acc consumed =
    (let n = numeral_from (unat radix) (unat acc) (numeral_digits ds) in
     if n < 2 ^ 64 then Ok (of_nat n, consumed + length (numeral_digits ds)) else Err CapOverflow)"
  using assms
proof (induction radix ds acc consumed rule: handle_loop.induct)
  case (1 radix acc consumed)
  have "unat acc < 2 ^ 64" using unsigned_less [of acc, where ?'a = nat] by simp
  then show ?case by (simp add: Let_def)
next
  case (2 radix b bs acc consumed)
  show ?case
  proof (cases "b = UNDERSCORE")
    case True
    with 2 show ?thesis by (simp add: Let_def)
  next
    case False
    then have nd: "numeral_digits (b # bs) = b # numeral_digits bs" by simp
    with 2(4) obtain d where d: "digit_value (unat radix) b = Some d" by auto
    with handle_digit_value [OF 2(3), of b] obtain w where w: "handle_digit radix b = Some w" "unat w = d" by auto
    have "unat radix = 10 \<or> unat radix = 16" using 2(3) by auto
    then have less: "\<not> radix \<le> w" and pos: "0 < unat radix"
      using digit_value_less [OF _ d] w(2) by (auto simp: word_le_nat_alt)
    let ?n = "unat acc * unat radix + d"
    show ?thesis
    proof (cases "?n < 2 ^ 64")
      case True
      then have "unat (acc * radix + w) = ?n" using unat_accumulate [of acc radix w] w(2) by simp
      with True False w less nd d 2 show ?thesis
        by (simp add: accumulate_step numeral_from_Cons Let_def)
    next
      case over: False
      then have "\<not> numeral_from (unat radix) ?n (numeral_digits bs) < 2 ^ 64"
        using numeral_from_ge [OF pos, of ?n "numeral_digits bs"] by linarith
      with over False w less nd d show ?thesis
        by (simp add: accumulate_step numeral_from_Cons)
    qed
  qed
qed

lemma handle_loop_Ok_digits:
  assumes "radix = 10 \<or> radix = 16" "handle_loop radix ds acc consumed = Ok r"
  shows "list_all (\<lambda>b. digit_value (unat radix) b \<noteq> None) (numeral_digits ds)"
  using assms
proof (induction radix ds acc consumed rule: handle_loop.induct)
  case (2 radix b bs acc consumed)
  show ?case
  proof (cases "b = UNDERSCORE")
    case True
    with 2 show ?thesis by simp
  next
    case False
    with 2(4) obtain w where "handle_digit radix b = Some w"
      by (auto split: option.splits)
    moreover from this have "digit_value (unat radix) b = Some (unat w)"
      using handle_digit_value [OF 2(3), of b] by simp
    ultimately show ?thesis using False 2 by (auto split: option.splits if_splits)
  qed
qed simp

lemma handle_loop_Err:
  "handle_loop radix ds acc consumed = Err e \<Longrightarrow> e \<in> {Malformed, CapOverflow}"
  by (induction radix ds acc consumed rule: handle_loop.induct) (auto split: if_splits option.splits)

text \<open>
  C23. Handle parsing is exact on numerals: with the radix chosen by the \<open>0x\<close> or \<open>0X\<close> prefix, a
  string of at least one digit with underscores anywhere is read as its mathematical value when
  that fits 64 bits and refused as overflow exactly when it does not; every other string is
  refused.
\<close>

theorem parse_handle_exact:
  "case handle_radix bs of (radix, ds) \<Rightarrow>
     if well_formed_digits (unat radix) ds
     then let n = numeral_from (unat radix) 0 (numeral_digits ds) in
          parse_handle bs = (if n < 2 ^ 64 then Ok (of_nat n) else Err CapOverflow)
     else parse_handle bs \<in> {Err Malformed, Err CapOverflow}"
proof -
  obtain radix ds where r: "handle_radix bs = (radix, ds)" by fastforce
  then have radix: "radix = 10 \<or> radix = 16" by (auto simp: handle_radix_def split: if_splits)
  show ?thesis
  proof (cases "list_all (\<lambda>b. digit_value (unat radix) b \<noteq> None) (numeral_digits ds)")
    case True
    note loop = handle_loop_digits [OF radix True, of 0 0]
    show ?thesis
    proof (cases "numeral_digits ds = []")
      case empty: True
      with loop r show ?thesis by (simp add: parse_handle_def well_formed_digits_def)
    next
      case False
      then have "ds \<noteq> []" by auto
      with loop r True False show ?thesis by (simp add: parse_handle_def well_formed_digits_def Let_def)
    qed
  next
    case False
    then have nok: "handle_loop radix ds 0 0 \<noteq> Ok x" for x using handle_loop_Ok_digits [OF radix] by blast
    obtain e where e: "handle_loop radix ds 0 0 = Err e" using nok by (cases "handle_loop radix ds 0 0") auto
    with handle_loop_Err [OF e] False r show ?thesis
      by (auto simp: parse_handle_def well_formed_digits_def)
  qed
qed

section \<open>Printing and reading back\<close>

text \<open>The usual rendering of a number, most significant digit first, letters in lower case.\<close>

definition digit_char :: "nat \<Rightarrow> u8" where
  "digit_char d = (if d < 10 then of_nat (48 + d) else of_nat (87 + d))"

fun render_digits :: "nat \<Rightarrow> nat \<Rightarrow> bytes" where
  "render_digits radix n =
    (if radix \<le> 1 then [] else if n < radix then [digit_char n]
     else render_digits radix (n div radix) @ [digit_char (n mod radix)])"

declare render_digits.simps [simp del]

lemma digit_char_value:
  assumes "radix = 10 \<or> radix = 16" "d < radix"
  shows "digit_value radix (digit_char d) = Some d" "digit_char d \<noteq> UNDERSCORE" "digit_char d \<noteq> 120" "digit_char d \<noteq> 88"
proof -
  have u: "unat (digit_char d) = (if d < 10 then 48 + d else 87 + d)"
    using assms by (auto simp: digit_char_def unat_of_nat unat_word_ariths)
  with assms show "digit_value radix (digit_char d) = Some d"
    by (auto simp: digit_value_def Let_def)
  from u assms show "digit_char d \<noteq> UNDERSCORE" "digit_char d \<noteq> 120" "digit_char d \<noteq> 88"
    by (auto simp: word_unat_eq_iff [where 'a = 8] split: if_splits)
qed

lemma render_digits_props:
  assumes radix: "radix = 10 \<or> radix = 16"
  shows "numeral_from radix 0 (render_digits radix n) = n \<and> render_digits radix n \<noteq> []
    \<and> list_all (\<lambda>b. digit_value radix b \<noteq> None \<and> b \<noteq> UNDERSCORE \<and> b \<noteq> 120 \<and> b \<noteq> 88) (render_digits radix n)"
  using radix
proof (induction radix n rule: render_digits.induct)
  case (1 radix n)
  have "\<not> radix \<le> 1" using "1.prems" by auto
  show ?case
  proof (cases "n < radix")
    case True
    then have "render_digits radix n = [digit_char n]"
      using \<open>\<not> radix \<le> 1\<close> by (subst render_digits.simps) simp
    with True digit_char_value [OF "1.prems"] show ?thesis by (simp add: numeral_from_Cons)
  next
    case False
    with 1 \<open>\<not> radix \<le> 1\<close> have IH: "numeral_from radix 0 (render_digits radix (n div radix)) = n div radix"
      "list_all (\<lambda>b. digit_value radix b \<noteq> None \<and> b \<noteq> UNDERSCORE \<and> b \<noteq> 120 \<and> b \<noteq> 88)
         (render_digits radix (n div radix))" by auto
    have eq: "render_digits radix n = render_digits radix (n div radix) @ [digit_char (n mod radix)]"
      using False \<open>\<not> radix \<le> 1\<close> by (subst render_digits.simps) simp
    have m: "n mod radix < radix" using "1.prems" by auto
    from IH digit_char_value [OF "1.prems" m] show ?thesis
      unfolding eq by (simp add: numeral_from_def)
  qed
qed

lemma numeral_digits_plain: "list_all (\<lambda>b. b \<noteq> UNDERSCORE) ds \<Longrightarrow> numeral_digits ds = ds"
  by (induction ds) auto

lemma parse_rendered:
  assumes radix: "r = 10 \<or> r = 16" and hr: "handle_radix bs = (of_nat r, render_digits r n)" and n: "n < 2 ^ 64"
  shows "parse_handle bs = Ok (of_nat n)"
proof -
  note p = render_digits_props [OF radix, of n]
  have nd: "numeral_digits (render_digits r n) = render_digits r n"
    using p by (intro numeral_digits_plain) (auto simp: list_all_iff)
  have w: "of_nat r = (10 :: u64) \<or> of_nat r = (16 :: u64)" and ur: "unat (of_nat r :: u64) = r"
    using radix by auto
  have "list_all (\<lambda>b. digit_value (unat (of_nat r :: u64)) b \<noteq> None) (numeral_digits (render_digits r n))"
    unfolding nd ur using p by (auto simp: list_all_iff)
  from handle_loop_digits [OF w this, of 0 0]
  have "handle_loop (of_nat r) (render_digits r n) 0 0 = Ok (of_nat n, length (render_digits r n))"
    unfolding nd ur Let_def using p n by (simp only: unat_0 if_True add_0)
  then show ?thesis using hr p by (simp add: parse_handle_def)
qed

lemma decimal_radix: "handle_radix (render_digits 10 n) = (10, render_digits 10 n)"
proof -
  have "take 2 (render_digits 10 n) \<noteq> [48, x]" if "x = 120 \<or> x = 88" for x
  proof
    assume "take 2 (render_digits 10 n) = [48, x]"
    then have "x \<in> set (render_digits 10 n)" by (metis in_set_takeD list.set_intros(1,2))
    with render_digits_props [of 10 n] that show False by (auto simp: list_all_iff)
  qed
  then show ?thesis by (auto simp: handle_radix_def)
qed

section \<open>From the process block to the handle\<close>

text \<open>What the environment binds a right to: its own key first, then the legacy one.\<close>

definition right_binding :: "(bytes \<times> bytes) list \<Rightarrow> right \<Rightarrow> bytes option" where
  "right_binding kvs r = (case env_lookup kvs (ENV_KEY r) of
     Some v \<Rightarrow> Some v | None \<Rightarrow> Option.bind (LEGACY_ENV_KEY r) (env_lookup kvs))"

lemma cap_recv_lookup:
  assumes "snapshot_ok m snap kvs"
  shows "cap_recv m snap r =
    and_then (ok_or Missing (map_option (take 65535) (right_binding (take MAX_ENV_VARS kvs) r))) (\<lambda>bs.
      and_then (parse_handle bs) (\<lambda>raw. if raw = 0 then Err NullHandle else Ok raw))"
proof -
  let ?found = "case snapshot_get snap (ENV_KEY r) of Some s \<Rightarrow> Some s
    | None \<Rightarrow> Option.bind (LEGACY_ENV_KEY r) (snapshot_get snap)"
  have g: "map_option (slice_bytes m) (snapshot_get snap k) =
      map_option (take 65535) (env_lookup (take MAX_ENV_VARS kvs) k)" for k
    by (rule snapshot_get_ok [OF assms])
  have "map_option (slice_bytes m) ?found = map_option (take 65535) (right_binding (take MAX_ENV_VARS kvs) r)"
  proof (cases "snapshot_get snap (ENV_KEY r)")
    case None
    with g [of "ENV_KEY r"] have "env_lookup (take MAX_ENV_VARS kvs) (ENV_KEY r) = None" by simp
    with None show ?thesis using g by (cases "LEGACY_ENV_KEY r") (simp_all add: right_binding_def)
  next
    case (Some sl)
    with g [of "ENV_KEY r"] obtain v where "env_lookup (take MAX_ENV_VARS kvs) (ENV_KEY r) = Some v"
      "slice_bytes m sl = take 65535 v"
      by (cases "env_lookup (take MAX_ENV_VARS kvs) (ENV_KEY r)") auto
    with Some show ?thesis by (simp add: right_binding_def)
  qed
  moreover have "cap_recv m snap r = and_then (ok_or Missing (map_option (slice_bytes m) ?found)) (\<lambda>bs.
      and_then (parse_handle bs) (\<lambda>raw. if raw = 0 then Err NullHandle else Ok raw))"
    by (cases ?found) (simp_all add: cap_recv_def Let_def)
  ultimately show ?thesis by simp
qed

definition printed_handle :: "u64 \<Rightarrow> bytes \<Rightarrow> bool" where
  "printed_handle h v \<longleftrightarrow> v = render_digits 10 (unat h) \<or> v = [48, 120] @ render_digits 16 (unat h)"

lemma length_render:
  "1 < radix \<Longrightarrow> n < radix ^ Suc k \<Longrightarrow> length (render_digits radix n) \<le> Suc k"
proof (induction k arbitrary: n)
  case 0
  then show ?case by (subst render_digits.simps) simp
next
  case (Suc k)
  then have "n div radix < radix ^ Suc k" by (simp add: less_mult_imp_div_less mult.commute)
  with Suc show ?case by (subst render_digits.simps) simp
qed

lemma printed_handle_parse:
  assumes "printed_handle h v"
  shows "parse_handle v = Ok h" "length v \<le> 20"
proof -
  have h: "unat h < 2 ^ 64" using unsigned_less [of h, where ?'a = nat] by simp
  have "handle_radix ([48, 120] @ render_digits 16 (unat h)) = (of_nat 16, render_digits 16 (unat h))"
    by (simp add: handle_radix_def)
  from parse_rendered [OF _ this h] parse_rendered [of 10, OF _ _ h] assms decimal_radix
  show "parse_handle v = Ok h" by (auto simp: printed_handle_def)
  have "(2 :: nat) ^ 64 \<le> 10 ^ Suc 19" "(2 :: nat) ^ 64 \<le> 16 ^ Suc 15" by simp_all
  then have "unat h < 10 ^ Suc 19" "unat h < 16 ^ Suc 15" using h by (meson less_le_trans)+
  then show "length v \<le> 20"
    using assms length_render [of 10 "unat h" 19] length_render [of 16 "unat h" 15]
    by (auto simp: printed_handle_def)
qed

text \<open>
  Printed handles are received: with the documented process block, when the environment binds a
  right's own key, or else its legacy key, to the decimal or the \<open>0x\<close> hexadecimal rendering of a
  64-bit number, receiving that right returns exactly this number, or refuses it as null when it is
  zero; an unbound right is reported missing.
\<close>

theorem capability_received:
  assumes "stack_image m sp args envs" and "length args \<le> MAX_ARGV"
  shows "\<exists>snap. env_collapse m (envp_base (from_stack m sp)) = Some snap
    \<and> (case right_binding (take MAX_ENV_VARS (key_values envs)) r of
         None \<Rightarrow> cap_recv m snap r = Err Missing
       | Some v \<Rightarrow> (\<forall>h. printed_handle h v \<longrightarrow> cap_recv m snap r = (if h = 0 then Err NullHandle else Ok h)))"
proof -
  have "strings_at m (envp_base (from_stack m sp)) envs"
    using assms from_stack_argc [OF assms] by (simp add: stack_image_def)
  from env_collapse_ok [OF this] obtain snap where
    snap: "env_collapse m (envp_base (from_stack m sp)) = Some snap" "snapshot_ok m snap (key_values envs)" by blast
  note recv = cap_recv_lookup [OF snap(2), of r]
  have "cap_recv m snap r = (if h = 0 then Err NullHandle else Ok h)"
    if "right_binding (take MAX_ENV_VARS (key_values envs)) r = Some v" "printed_handle h v" for v h
    using recv that(1) printed_handle_parse [OF that(2)] by simp
  with snap(1) recv show ?thesis by (auto split: option.splits)
qed

definition example_right :: right where "example_right = declare_right [88] [75]"

text \<open>As the example block of the environment, with the value \<open>7\<close> for the key \<open>K\<close>.\<close>

definition handle_memory :: memory where
  "handle_memory a = (if a = 44 then 55 else example_memory a)"

theorem capability_received_witness:
  "\<exists>snap. env_collapse handle_memory (envp_base (from_stack handle_memory 0)) = Some snap
     \<and> cap_recv handle_memory snap example_right = Ok 7"
proof -
  have s: "stack_image handle_memory 0 [[97]] [[75, 61, 55]]" by code_simp
  have b: "right_binding (take MAX_ENV_VARS (key_values [[75, 61, 55]])) example_right = Some [55]" by code_simp
  have p: "printed_handle 7 [55]"
    by (simp add: printed_handle_def render_digits.simps digit_char_def)
  from capability_received [OF s, of example_right] b p show ?thesis
    by (auto simp: MAX_ARGV_def)
qed

end
