(* ===== verification/Executor.thy ===== *)
theory Executor
  imports Slope_Prelude
begin

text \<open>
  The cooperative executor, \<open>executor.rs\<close>.  A type-erased future is its current state together with
  its poll function, which returns the next state, whether it is ready, and the wakes it issued
  while it was polled (the bits it or'ed into the ready mask through wakers).  Other threads may
  wake tasks while the executor yields between two passes.
\<close>

section \<open>Slots\<close>

definition MAX_TASKS :: nat where "MAX_TASKS = 64"

definition SLOT_FREE :: u8 where "SLOT_FREE = 0"
definition SLOT_PARKED :: u8 where "SLOT_PARKED = 1"
definition SLOT_READY :: u8 where "SLOT_READY = 2"
definition SLOT_RUNNING :: u8 where "SLOT_RUNNING = 3"
definition SLOT_DONE :: u8 where "SLOT_DONE = 4"

lemmas slot_states = SLOT_FREE_def SLOT_PARKED_def SLOT_READY_def SLOT_RUNNING_def SLOT_DONE_def

datatype ExecutorError = ArenaFull

text \<open>\<open>waker_wake\<close> and \<open>waker_wake_by_ref\<close>: \<open>ready_mask.fetch_or(1 << slot)\<close>.\<close>

definition waker_wake :: "nat \<Rightarrow> u64 \<Rightarrow> u64" where
  "waker_wake slot ready_mask = ready_mask OR push_bit slot 1"

type_synonym 'd poll_fn = "nat \<Rightarrow> 'd \<Rightarrow> 'd \<times> bool \<times> u64"

record 'd TaskSlot =
  ts_data :: 'd
  ts_poll_fn :: "'d poll_fn"
  ts_state :: u8

text \<open>\<open>null\<close> stands for the null data pointer.\<close>

definition slot_empty :: "'d \<Rightarrow> 'd TaskSlot" where
  "slot_empty null = \<lparr>ts_data = null, ts_poll_fn = (\<lambda>_ d. (d, True, 0)), ts_state = SLOT_FREE\<rparr>"

section \<open>Executor\<close>

record 'd OuroborosExecutor =
  ex_slots :: "'d TaskSlot list"
  ex_ready_mask :: u64
  ex_count :: nat

definition executor_new :: "'d \<Rightarrow> 'd OuroborosExecutor" where
  "executor_new null = \<lparr>ex_slots = replicate MAX_TASKS (slot_empty null), ex_ready_mask = 0, ex_count = 0\<rparr>"

definition find_free_slot :: "'d OuroborosExecutor \<Rightarrow> nat option" where
  "find_free_slot e = position (\<lambda>s. ts_state s = SLOT_FREE \<or> ts_state s = SLOT_DONE) (ex_slots e)"

definition spawn_raw ::
  "'d OuroborosExecutor \<Rightarrow> 'd \<Rightarrow> 'd poll_fn \<Rightarrow> 'd OuroborosExecutor \<times> (ExecutorError, nat) result" where
  "spawn_raw e storage poll_fn =
    (case find_free_slot e of
       None \<Rightarrow> (e, Err ArenaFull)
     | Some slot \<Rightarrow>
         (e\<lparr>ex_slots := (ex_slots e)[slot := \<lparr>ts_data = storage, ts_poll_fn = poll_fn, ts_state = SLOT_READY\<rparr>],
            ex_ready_mask := waker_wake slot (ex_ready_mask e),
            ex_count := ex_count e + 1\<rparr>, Ok slot))"

text \<open>The \<open>Spawner\<close> implementation: the slot as a \<open>TaskId\<close>.\<close>

datatype TaskId = TaskId u16

definition executor_spawn ::
  "'d OuroborosExecutor \<Rightarrow> 'd \<Rightarrow> 'd poll_fn \<Rightarrow> 'd OuroborosExecutor \<times> (ExecutorError, TaskId) result" where
  "executor_spawn e storage poll_fn =
    (case spawn_raw e storage poll_fn of
       (e', Inl err) \<Rightarrow> (e', Err err)
     | (e', Inr slot) \<Rightarrow> (e', Ok (TaskId (of_nat slot))))"

text \<open>The body of the pass: one slot of the mask.\<close>

definition poll_slot :: "nat \<Rightarrow> 'd OuroborosExecutor \<Rightarrow> 'd OuroborosExecutor" where
  "poll_slot bt e =
    (let slot = ex_slots e ! bt in
     if ts_state slot \<noteq> SLOT_READY \<and> ts_state slot \<noteq> SLOT_PARKED then e
     else case ts_poll_fn slot bt (ts_data slot) of (d, finished, wakes) \<Rightarrow>
       e\<lparr>ex_slots := (ex_slots e)[bt := slot\<lparr>ts_data := d, ts_state := (if finished then SLOT_DONE else SLOT_PARKED)\<rparr>],
         ex_ready_mask := ex_ready_mask e OR wakes,
         ex_count := (if finished then ex_count e - 1 else ex_count e)\<rparr>)"

lemma clear_lowest_less:
  fixes w :: u64
  assumes "w \<noteq> 0"
  shows "unat (w AND NOT (push_bit (trailing_zeros w) 1)) < unat w"
proof -
  let ?b = "trailing_zeros w"
  have b: "bit w ?b" by (rule trailing_zeros_nonzero(2) [OF assms])
  have "w AND NOT (push_bit ?b 1) \<noteq> w"
  proof
    assume "w AND NOT (push_bit ?b 1) = w"
    then have "bit (w AND NOT (push_bit ?b 1)) ?b" using b by simp
    with trailing_zeros_nonzero(1) [OF assms] show False by (simp add: clear_bit)
  qed
  moreover have "w AND NOT (push_bit ?b 1) \<le> w" by (rule word_and_le2)
  ultimately have "w AND NOT (push_bit ?b 1) < w" by (simp add: order_less_le)
  then show ?thesis by (simp only: word_less_nat_alt)
qed

function run_mask :: "u64 \<Rightarrow> 'd OuroborosExecutor \<Rightarrow> 'd OuroborosExecutor" where
  "run_mask pending e =
    (if pending = 0 then e
     else let bt = trailing_zeros pending in
       run_mask (pending AND NOT (push_bit bt 1)) (poll_slot bt e))"
  by pat_completeness auto
termination
  by (relation "measure (\<lambda>(pending, e). unat pending)") (simp_all only: wf_measure in_measure prod.case clear_lowest_less not_False_eq_True)

declare run_mask.simps [simp del]

definition run_until_stall :: "'d OuroborosExecutor \<Rightarrow> 'd OuroborosExecutor \<times> nat" where
  "run_until_stall e =
    (let pending = ex_ready_mask e;
         e1 = run_mask pending (e\<lparr>ex_ready_mask := 0\<rparr>)
     in (e1, ex_count e1))"

text \<open>\<open>run_forever\<close>: \<open>external n\<close> is what other threads wake during the \<open>n\<close>-th yield.\<close>

partial_function (option) run_forever ::
  "(nat \<Rightarrow> u64) \<Rightarrow> nat \<Rightarrow> 'd OuroborosExecutor \<Rightarrow> 'd OuroborosExecutor option" where
  "run_forever external n e =
    (if snd (run_until_stall e) = 0 then Some (fst (run_until_stall e))
     else run_forever external (n + 1)
       ((fst (run_until_stall e))\<lparr>ex_ready_mask := ex_ready_mask (fst (run_until_stall e)) OR external n\<rparr>))"

definition task_count :: "'d OuroborosExecutor \<Rightarrow> nat" where "task_count e = ex_count e"

section \<open>One pass\<close>

definition live :: "'d TaskSlot \<Rightarrow> bool" where
  "live s \<longleftrightarrow> ts_state s = SLOT_READY \<or> ts_state s = SLOT_PARKED"

text \<open>What polling slot \<open>i\<close> once does to it, what it wakes, and whether it completes.\<close>

definition polled :: "nat \<Rightarrow> 'd TaskSlot \<Rightarrow> 'd TaskSlot" where
  "polled i s = (case ts_poll_fn s i (ts_data s) of (d, finished, _) \<Rightarrow>
     s\<lparr>ts_data := d, ts_state := (if finished then SLOT_DONE else SLOT_PARKED)\<rparr>)"

definition woken_by :: "nat \<Rightarrow> 'd TaskSlot \<Rightarrow> u64" where
  "woken_by i s = (case ts_poll_fn s i (ts_data s) of (_, _, wakes) \<Rightarrow> wakes)"

definition finishes :: "nat \<Rightarrow> 'd TaskSlot \<Rightarrow> bool" where
  "finishes i s = (case ts_poll_fn s i (ts_data s) of (_, finished, _) \<Rightarrow> finished)"

text \<open>The slots a pass over \<open>pending\<close> polls.\<close>

definition runnable :: "u64 \<Rightarrow> 'd TaskSlot list \<Rightarrow> nat set" where
  "runnable pending slots = {i. i < length slots \<and> bit pending i \<and> live (slots ! i)}"

lemma poll_slot_live:
  assumes "live (ex_slots e ! i)"
  shows "poll_slot i e = e\<lparr>ex_slots := (ex_slots e)[i := polled i (ex_slots e ! i)],
     ex_ready_mask := ex_ready_mask e OR woken_by i (ex_slots e ! i),
     ex_count := ex_count e - (if finishes i (ex_slots e ! i) then 1 else 0)\<rparr>"
  using assms
  by (auto simp: poll_slot_def live_def polled_def woken_by_def finishes_def Let_def split: prod.splits)

lemma poll_slot_idle: "\<not> live (ex_slots e ! i) \<Longrightarrow> poll_slot i e = e"
  by (simp add: poll_slot_def live_def)

lemma poll_slot_other: "j \<noteq> i \<Longrightarrow> ex_slots (poll_slot i e) ! j = ex_slots e ! j"
  by (cases "live (ex_slots e ! i)") (simp_all add: poll_slot_live poll_slot_idle)

lemma poll_slot_length [simp]: "length (ex_slots (poll_slot i e)) = length (ex_slots e)"
  by (cases "live (ex_slots e ! i)") (simp_all add: poll_slot_live poll_slot_idle)

lemma run_mask_zero [simp]: "run_mask 0 e = e"
  by (simp add: run_mask.simps)

lemma run_mask_step:
  "w \<noteq> 0 \<Longrightarrow> run_mask w e = run_mask (w AND NOT (2 ^ trailing_zeros w)) (poll_slot (trailing_zeros w) e)"
  by (subst run_mask.simps) (simp add: Let_def)

lemma runnable_step:
  fixes w :: u64
  assumes "w \<noteq> 0" "length (ex_slots e) = 64"
  shows "runnable (w AND NOT (2 ^ trailing_zeros w)) (ex_slots (poll_slot (trailing_zeros w) e))
    = runnable w (ex_slots e) - {trailing_zeros w}"
    and "trailing_zeros w \<in> runnable w (ex_slots e) \<longleftrightarrow> live (ex_slots e ! trailing_zeros w)"
  using assms trailing_zeros_nonzero [OF assms(1)]
  by (auto simp: runnable_def clear_bit poll_slot_other)

lemma run_mask_slots:
  assumes "length (ex_slots e) = 64"
  shows "length (ex_slots (run_mask w e)) = 64"
    and "i < 64 \<Longrightarrow> ex_slots (run_mask w e) ! i =
      (if i \<in> runnable w (ex_slots e) then polled i (ex_slots e ! i) else ex_slots e ! i)"
  using assms
proof (induction w e rule: run_mask.induct)
  case (1 w e)
  {
    case 1
    then show ?case using "1.IH"(1) by (cases "w = 0") (simp_all add: run_mask_step)
  next
    case 2
    show ?case
    proof (cases "w = 0")
      case True
      then show ?thesis by (simp add: runnable_def)
    next
      case False
      let ?b = "trailing_zeros w"
      have IH: "ex_slots (run_mask w e) ! i =
        (if i \<in> runnable w (ex_slots e) - {?b} then polled i (ex_slots (poll_slot ?b e) ! i)
         else ex_slots (poll_slot ?b e) ! i)"
        using "1.IH"(2) [OF False refl] 2 False runnable_step(1) [OF False 2(2)] by (simp add: run_mask_step)
      show ?thesis
      proof (cases "i = ?b")
        case True
        then show ?thesis unfolding IH using runnable_step(2) [OF False 2(2)] 2
          by (cases "live (ex_slots e ! ?b)") (simp_all add: poll_slot_live poll_slot_idle)
      next
        case False
        then show ?thesis unfolding IH by (simp add: poll_slot_other)
      qed
    qed
  }
qed

lemma run_mask_ready:
  assumes "length (ex_slots e) = 64"
  shows "bit (ex_ready_mask (run_mask w e)) n \<longleftrightarrow>
    bit (ex_ready_mask e) n \<or> (\<exists>i \<in> runnable w (ex_slots e). bit (woken_by i (ex_slots e ! i)) n)"
  using assms
proof (induction w e rule: run_mask.induct)
  case (1 w e)
  show ?case
  proof (cases "w = 0")
    case True
    then show ?thesis by (simp add: runnable_def)
  next
    case False
    let ?b = "trailing_zeros w"
    note st = runnable_step [OF False 1(2)]
    have IH: "bit (ex_ready_mask (run_mask w e)) n \<longleftrightarrow> bit (ex_ready_mask (poll_slot ?b e)) n
       \<or> (\<exists>i \<in> runnable w (ex_slots e) - {?b}. bit (woken_by i (ex_slots e ! i)) n)"
      using "1.IH" [OF False refl] 1(2) False st(1) by (auto simp: run_mask_step poll_slot_other)
    show ?thesis unfolding IH using st(2)
      by (cases "live (ex_slots e ! ?b)") (auto simp: poll_slot_live poll_slot_idle bit_or_iff)
  qed
qed

lemma run_mask_count:
  assumes "length (ex_slots e) = 64"
  shows "ex_count (run_mask w e) = ex_count e - card {i \<in> runnable w (ex_slots e). finishes i (ex_slots e ! i)}"
  using assms
proof (induction w e rule: run_mask.induct)
  case (1 w e)
  show ?case
  proof (cases "w = 0")
    case True
    then show ?thesis by (simp add: runnable_def)
  next
    case False
    let ?b = "trailing_zeros w" and ?F = "{i \<in> runnable w (ex_slots e). finishes i (ex_slots e ! i)}"
    note st = runnable_step [OF False 1(2)]
    have "{i \<in> runnable w (ex_slots e) - {?b}. finishes i (ex_slots (poll_slot ?b e) ! i)} = ?F - {?b}"
      by (auto simp: poll_slot_other)
    then have IH: "ex_count (run_mask w e) = ex_count (poll_slot ?b e) - card (?F - {?b})"
      using "1.IH" [OF False refl] 1(2) False st(1) by (simp add: run_mask_step)
    have fin: "finite ?F" by (rule finite_subset [of _ "{..<length (ex_slots e)}"]) (auto simp: runnable_def)
    show ?thesis
    proof (cases "?b \<in> ?F")
      case True
      then have "card ?F = Suc (card (?F - {?b}))" using fin by (metis card.remove)
      with IH True st(2) show ?thesis by (simp add: poll_slot_live)
    next
      case False
      with IH st(2) show ?thesis
        by (cases "live (ex_slots e ! ?b)") (auto simp: poll_slot_live poll_slot_idle)
    qed
  qed
qed

section \<open>Invariant\<close>

definition live_slots :: "'d OuroborosExecutor \<Rightarrow> nat set" where
  "live_slots e = {i. i < MAX_TASKS \<and> live (ex_slots e ! i)}"

definition executor_inv :: "'d OuroborosExecutor \<Rightarrow> bool" where
  "executor_inv e \<longleftrightarrow>
     length (ex_slots e) = MAX_TASKS \<and> ex_count e = card (live_slots e)
   \<and> (\<forall>i < MAX_TASKS. ts_state (ex_slots e ! i) \<in> {SLOT_FREE, SLOT_PARKED, SLOT_READY, SLOT_DONE})
   \<and> (\<forall>i < MAX_TASKS. ts_state (ex_slots e ! i) = SLOT_READY \<longrightarrow> bit (ex_ready_mask e) i)"

inductive executor_reach :: "'d \<Rightarrow> 'd OuroborosExecutor \<Rightarrow> bool" for null where
  start: "executor_reach null (executor_new null)"
| spawn: "executor_reach null e \<Longrightarrow> executor_reach null (fst (spawn_raw e d f))"
| pass: "executor_reach null e \<Longrightarrow> executor_reach null (fst (run_until_stall e))"
| wake: "executor_reach null e \<Longrightarrow> executor_reach null (e\<lparr>ex_ready_mask := ex_ready_mask e OR wakes\<rparr>)"

lemma finite_live_slots [simp]: "finite (live_slots e)"
  by (simp add: live_slots_def)

lemma inv_new: "executor_inv (executor_new null)"
  by (auto simp: executor_inv_def executor_new_def live_slots_def slot_empty_def live_def slot_states)

lemma inv_wake: "executor_inv e \<Longrightarrow> executor_inv (e\<lparr>ex_ready_mask := ex_ready_mask e OR wakes\<rparr>)"
  by (auto simp: executor_inv_def live_slots_def bit_or_iff)

lemma spawn_raw_Ok:
  assumes "executor_inv e" "find_free_slot e = Some i"
  shows "i < MAX_TASKS" "\<not> live (ex_slots e ! i)"
  using assms by (auto simp: executor_inv_def find_free_slot_def position_Some_iff live_def slot_states)

lemma position_None_iff: "position P xs = None \<longleftrightarrow> (\<forall>i < length xs. \<not> P (xs ! i))"
  by (induction xs) (auto simp: All_less_Suc2)

lemma find_free_slot_None:
  assumes "executor_inv e"
  shows "find_free_slot e = None \<longleftrightarrow> live_slots e = {..<MAX_TASKS}"
proof -
  have "live s \<longleftrightarrow> ts_state s \<noteq> SLOT_FREE \<and> ts_state s \<noteq> SLOT_DONE"
    if "ts_state s \<in> {SLOT_FREE, SLOT_PARKED, SLOT_READY, SLOT_DONE}" for s
    using that by (auto simp: live_def slot_states)
  with assms show ?thesis
    by (auto simp: find_free_slot_def position_None_iff executor_inv_def live_slots_def)
qed

lemma inv_spawn:
  assumes "executor_inv e"
  shows "executor_inv (fst (spawn_raw e d f))"
proof (cases "find_free_slot e")
  case None
  with assms show ?thesis by (simp add: spawn_raw_def)
next
  case (Some i)
  note i = spawn_raw_Ok [OF assms Some]
  let ?e = "fst (spawn_raw e d f)"
  have sl: "ex_slots ?e = (ex_slots e)[i := \<lparr>ts_data = d, ts_poll_fn = f, ts_state = SLOT_READY\<rparr>]"
    "ex_ready_mask ?e = waker_wake i (ex_ready_mask e)" "ex_count ?e = ex_count e + 1"
    using Some by (simp_all add: spawn_raw_def)
  have len: "length (ex_slots e) = MAX_TASKS" using assms by (simp add: executor_inv_def)
  have "live_slots ?e = insert i (live_slots e)"
    using i len by (auto simp: live_slots_def sl nth_list_update live_def)
  moreover have "i \<notin> live_slots e" using i by (simp add: live_slots_def)
  ultimately have "card (live_slots ?e) = card (live_slots e) + 1" by simp
  with assms i len show ?thesis
    by (auto simp: executor_inv_def sl nth_list_update waker_wake_def bit_or_iff bit_exp_iff MAX_TASKS_def)
qed

lemma pass_slots:
  assumes "executor_inv e"
  shows "length (ex_slots (fst (run_until_stall e))) = MAX_TASKS"
    and "i < MAX_TASKS \<Longrightarrow> ex_slots (fst (run_until_stall e)) ! i =
      (if i \<in> runnable (ex_ready_mask e) (ex_slots e) then polled i (ex_slots e ! i) else ex_slots e ! i)"
    and "bit (ex_ready_mask (fst (run_until_stall e))) n \<longleftrightarrow>
      (\<exists>i \<in> runnable (ex_ready_mask e) (ex_slots e). bit (woken_by i (ex_slots e ! i)) n)"
    and "ex_count (fst (run_until_stall e)) =
      ex_count e - card {i \<in> runnable (ex_ready_mask e) (ex_slots e). finishes i (ex_slots e ! i)}"
  using assms run_mask_slots [where e = "e\<lparr>ex_ready_mask := 0\<rparr>" and w = "ex_ready_mask e"]
    run_mask_ready [where e = "e\<lparr>ex_ready_mask := 0\<rparr>" and w = "ex_ready_mask e"]
    run_mask_count [where e = "e\<lparr>ex_ready_mask := 0\<rparr>" and w = "ex_ready_mask e"]
  by (simp_all add: run_until_stall_def Let_def executor_inv_def MAX_TASKS_def)

lemma polled_live: "live (polled i s) \<longleftrightarrow> \<not> finishes i s" "ts_state (polled i s) \<in> {SLOT_PARKED, SLOT_DONE}"
  by (auto simp: polled_def finishes_def live_def slot_states split: prod.splits)

lemma pass_live:
  assumes "executor_inv e"
  shows "live_slots (fst (run_until_stall e)) =
    live_slots e - {i \<in> runnable (ex_ready_mask e) (ex_slots e). finishes i (ex_slots e ! i)}"
  using assms
  by (auto simp: live_slots_def pass_slots polled_live runnable_def executor_inv_def split: if_splits)

lemma inv_pass:
  assumes "executor_inv e"
  shows "executor_inv (fst (run_until_stall e))"
proof -
  let ?R = "runnable (ex_ready_mask e) (ex_slots e)"
  let ?F = "{i \<in> ?R. finishes i (ex_slots e ! i)}"
  have "?F \<subseteq> live_slots e" using assms by (auto simp: runnable_def live_slots_def executor_inv_def)
  then have "card (live_slots e - ?F) = card (live_slots e) - card ?F"
    by (intro card_Diff_subset finite_subset [OF _ finite_live_slots])
  then have count: "ex_count (fst (run_until_stall e)) = card (live_slots (fst (run_until_stall e)))"
    using assms by (simp add: pass_slots pass_live executor_inv_def)
  have "ts_state (ex_slots (fst (run_until_stall e)) ! i) \<in> {SLOT_FREE, SLOT_PARKED, SLOT_DONE}"
    if "i < MAX_TASKS" for i
  proof (cases "i \<in> ?R")
    case True
    then show ?thesis using assms that polled_live(2) [of i "ex_slots e ! i"] by (auto simp: pass_slots)
  next
    case False
    with assms that have "ts_state (ex_slots e ! i) \<noteq> SLOT_READY"
      by (auto simp: runnable_def executor_inv_def live_def)
    with assms that False show ?thesis by (auto simp: pass_slots executor_inv_def)
  qed
  with count assms show ?thesis by (fastforce simp: executor_inv_def pass_slots slot_states)
qed

lemma executor_reach_inv: "executor_reach null e \<Longrightarrow> executor_inv e"
  by (induction rule: executor_reach.induct) (simp_all add: inv_new inv_spawn inv_pass inv_wake)

text \<open>
  C17. One pass of the executor is exact in every reachable state: it polls each task that is live
  and has its ready bit set exactly once, in particular every task that was spawned and never
  polled; it leaves every other slot alone; the ready mask afterwards holds exactly the wakes issued
  during the pass, so none is lost; and the number returned is the number of tasks still alive.
  Spawning is refused exactly when 64 tasks are alive, and otherwise never overwrites a live one.
\<close>

theorem executor_pass_exact:
  assumes "executor_reach null e"
  shows "(\<forall>i < MAX_TASKS. ex_slots (fst (run_until_stall e)) ! i =
            (if i \<in> runnable (ex_ready_mask e) (ex_slots e) then polled i (ex_slots e ! i) else ex_slots e ! i))
    \<and> (\<forall>i < MAX_TASKS. ts_state (ex_slots e ! i) = SLOT_READY \<longrightarrow> i \<in> runnable (ex_ready_mask e) (ex_slots e))
    \<and> (\<forall>n. bit (ex_ready_mask (fst (run_until_stall e))) n \<longleftrightarrow>
            (\<exists>i \<in> runnable (ex_ready_mask e) (ex_slots e). bit (woken_by i (ex_slots e ! i)) n))
    \<and> snd (run_until_stall e) = card (live_slots (fst (run_until_stall e)))
    \<and> (snd (spawn_raw e d f) = Err ArenaFull \<longleftrightarrow> card (live_slots e) = MAX_TASKS)
    \<and> (\<forall>i. snd (spawn_raw e d f) = Ok i \<longrightarrow> i < MAX_TASKS \<and> i \<notin> live_slots e)"
proof -
  note inv = executor_reach_inv [OF assms]
  have sub: "live_slots e \<subseteq> {..<MAX_TASKS}" by (auto simp: live_slots_def)
  have "card (live_slots e) = MAX_TASKS \<longleftrightarrow> live_slots e = {..<MAX_TASKS}"
    using card_subset_eq [OF finite_lessThan sub] by (metis card_lessThan)
  then have full: "snd (spawn_raw e d f) = Err ArenaFull \<longleftrightarrow> card (live_slots e) = MAX_TASKS"
    using find_free_slot_None [OF inv] by (cases "find_free_slot e") (simp_all add: spawn_raw_def)
  have fresh: "i < MAX_TASKS \<and> i \<notin> live_slots e" if "snd (spawn_raw e d f) = Ok i" for i
    using that spawn_raw_Ok [OF inv, of i] by (cases "find_free_slot e") (simp_all add: spawn_raw_def live_slots_def)
  have ready: "i \<in> runnable (ex_ready_mask e) (ex_slots e)"
    if "i < MAX_TASKS" "ts_state (ex_slots e ! i) = SLOT_READY" for i
    using that inv by (simp add: executor_inv_def runnable_def live_def)
  have alive: "snd (run_until_stall e) = card (live_slots (fst (run_until_stall e)))"
    using inv_pass [OF inv] by (simp add: executor_inv_def run_until_stall_def Let_def)
  show ?thesis
    by (intro conjI allI impI)
      (rule pass_slots(3) [OF inv] alive full | erule (1) ready | erule pass_slots(2) [OF inv]
        | erule fresh [THEN conjunct1] | erule fresh [THEN conjunct2])+
qed

definition countdown :: "nat poll_fn" where
  "countdown i d = (if d \<le> 1 then (0, True, 0) else (d - 1, False, push_bit i 1))"

definition example_executor :: "nat OuroborosExecutor" where
  "example_executor = fst (spawn_raw (executor_new 0) 3 countdown)"

lemma example_reach: "executor_reach 0 example_executor"
  unfolding example_executor_def by (intro executor_reach.intros)

theorem executor_pass_exact_witness:
  "snd (run_until_stall example_executor) = card (live_slots (fst (run_until_stall example_executor)))
   \<and> 0 \<in> runnable (ex_ready_mask example_executor) (ex_slots example_executor)"
proof -
  have "ts_state (ex_slots example_executor ! 0) = SLOT_READY" by code_simp
  with executor_pass_exact [OF example_reach, of 0 countdown] show ?thesis by (auto simp: MAX_TASKS_def)
qed

text \<open>A fresh executor with one task.\<close>

lemma spawn_fresh:
  shows "ex_slots (fst (spawn_raw (executor_new null) d f)) ! 0 = \<lparr>ts_data = d, ts_poll_fn = f, ts_state = SLOT_READY\<rparr>"
    and "live_slots (fst (spawn_raw (executor_new null) d f)) = {0}"
    and "bit (ex_ready_mask (fst (spawn_raw (executor_new null) d f))) 0"
proof -
  have "find_free_slot (executor_new null) = Some 0"
    by (simp add: find_free_slot_def executor_new_def MAX_TASKS_def position_Some_iff slot_empty_def)
  then have e: "fst (spawn_raw (executor_new null) d f) = (executor_new null)\<lparr>
      ex_slots := (ex_slots (executor_new null))[0 := \<lparr>ts_data = d, ts_poll_fn = f, ts_state = SLOT_READY\<rparr>],
      ex_ready_mask := waker_wake 0 (ex_ready_mask (executor_new null)), ex_count := ex_count (executor_new null) + 1\<rparr>"
    by (simp add: spawn_raw_def)
  show "ex_slots (fst (spawn_raw (executor_new null) d f)) ! 0 = \<lparr>ts_data = d, ts_poll_fn = f, ts_state = SLOT_READY\<rparr>"
    unfolding e by (simp add: executor_new_def MAX_TASKS_def)
  show "bit (ex_ready_mask (fst (spawn_raw (executor_new null) d f))) 0"
    unfolding e by (simp add: executor_new_def waker_wake_def bit_or_iff)
  have "i \<in> live_slots (fst (spawn_raw (executor_new null) d f)) \<longleftrightarrow> i = 0" for i
    unfolding e live_slots_def
    by (cases i) (simp_all add: executor_new_def live_def slot_empty_def slot_states MAX_TASKS_def)
  then show "live_slots (fst (spawn_raw (executor_new null) d f)) = {0}" by blast
qed

section \<open>Termination\<close>

text \<open>
  A task that makes progress towards its postcondition \<open>P\<close>: its state satisfies the invariant \<open>I\<close>, and
  from every state that does, a poll completes it in a state satisfying \<open>P\<close>, or keeps the invariant,
  strictly decreases the measure and wakes the task itself.
\<close>

definition progressing ::
  "(nat \<Rightarrow> 'd \<Rightarrow> bool) \<Rightarrow> (nat \<Rightarrow> 'd \<Rightarrow> bool) \<Rightarrow> ('d \<Rightarrow> nat) \<Rightarrow> nat \<Rightarrow> 'd TaskSlot \<Rightarrow> bool" where
  "progressing I P \<mu> i s \<longleftrightarrow> I i (ts_data s) \<and>
    (\<forall>d. I i d \<longrightarrow> (case ts_poll_fn s i d of (d', finished, wakes) \<Rightarrow>
       if finished then P i d' else I i d' \<and> \<mu> d' < \<mu> d \<and> bit wakes i))"

definition work_left :: "('d \<Rightarrow> nat) \<Rightarrow> 'd OuroborosExecutor \<Rightarrow> nat" where
  "work_left \<mu> e = (\<Sum>i \<in> live_slots e. Suc (\<mu> (ts_data (ex_slots e ! i))))"

definition all_awake ::
  "(nat \<Rightarrow> 'd \<Rightarrow> bool) \<Rightarrow> (nat \<Rightarrow> 'd \<Rightarrow> bool) \<Rightarrow> ('d \<Rightarrow> nat) \<Rightarrow> 'd OuroborosExecutor \<Rightarrow> bool" where
  "all_awake I P \<mu> e \<longleftrightarrow> executor_inv e
    \<and> (\<forall>i \<in> live_slots e. bit (ex_ready_mask e) i \<and> progressing I P \<mu> i (ex_slots e ! i))"

lemma polled_progress:
  assumes "progressing I P \<mu> i s"
  shows "\<not> finishes i s \<Longrightarrow> \<mu> (ts_data (polled i s)) < \<mu> (ts_data s)"
    and "\<not> finishes i s \<Longrightarrow> bit (woken_by i s) i"
    and "\<not> finishes i s \<Longrightarrow> progressing I P \<mu> i (polled i s)"
    and "finishes i s \<Longrightarrow> P i (ts_data (polled i s))"
proof -
  obtain d' fin wakes where poll: "ts_poll_fn s i (ts_data s) = (d', fin, wakes)" by (metis prod_cases3)
  have now: "if fin then P i d' else I i d' \<and> \<mu> d' < \<mu> (ts_data s) \<and> bit wakes i"
    using assms poll unfolding progressing_def by fastforce
  show "\<not> finishes i s \<Longrightarrow> \<mu> (ts_data (polled i s)) < \<mu> (ts_data s)" "\<not> finishes i s \<Longrightarrow> bit (woken_by i s) i"
    "finishes i s \<Longrightarrow> P i (ts_data (polled i s))"
    using now poll by (simp_all add: finishes_def polled_def woken_by_def)
  show "\<not> finishes i s \<Longrightarrow> progressing I P \<mu> i (polled i s)"
    using now poll assms by (simp add: finishes_def polled_def progressing_def)
qed

lemma awake_runnable:
  assumes "all_awake I P \<mu> e"
  shows "runnable (ex_ready_mask e) (ex_slots e) = live_slots e"
  using assms by (auto simp: all_awake_def executor_inv_def runnable_def live_slots_def)

lemma pass_awake:
  assumes "all_awake I P \<mu> e"
  shows "all_awake I P \<mu> ((fst (run_until_stall e))\<lparr>ex_ready_mask := ex_ready_mask (fst (run_until_stall e)) OR w\<rparr>)"
proof -
  let ?e = "fst (run_until_stall e)"
  have inv: "executor_inv e" using assms by (simp add: all_awake_def)
  have "bit (ex_ready_mask ?e) i \<and> progressing I P \<mu> i (ex_slots ?e ! i)" if "i \<in> live_slots ?e" for i
  proof -
    from that have i: "i \<in> live_slots e" "\<not> finishes i (ex_slots e ! i)"
      unfolding pass_live [OF inv] awake_runnable [OF assms] by auto
    with assms have p: "progressing I P \<mu> i (ex_slots e ! i)" by (simp add: all_awake_def)
    have "i < MAX_TASKS" using i(1) by (simp add: live_slots_def)
    then have "ex_slots ?e ! i = polled i (ex_slots e ! i)"
      using pass_slots(2) [OF inv] i(1) awake_runnable [OF assms] by simp
    moreover have "bit (ex_ready_mask ?e) i"
      using pass_slots(3) [OF inv] i(1) awake_runnable [OF assms] polled_progress(2) [OF p i(2)] by auto
    ultimately show ?thesis using polled_progress(3) [OF p i(2)] by simp
  qed
  then show ?thesis
    using inv_wake [OF inv_pass [OF inv], of w] by (auto simp: all_awake_def live_slots_def bit_or_iff)
qed

lemma work_left_wake [simp]: "work_left \<mu> (e\<lparr>ex_ready_mask := w\<rparr>) = work_left \<mu> e"
  by (simp add: work_left_def live_slots_def)

lemma pass_work:
  assumes "all_awake I P \<mu> e" "live_slots e \<noteq> {}"
  shows "work_left \<mu> (fst (run_until_stall e)) < work_left \<mu> e"
proof -
  let ?e = "fst (run_until_stall e)"
  have inv: "executor_inv e" using assms by (simp add: all_awake_def)
  note live = pass_live [OF inv, unfolded awake_runnable [OF assms(1)]]
  have step: "Suc (\<mu> (ts_data (ex_slots ?e ! i))) < Suc (\<mu> (ts_data (ex_slots e ! i)))" if "i \<in> live_slots ?e" for i
  proof -
    from that live have i: "i \<in> live_slots e" "\<not> finishes i (ex_slots e ! i)" by auto
    then have "i < MAX_TASKS" by (simp add: live_slots_def)
    then have "ex_slots ?e ! i = polled i (ex_slots e ! i)"
      using pass_slots(2) [OF inv] i(1) awake_runnable [OF assms(1)] by simp
    moreover have "progressing I P \<mu> i (ex_slots e ! i)" using assms(1) i(1) by (simp add: all_awake_def)
    ultimately show ?thesis using polled_progress(1) [OF _ i(2)] by simp
  qed
  show ?thesis
  proof (cases "live_slots ?e = {}")
    case True
    obtain i where "i \<in> live_slots e" using assms(2) by blast
    then have "0 < work_left \<mu> e" unfolding work_left_def by (intro sum_pos) auto
    with True show ?thesis by (simp add: work_left_def)
  next
    case False
    have "work_left \<mu> ?e < (\<Sum>i \<in> live_slots ?e. Suc (\<mu> (ts_data (ex_slots e ! i))))"
      unfolding work_left_def using False step by (intro sum_strict_mono) auto
    also have "\<dots> \<le> work_left \<mu> e" unfolding work_left_def using live by (intro sum_mono2) auto
    finally show ?thesis .
  qed
qed

text \<open>What a pass leaves in a slot that was not live, or whose task it completed.\<close>

lemma pass_settled:
  assumes "all_awake I P \<mu> e" "i < MAX_TASKS" "i \<notin> live_slots (fst (run_until_stall e))"
  shows "i \<notin> live_slots e \<Longrightarrow> ex_slots (fst (run_until_stall e)) ! i = ex_slots e ! i"
    and "i \<in> live_slots e \<Longrightarrow> P i (ts_data (ex_slots (fst (run_until_stall e)) ! i))"
proof -
  have inv: "executor_inv e" using assms by (simp add: all_awake_def)
  note slot = pass_slots(2) [OF inv assms(2), unfolded awake_runnable [OF assms(1)]]
  show "i \<notin> live_slots e \<Longrightarrow> ex_slots (fst (run_until_stall e)) ! i = ex_slots e ! i" by (simp add: slot)
  assume i: "i \<in> live_slots e"
  with assms(3) have "finishes i (ex_slots e ! i)" unfolding pass_live [OF inv] awake_runnable [OF assms(1)] by simp
  moreover have "progressing I P \<mu> i (ex_slots e ! i)" using assms(1) i by (simp add: all_awake_def)
  ultimately show "P i (ts_data (ex_slots (fst (run_until_stall e)) ! i))"
    using i polled_progress(4) by (simp add: slot)
qed

lemma run_forever_awake:
  assumes "all_awake I P \<mu> e"
  shows "\<exists>e'. run_forever external n e = Some e' \<and> live_slots e' = {} \<and> executor_inv e'
    \<and> (\<forall>i < MAX_TASKS. if i \<in> live_slots e then P i (ts_data (ex_slots e' ! i)) else ex_slots e' ! i = ex_slots e ! i)"
  using assms
proof (induction "work_left \<mu> e" arbitrary: e n rule: less_induct)
  case less
  let ?e = "fst (run_until_stall e)" and ?w = "\<lambda>e. e\<lparr>ex_ready_mask := ex_ready_mask e OR external n\<rparr>"
  have inv: "executor_inv e" using less.prems by (simp add: all_awake_def)
  note inv' = inv_pass [OF inv]
  have alive: "snd (run_until_stall e) = card (live_slots ?e)"
    using inv' by (simp add: executor_inv_def run_until_stall_def Let_def)
  note settled = pass_settled [OF less.prems]
  show ?case
  proof (cases "live_slots ?e = {}")
    case True
    with alive inv' settled show ?thesis by (subst run_forever.simps) auto
  next
    case False
    then have "live_slots e \<noteq> {}" using pass_live [OF inv] by auto
    with less.hyps [of "?w ?e" "n + 1"] pass_awake [OF less.prems] pass_work [OF less.prems]
    obtain e' where e': "run_forever external (n + 1) (?w ?e) = Some e'" "live_slots e' = {}" "executor_inv e'"
      "\<forall>i < MAX_TASKS. if i \<in> live_slots (?w ?e) then P i (ts_data (ex_slots e' ! i))
         else ex_slots e' ! i = ex_slots (?w ?e) ! i" by (metis work_left_wake)
    have sub: "live_slots ?e \<subseteq> live_slots e" using pass_live [OF inv] by auto
    have w: "live_slots (?w ?e) = live_slots ?e" "ex_slots (?w ?e) = ex_slots ?e" by (simp_all add: live_slots_def)
    have "if i \<in> live_slots e then P i (ts_data (ex_slots e' ! i)) else ex_slots e' ! i = ex_slots e ! i"
      if "i < MAX_TASKS" for i
      using e'(4) [rule_format, OF that, unfolded w] settled [OF that] sub by (metis subsetD)
    with e'(1-3) False alive show ?thesis by (subst run_forever.simps) auto
  qed
qed

text \<open>
  C19. \<open>run_forever\<close> is totally correct: from any reachable executor in which every live task has its
  ready bit set and makes progress, in the sense that from every state of its invariant a poll
  completes it with its postcondition or keeps the invariant, decreases a measure and wakes it
  again, the loop ends, whatever other threads wake meanwhile.  Then no task is alive, the task
  count is zero, and every task that was alive has reached its postcondition.
\<close>

theorem run_forever_terminates:
  assumes "executor_reach null e"
    and "\<forall>i \<in> live_slots e. bit (ex_ready_mask e) i \<and> progressing I P \<mu> i (ex_slots e ! i)"
  shows "\<exists>e'. run_forever external n e = Some e' \<and> live_slots e' = {} \<and> task_count e' = 0
    \<and> (\<forall>i \<in> live_slots e. P i (ts_data (ex_slots e' ! i)))"
proof -
  have "all_awake I P \<mu> e" using assms executor_reach_inv by (simp add: all_awake_def)
  from run_forever_awake [OF this, of external n] obtain e' where "run_forever external n e = Some e'"
    "live_slots e' = {}" "executor_inv e'"
    "\<forall>i < MAX_TASKS. if i \<in> live_slots e then P i (ts_data (ex_slots e' ! i)) else ex_slots e' ! i = ex_slots e ! i"
    by blast
  then show ?thesis by (auto simp: executor_inv_def task_count_def live_slots_def)
qed

theorem run_forever_terminates_witness:
  "\<exists>e'. run_forever (\<lambda>_. 0) 0 example_executor = Some e' \<and> task_count e' = 0 \<and> ts_data (ex_slots e' ! 0) = 0"
proof -
  note fresh = spawn_fresh [of 0 3 countdown, folded example_executor_def]
  have "progressing (\<lambda>_ _. True) (\<lambda>_ d. d = 0) id 0 (ex_slots example_executor ! 0)"
    unfolding progressing_def fresh(1) by (simp add: countdown_def)
  then show ?thesis
    using run_forever_terminates [OF example_reach, of "\<lambda>_ _. True" "\<lambda>_ d. d = 0" id "\<lambda>_. 0" 0] fresh by auto
qed

end
