(* ===== verification/Bifrost_Bridge.thy ===== *)
theory Bifrost_Bridge
  imports Slope_Prelude Repr_C
begin

text \<open>
  The coherent DMA ring of \<open>bridge.rs\<close> and the socket over it in \<open>net.rs\<close>.  The device is the other
  owner of the descriptors; its steps are part of the transition system, restricted by what the
  state word grants it: it may fill a receive descriptor it owns, with any length, and release a
  transmit descriptor it owns, in any order.
\<close>

section \<open>Descriptors and ring\<close>

definition RING_ENTRIES :: nat where "RING_ENTRIES = 256"
definition MAXIMUM_FRAME_BYTES :: nat where "MAXIMUM_FRAME_BYTES = 2048"
definition RECEIVE_DEVICE_OWNED :: u32 where "RECEIVE_DEVICE_OWNED = 0"
definition RECEIVE_READY :: u32 where "RECEIVE_READY = 1"
definition RECEIVE_USER_HELD :: u32 where "RECEIVE_USER_HELD = 2"
definition TRANSMIT_FREE :: u32 where "TRANSMIT_FREE = 0"
definition TRANSMIT_BUILDING :: u32 where "TRANSMIT_BUILDING = 1"
definition TRANSMIT_DEVICE_OWNED :: u32 where "TRANSMIT_DEVICE_OWNED = 2"

lemmas descriptor_states = RECEIVE_DEVICE_OWNED_def RECEIVE_READY_def RECEIVE_USER_HELD_def
  TRANSMIT_FREE_def TRANSMIT_BUILDING_def TRANSMIT_DEVICE_OWNED_def

datatype BridgeError = InvalidPayloadLength | InvalidHardwareLength | TransmitQueueFull | InvalidCapability

record DmaDescriptor =
  dd_buffer :: bytes
  dd_length :: u32
  dd_state :: u32

definition descriptor_receive :: DmaDescriptor where
  "descriptor_receive = \<lparr>dd_buffer = replicate MAXIMUM_FRAME_BYTES 0, dd_length = 0, dd_state = RECEIVE_DEVICE_OWNED\<rparr>"

definition descriptor_transmit :: DmaDescriptor where
  "descriptor_transmit = \<lparr>dd_buffer = replicate MAXIMUM_FRAME_BYTES 0, dd_length = 0, dd_state = TRANSMIT_FREE\<rparr>"

record BifrostRing =
  receive_consumer :: u32
  transmit_producer :: u32
  br_receive :: "DmaDescriptor list"
  br_transmit :: "DmaDescriptor list"

definition bifrost_new :: BifrostRing where
  "bifrost_new = \<lparr>receive_consumer = 0, transmit_producer = 0,
     br_receive = replicate RING_ENTRIES descriptor_receive,
     br_transmit = replicate RING_ENTRIES descriptor_transmit\<rparr>"

text \<open>The memory a driver has to pin: 258 pages, although the ring itself is only page-aligned.\<close>

definition DmaDescriptor_layout :: layout where
  "DmaDescriptor_layout = repr_c [array_layout MAXIMUM_FRAME_BYTES U8, U32, U32]"

definition BifrostRing_layout :: layout where
  "BifrostRing_layout = repr_c_align 4096 [U32, U32, array_layout RING_ENTRIES DmaDescriptor_layout,
     array_layout RING_ENTRIES DmaDescriptor_layout]"

definition DMA_SPAN_BYTES :: nat where "DMA_SPAN_BYTES = fst BifrostRing_layout"

lemma BifrostRing_span: "DMA_SPAN_BYTES = 258 * 4096" "snd BifrostRing_layout = 4096"
  by (simp_all add: DMA_SPAN_BYTES_def BifrostRing_layout_def DmaDescriptor_layout_def RING_ENTRIES_def
      MAXIMUM_FRAME_BYTES_def layout_defs)

definition next_index :: "nat \<Rightarrow> u32" where
  "next_index index = of_nat ((index + 1) mod RING_ENTRIES)"

record ReceivedPacket =
  pkt_index :: nat
  pkt_length :: nat

definition put_receive :: "nat \<Rightarrow> DmaDescriptor \<Rightarrow> BifrostRing \<Rightarrow> BifrostRing" where
  "put_receive i d r = r\<lparr>br_receive := (br_receive r)[i := d]\<rparr>"

definition put_transmit :: "nat \<Rightarrow> DmaDescriptor \<Rightarrow> BifrostRing \<Rightarrow> BifrostRing" where
  "put_transmit i d r = r\<lparr>br_transmit := (br_transmit r)[i := d]\<rparr>"

text \<open>Returning a receive descriptor to the device: the length and the state, then the consumer index.\<close>

definition release_receive :: "nat \<Rightarrow> BifrostRing \<Rightarrow> BifrostRing" where
  "release_receive i r =
    (put_receive i ((br_receive r ! i)\<lparr>dd_length := 0, dd_state := RECEIVE_DEVICE_OWNED\<rparr>) r)
      \<lparr>receive_consumer := next_index i\<rparr>"

definition try_receive :: "BifrostRing \<Rightarrow> BifrostRing \<times> (BridgeError, ReceivedPacket option) result" where
  "try_receive r =
    (let index = unat (receive_consumer r) mod RING_ENTRIES; d = br_receive r ! index in
     if dd_state d \<noteq> RECEIVE_READY then (r, Ok None)
     else
       let r1 = put_receive index (d\<lparr>dd_state := RECEIVE_USER_HELD\<rparr>) r;
           len = unat (dd_length d)
       in if len > MAXIMUM_FRAME_BYTES then (release_receive index r1, Err InvalidHardwareLength)
          else (r1, Ok (Some \<lparr>pkt_index = index, pkt_length = len\<rparr>)))"

definition transmit :: "BifrostRing \<Rightarrow> bytes \<Rightarrow> BifrostRing \<times> (BridgeError, unit) result" where
  "transmit r payload =
    (if payload = [] \<or> length payload > MAXIMUM_FRAME_BYTES then (r, Err InvalidPayloadLength)
     else
       let index = unat (transmit_producer r) mod RING_ENTRIES; d = br_transmit r ! index in
       if dd_state d \<noteq> TRANSMIT_FREE then (r, Err TransmitQueueFull)
       else
         let d1 = d\<lparr>dd_state := TRANSMIT_BUILDING\<rparr>;
             d2 = d1\<lparr>dd_buffer := copy_prefix (dd_buffer d1) payload\<rparr>;
             d3 = d2\<lparr>dd_length := of_nat (length payload)\<rparr>;
             d4 = d3\<lparr>dd_state := TRANSMIT_DEVICE_OWNED\<rparr>
         in ((put_transmit index d4 r)\<lparr>transmit_producer := next_index index\<rparr>, Ok ()))"

definition packet_bytes :: "BifrostRing \<Rightarrow> ReceivedPacket \<Rightarrow> bytes" where
  "packet_bytes r p = take (pkt_length p) (dd_buffer (br_receive r ! pkt_index p))"

definition packet_drop :: "BifrostRing \<Rightarrow> ReceivedPacket \<Rightarrow> BifrostRing" where
  "packet_drop r p = release_receive (pkt_index p) r"

section \<open>Socket\<close>

record NetworkCapability =
  cap_id :: u32
  cap_generation :: u32

definition capability_from_kernel :: "u32 \<Rightarrow> u32 \<Rightarrow> NetworkCapability option" where
  "capability_from_kernel i g = (if i = 0 \<or> g = 0 then None else Some \<lparr>cap_id = i, cap_generation = g\<rparr>)"

text \<open>The socket refers to the shared ring, which the operations take as an argument.\<close>

record TesseractSocket =
  sock_local_port :: u16
  sock_capability :: NetworkCapability

definition socket_from_mapping :: "u16 \<Rightarrow> NetworkCapability \<Rightarrow> (BridgeError, TesseractSocket) result" where
  "socket_from_mapping local_port c =
    (if local_port = 0 \<or> cap_id c = 0 \<or> cap_generation c = 0 then Err InvalidCapability
     else Ok \<lparr>sock_local_port = local_port, sock_capability = c\<rparr>)"

definition socket_try_read :: "TesseractSocket \<Rightarrow> BifrostRing \<Rightarrow> BifrostRing \<times> (BridgeError, ReceivedPacket option) result" where
  "socket_try_read s r = try_receive r"

definition socket_send :: "TesseractSocket \<Rightarrow> BifrostRing \<Rightarrow> bytes \<Rightarrow> BifrostRing \<times> (BridgeError, unit) result" where
  "socket_send s r payload = transmit r payload"

datatype 'a poll = Ready 'a | Pending

text \<open>What a poll does besides reading: the yield hint it sends and whether it wakes itself.\<close>

record poll_effects =
  yielded :: "u64 option"
  self_woken :: bool

definition receiver_poll ::
  "TesseractSocket \<Rightarrow> BifrostRing \<Rightarrow> BifrostRing \<times> poll_effects \<times> (BridgeError, ReceivedPacket) result poll" where
  "receiver_poll s r =
    (case socket_try_read s r of
       (r', Inr (Some p)) \<Rightarrow> (r', \<lparr>yielded = None, self_woken = False\<rparr>, Ready (Ok p))
     | (r', Inr None) \<Rightarrow> (r', \<lparr>yielded = Some 100, self_woken = True\<rparr>, Pending)
     | (r', Inl e) \<Rightarrow> (r', \<lparr>yielded = None, self_woken = False\<rparr>, Ready (Err e)))"

section \<open>Users and device\<close>

record bridge_sys =
  bs_ring :: BifrostRing
  bs_guards :: "ReceivedPacket list"
  bs_sent :: "bytes list"

definition bridge_init :: bridge_sys where
  "bridge_init = \<lparr>bs_ring = bifrost_new, bs_guards = [], bs_sent = []\<rparr>"

text \<open>The device's steps.\<close>

inductive device_step :: "BifrostRing \<Rightarrow> BifrostRing \<Rightarrow> bool" where
  fill: "i < RING_ENTRIES \<Longrightarrow> dd_state (br_receive r ! i) = RECEIVE_DEVICE_OWNED \<Longrightarrow>
    length frame = MAXIMUM_FRAME_BYTES \<Longrightarrow>
    device_step r (put_receive i \<lparr>dd_buffer = frame, dd_length = len, dd_state = RECEIVE_READY\<rparr> r)"
| sent: "i < RING_ENTRIES \<Longrightarrow> dd_state (br_transmit r ! i) = TRANSMIT_DEVICE_OWNED \<Longrightarrow>
    device_step r (put_transmit i ((br_transmit r ! i)\<lparr>dd_state := TRANSMIT_FREE\<rparr>) r)"

inductive bridge_reach :: "bridge_sys \<Rightarrow> bool" where
  start: "bridge_reach bridge_init"
| receive: "bridge_reach s \<Longrightarrow> try_receive (bs_ring s) = (r, res) \<Longrightarrow>
    bridge_reach (s\<lparr>bs_ring := r,
      bs_guards := (case res of Inr (Some p) \<Rightarrow> p # bs_guards s | _ \<Rightarrow> bs_guards s)\<rparr>)"
| drop_guard: "bridge_reach s \<Longrightarrow> p \<in> set (bs_guards s) \<Longrightarrow>
    bridge_reach (s\<lparr>bs_ring := packet_drop (bs_ring s) p, bs_guards := remove1 p (bs_guards s)\<rparr>)"
| transmit: "bridge_reach s \<Longrightarrow> transmit (bs_ring s) payload = (r, res) \<Longrightarrow>
    bridge_reach (s\<lparr>bs_ring := r, bs_sent := (if is_ok res then bs_sent s @ [payload] else bs_sent s)\<rparr>)"
| device: "bridge_reach s \<Longrightarrow> device_step (bs_ring s) r \<Longrightarrow> bridge_reach (s\<lparr>bs_ring := r\<rparr>)"

section \<open>Ownership\<close>

definition ring_shape :: "BifrostRing \<Rightarrow> bool" where
  "ring_shape r \<longleftrightarrow>
     length (br_receive r) = RING_ENTRIES \<and> length (br_transmit r) = RING_ENTRIES
   \<and> unat (receive_consumer r) < RING_ENTRIES \<and> unat (transmit_producer r) < RING_ENTRIES
   \<and> (\<forall>i < RING_ENTRIES. length (dd_buffer (br_receive r ! i)) = MAXIMUM_FRAME_BYTES)
   \<and> (\<forall>i < RING_ENTRIES. length (dd_buffer (br_transmit r ! i)) = MAXIMUM_FRAME_BYTES)
   \<and> (\<forall>i < RING_ENTRIES. dd_state (br_transmit r ! i) \<in> {TRANSMIT_FREE, TRANSMIT_DEVICE_OWNED})"

text \<open>At most one guard is outstanding, and it is for the descriptor at the consumer index.\<close>

definition guards_ok :: "BifrostRing \<Rightarrow> ReceivedPacket list \<Rightarrow> bool" where
  "guards_ok r gs \<longleftrightarrow>
     (gs = [] \<or> (\<exists>p. gs = [p] \<and> pkt_index p = unat (receive_consumer r) \<and> pkt_length p \<le> MAXIMUM_FRAME_BYTES))
   \<and> (\<forall>i < RING_ENTRIES. dd_state (br_receive r ! i) = RECEIVE_USER_HELD \<longleftrightarrow> i \<in> pkt_index ` set gs)"

definition bridge_inv :: "bridge_sys \<Rightarrow> bool" where
  "bridge_inv s \<longleftrightarrow> ring_shape (bs_ring s) \<and> guards_ok (bs_ring s) (bs_guards s)
   \<and> unat (transmit_producer (bs_ring s)) = length (bs_sent s) mod RING_ENTRIES"

lemma unat_next_index: "unat (next_index i) = (i + 1) mod RING_ENTRIES" "unat (next_index i) < RING_ENTRIES"
proof -
  have "(i + 1) mod RING_ENTRIES < 256" by (simp add: RING_ENTRIES_def)
  then show "unat (next_index i) = (i + 1) mod RING_ENTRIES" by (simp add: next_index_def unat_of_nat)
  then show "unat (next_index i) < RING_ENTRIES" by (simp add: RING_ENTRIES_def)
qed

lemma put_simps [simp]:
  "receive_consumer (put_receive i d r) = receive_consumer r" "transmit_producer (put_receive i d r) = transmit_producer r"
  "br_transmit (put_receive i d r) = br_transmit r" "br_receive (put_receive i d r) = (br_receive r)[i := d]"
  "receive_consumer (put_transmit i d r) = receive_consumer r" "transmit_producer (put_transmit i d r) = transmit_producer r"
  "br_receive (put_transmit i d r) = br_receive r" "br_transmit (put_transmit i d r) = (br_transmit r)[i := d]"
  by (simp_all add: put_receive_def put_transmit_def)

lemma nth_update_any: "xs[i := d] ! j = (if i = j \<and> i < length xs then d else xs ! j)"
  by (cases "i < length xs") (simp_all add: nth_list_update list_update_beyond)

lemma descriptor_states_distinct: "RECEIVE_READY \<noteq> RECEIVE_USER_HELD" "RECEIVE_DEVICE_OWNED \<noteq> RECEIVE_USER_HELD"
  by (simp_all add: descriptor_states)

lemma shape_put_receive:
  "ring_shape r \<Longrightarrow> length (dd_buffer d) = MAXIMUM_FRAME_BYTES \<Longrightarrow> ring_shape (put_receive i d r)"
  by (simp add: ring_shape_def nth_update_any)

lemma shape_release: "ring_shape r \<Longrightarrow> i < RING_ENTRIES \<Longrightarrow> ring_shape (release_receive i r)"
  by (simp add: ring_shape_def release_receive_def nth_update_any unat_next_index)

lemma inv_init: "bridge_inv bridge_init"
  by (simp add: bridge_inv_def bridge_init_def ring_shape_def guards_ok_def bifrost_new_def descriptor_receive_def
      descriptor_transmit_def descriptor_states RING_ENTRIES_def)

text \<open>The three outcomes of \<open>try_receive\<close>.\<close>

lemma try_receive_cases:
  assumes "try_receive r = (r', res)" "ring_shape r"
  obtains (none) "res = Ok None" "r' = r" "dd_state (br_receive r ! unat (receive_consumer r)) \<noteq> RECEIVE_READY"
  | (bad) d where "res = Err InvalidHardwareLength" "dd_state (br_receive r ! unat (receive_consumer r)) = RECEIVE_READY"
      "r' = release_receive (unat (receive_consumer r)) (put_receive (unat (receive_consumer r)) d r)"
      "length (dd_buffer d) = MAXIMUM_FRAME_BYTES"
  | (packet) p where "res = Ok (Some p)" "dd_state (br_receive r ! unat (receive_consumer r)) = RECEIVE_READY"
      "pkt_index p = unat (receive_consumer r)" "pkt_length p = unat (dd_length (br_receive r ! pkt_index p))"
      "pkt_length p \<le> MAXIMUM_FRAME_BYTES"
      "r' = put_receive (pkt_index p) ((br_receive r ! pkt_index p)\<lparr>dd_state := RECEIVE_USER_HELD\<rparr>) r"
proof -
  let ?i = "unat (receive_consumer r)"
  have i: "?i < RING_ENTRIES" using assms(2) by (simp add: ring_shape_def)
  let ?d = "br_receive r ! ?i"
  consider (none) "dd_state ?d \<noteq> RECEIVE_READY"
    | (bad) "dd_state ?d = RECEIVE_READY" "unat (dd_length ?d) > MAXIMUM_FRAME_BYTES"
    | (packet) "dd_state ?d = RECEIVE_READY" "unat (dd_length ?d) \<le> MAXIMUM_FRAME_BYTES" by linarith
  then show thesis
  proof cases
    case none
    with assms(1) i that(1) show thesis by (simp add: try_receive_def Let_def)
  next
    case bad
    have "length (dd_buffer ?d) = MAXIMUM_FRAME_BYTES" using assms(2) i by (simp add: ring_shape_def)
    with bad assms(1) i that(2) [of "?d\<lparr>dd_state := RECEIVE_USER_HELD\<rparr>"] show thesis
      by (simp add: try_receive_def Let_def)
  next
    case packet
    with assms(1) i that(3) [of "\<lparr>pkt_index = ?i, pkt_length = unat (dd_length ?d)\<rparr>"] show thesis
      by (simp add: try_receive_def Let_def)
  qed
qed

lemma guards_ready:
  assumes "guards_ok r gs" "unat (receive_consumer r) < RING_ENTRIES"
    "dd_state (br_receive r ! unat (receive_consumer r)) = RECEIVE_READY"
  shows "gs = []"
proof (rule ccontr)
  assume "gs \<noteq> []"
  with assms(1) obtain p where "gs = [p]" "pkt_index p = unat (receive_consumer r)" by (auto simp: guards_ok_def)
  with assms(1,2) have "dd_state (br_receive r ! unat (receive_consumer r)) = RECEIVE_USER_HELD"
    by (simp add: guards_ok_def)
  with assms(3) descriptor_states_distinct show False by simp
qed

lemma guards_put:
  assumes "guards_ok r gs" "ring_shape r" "i < RING_ENTRIES" "i \<notin> pkt_index ` set gs" "dd_state d \<noteq> RECEIVE_USER_HELD"
  shows "guards_ok (put_receive i d r) gs"
  using assms by (simp add: guards_ok_def ring_shape_def nth_update_any)

lemma guards_hold:
  assumes "guards_ok r []" "ring_shape r" "pkt_index p = unat (receive_consumer r)"
    "pkt_length p \<le> MAXIMUM_FRAME_BYTES" "dd_state d = RECEIVE_USER_HELD"
  shows "guards_ok (put_receive (pkt_index p) d r) [p]"
  using assms by (auto simp: guards_ok_def ring_shape_def nth_update_any)

lemma guards_release:
  assumes "\<And>j. j < RING_ENTRIES \<Longrightarrow> j \<noteq> i \<Longrightarrow> dd_state (br_receive r ! j) \<noteq> RECEIVE_USER_HELD"
    "length (br_receive r) = RING_ENTRIES"
  shows "guards_ok (release_receive i r) []"
  using assms descriptor_states_distinct by (auto simp: guards_ok_def release_receive_def nth_update_any)

lemma inv_receive:
  assumes inv: "bridge_inv s" and tr: "try_receive (bs_ring s) = (r, res)"
  shows "bridge_inv (s\<lparr>bs_ring := r, bs_guards := (case res of Inr (Some p) \<Rightarrow> p # bs_guards s | _ \<Rightarrow> bs_guards s)\<rparr>)"
proof -
  have sh: "ring_shape (bs_ring s)" and g: "guards_ok (bs_ring s) (bs_guards s)"
    using inv by (simp_all add: bridge_inv_def)
  then have i: "unat (receive_consumer (bs_ring s)) < RING_ENTRIES"
    and len: "length (br_receive (bs_ring s)) = RING_ENTRIES" by (simp_all add: ring_shape_def)
  from tr sh show ?thesis
  proof (cases rule: try_receive_cases)
    case none
    with inv show ?thesis by simp
  next
    case (bad d)
    with g i have gs: "bs_guards s = []" by (intro guards_ready)
    have "ring_shape r" using bad sh i by (simp add: shape_release shape_put_receive)
    moreover have "guards_ok r []"
      unfolding bad(3) by (rule guards_release) (use g gs i len in \<open>simp_all add: guards_ok_def\<close>)
    ultimately show ?thesis using inv gs bad by (simp add: bridge_inv_def release_receive_def)
  next
    case (packet p)
    with g i have gs: "bs_guards s = []" by (intro guards_ready) simp_all
    have "length (dd_buffer (br_receive (bs_ring s) ! pkt_index p)) = MAXIMUM_FRAME_BYTES"
      using sh i packet(3) by (simp add: ring_shape_def)
    then have "ring_shape r" using sh by (simp add: shape_put_receive packet(6))
    moreover have "guards_ok r [p]"
      unfolding packet(6) using g gs sh packet by (intro guards_hold) simp_all
    ultimately show ?thesis using inv gs packet by (simp add: bridge_inv_def)
  qed
qed

lemma inv_drop:
  assumes inv: "bridge_inv s" and p: "p \<in> set (bs_guards s)"
  shows "bridge_inv (s\<lparr>bs_ring := packet_drop (bs_ring s) p, bs_guards := remove1 p (bs_guards s)\<rparr>)"
proof -
  have sh: "ring_shape (bs_ring s)" and g: "guards_ok (bs_ring s) (bs_guards s)"
    using inv by (simp_all add: bridge_inv_def)
  with p have gs: "bs_guards s = [p]" "pkt_index p = unat (receive_consumer (bs_ring s))"
    by (auto simp: guards_ok_def)
  with sh have i: "pkt_index p < RING_ENTRIES" and len: "length (br_receive (bs_ring s)) = RING_ENTRIES"
    by (simp_all add: ring_shape_def)
  have "ring_shape (packet_drop (bs_ring s) p)" using sh i by (simp add: packet_drop_def shape_release)
  moreover have "guards_ok (packet_drop (bs_ring s) p) []"
    unfolding packet_drop_def by (rule guards_release) (use g gs len in \<open>simp_all add: guards_ok_def\<close>)
  ultimately show ?thesis using inv gs by (simp add: bridge_inv_def packet_drop_def release_receive_def)
qed

text \<open>An accepted frame: where it goes and what else changes.\<close>

lemma transmit_Ok:
  assumes "transmit r payload = (r', Ok ())" "ring_shape r"
  defines "i \<equiv> unat (transmit_producer r)"
  shows "i < RING_ENTRIES" "payload \<noteq> []" "length payload \<le> MAXIMUM_FRAME_BYTES"
    "dd_state (br_transmit r ! i) = TRANSMIT_FREE"
    "r' = (put_transmit i ((br_transmit r ! i)\<lparr>dd_buffer := copy_prefix (dd_buffer (br_transmit r ! i)) payload,
        dd_length := of_nat (length payload), dd_state := TRANSMIT_DEVICE_OWNED\<rparr>) r)\<lparr>transmit_producer := next_index i\<rparr>"
proof -
  show i: "i < RING_ENTRIES" using assms(2) by (simp add: ring_shape_def i_def)
  then have m: "unat (transmit_producer r) mod RING_ENTRIES = i" by (simp add: i_def)
  show "payload \<noteq> []" "length payload \<le> MAXIMUM_FRAME_BYTES" "dd_state (br_transmit r ! i) = TRANSMIT_FREE"
    "r' = (put_transmit i ((br_transmit r ! i)\<lparr>dd_buffer := copy_prefix (dd_buffer (br_transmit r ! i)) payload,
        dd_length := of_nat (length payload), dd_state := TRANSMIT_DEVICE_OWNED\<rparr>) r)\<lparr>transmit_producer := next_index i\<rparr>"
    using assms(1) by (auto simp: transmit_def Let_def m split: if_splits)
qed

lemma transmit_Err: "transmit r payload = (r', Err e) \<Longrightarrow> r' = r"
  by (auto simp: transmit_def Let_def split: if_splits)

lemma inv_transmit:
  assumes inv: "bridge_inv s" and tr: "transmit (bs_ring s) payload = (r, res)"
  shows "bridge_inv (s\<lparr>bs_ring := r, bs_sent := (if is_ok res then bs_sent s @ [payload] else bs_sent s)\<rparr>)"
proof (cases res)
  case (Inl e)
  with transmit_Err tr inv show ?thesis by fastforce
next
  case (Inr u)
  have sh: "ring_shape (bs_ring s)" and g: "guards_ok (bs_ring s) (bs_guards s)"
    using inv by (simp_all add: bridge_inv_def)
  from Inr tr have ok: "transmit (bs_ring s) payload = (r, Ok ())" by simp
  note t = transmit_Ok [OF ok sh]
  have "ring_shape r" using sh t(1,3) by (simp add: ring_shape_def t(5) nth_update_any unat_next_index)
  moreover have "guards_ok r (bs_guards s)" using g by (simp add: guards_ok_def t(5))
  moreover have "unat (transmit_producer r) = length (bs_sent s @ [payload]) mod RING_ENTRIES"
    using inv by (simp add: t(5) unat_next_index bridge_inv_def mod_Suc_eq)
  ultimately show ?thesis using Inr by (simp add: bridge_inv_def)
qed

lemma inv_device:
  assumes inv: "bridge_inv s" and st: "device_step (bs_ring s) r"
  shows "bridge_inv (s\<lparr>bs_ring := r\<rparr>)"
  using st
proof (cases rule: device_step.cases)
  case (fill i frame len)
  have "dd_state (br_receive (bs_ring s) ! i) = RECEIVE_USER_HELD \<longleftrightarrow> i \<in> pkt_index ` set (bs_guards s)"
    using inv fill(2) by (simp add: bridge_inv_def guards_ok_def)
  then have "i \<notin> pkt_index ` set (bs_guards s)" using fill(3) descriptor_states_distinct by simp
  with fill inv descriptor_states_distinct show ?thesis
    by (simp add: bridge_inv_def shape_put_receive guards_put)
next
  case (sent i)
  have "ring_shape r" using inv unfolding sent(1)
    by (simp add: bridge_inv_def ring_shape_def nth_update_any)
  with sent inv show ?thesis by (simp add: bridge_inv_def guards_ok_def)
qed

lemma bridge_reach_inv: "bridge_reach s \<Longrightarrow> bridge_inv s"
  by (induction rule: bridge_reach.induct) (blast intro: inv_init inv_receive inv_drop inv_transmit inv_device)+

lemma device_keeps_guards:
  assumes inv: "bridge_inv s" and st: "device_step (bs_ring s) r" and p: "p \<in> set (bs_guards s)"
  shows "packet_bytes r p = packet_bytes (bs_ring s) p"
  using st
proof (cases rule: device_step.cases)
  case (fill i frame len)
  have "dd_state (br_receive (bs_ring s) ! i) = RECEIVE_USER_HELD \<longleftrightarrow> i \<in> pkt_index ` set (bs_guards s)"
    using inv fill(2) by (simp add: bridge_inv_def guards_ok_def)
  with p have "pkt_index p \<noteq> i" using fill(3) descriptor_states_distinct by auto
  then show ?thesis by (simp add: fill(1) packet_bytes_def)
next
  case (sent i)
  then show ?thesis by (simp add: packet_bytes_def)
qed

lemma guard_blocks_receive:
  assumes inv: "bridge_inv s" and "bs_guards s \<noteq> []"
  shows "try_receive (bs_ring s) = (bs_ring s, Ok None)"
proof -
  have sh: "ring_shape (bs_ring s)" using inv by (simp add: bridge_inv_def)
  obtain r res where tr: "try_receive (bs_ring s) = (r, res)" by fastforce
  have "dd_state (br_receive (bs_ring s) ! unat (receive_consumer (bs_ring s))) \<noteq> RECEIVE_READY"
    using assms sh guards_ready [of "bs_ring s" "bs_guards s"] by (auto simp: bridge_inv_def ring_shape_def)
  from tr sh this tr show ?thesis by (cases rule: try_receive_cases) simp_all
qed


definition example_frame :: bytes where "example_frame = replicate MAXIMUM_FRAME_BYTES 7"


text \<open>A poll of the receiver either delivers what \<open>try_receive\<close> found or yields and wakes itself.\<close>

lemma receiver_poll_pending:
  assumes "receiver_poll sock r = (r', ef, Pending)"
  shows "r' = r" "yielded ef = Some 100" "self_woken ef"
proof -
  from assms have "try_receive r = (r', Ok None)" and ef: "ef = \<lparr>yielded = Some 100, self_woken = True\<rparr>"
    by (auto simp: receiver_poll_def socket_try_read_def split: prod.splits sum.splits option.splits)
  then show "r' = r" by (auto simp: try_receive_def Let_def split: if_splits)
  from ef show "yielded ef = Some 100" "self_woken ef" by simp_all
qed

end
