(* ===== verification/Akashic_Fs.thy ===== *)
theory Akashic_Fs
  imports Syscall
begin

text \<open>
  Path-based file operations, \<open>fs.rs\<close>.  The kernel is a parameter: a record with one function per
  system call, from the arguments (a buffer argument as its bytes) and the kernel's state to the new
  state, the value left in \<open>rax\<close>, and whatever the kernel writes through an output pointer.
\<close>

section \<open>Constants, data and errors\<close>

definition READ_INTENT :: u32 where "READ_INTENT = push_bit 0 1"
definition WRITE_INTENT :: u32 where "WRITE_INTENT = push_bit 1 1"
definition CREATE_INTENT :: u32 where "CREATE_INTENT = push_bit 2 1"
definition EXCLUSIVE :: u32 where "EXCLUSIVE = push_bit 3 1"
definition TRUNCATE :: u32 where "TRUNCATE = push_bit 4 1"
definition APPEND_ONLY :: u32 where "APPEND_ONLY = push_bit 5 1"
definition EPHEMERAL :: u32 where "EPHEMERAL = push_bit 6 1"
definition HOLOGRAM :: u32 where "HOLOGRAM = push_bit 7 1"
definition RW :: u32 where "RW = READ_INTENT OR WRITE_INTENT"
definition CREATE_RW :: u32 where "CREATE_RW = RW OR CREATE_INTENT"
definition FROM_START :: u32 where "FROM_START = 0"
definition FROM_CURRENT :: u32 where "FROM_CURRENT = 1"
definition FROM_END :: u32 where "FROM_END = 2"
definition DIRENT_NAME_MAX :: nat where "DIRENT_NAME_MAX = 255"

datatype AkashicHandle = AkashicHandle u64

fun raw_handle :: "AkashicHandle \<Rightarrow> u64" where "raw_handle (AkashicHandle h) = h"

datatype NodeKind = File | Directory | Device | Hologram | Symlink

definition node_kind_from_raw :: "u8 \<Rightarrow> NodeKind" where
  "node_kind_from_raw k =
    (if k = 1 then Directory else if k = 2 then Device else if k = 3 then Hologram
     else if k = 4 then Symlink else File)"

record RawStat =
  rs_size_bytes :: u64
  rs_created_ticks :: u64
  rs_modified_ticks :: u64
  rs_flags :: u32
  rs_kind :: u8

definition raw_stat_zeroed :: RawStat where
  "raw_stat_zeroed = \<lparr>rs_size_bytes = 0, rs_created_ticks = 0, rs_modified_ticks = 0, rs_flags = 0, rs_kind = 0\<rparr>"

record AkashicStat =
  st_size_bytes :: u64
  st_created_ticks :: u64
  st_modified_ticks :: u64
  st_flags :: u32
  st_kind :: NodeKind

definition stat_from_raw :: "RawStat \<Rightarrow> AkashicStat" where
  "stat_from_raw r = \<lparr>st_size_bytes = rs_size_bytes r, st_created_ticks = rs_created_ticks r,
     st_modified_ticks = rs_modified_ticks r, st_flags = rs_flags r, st_kind = node_kind_from_raw (rs_kind r)\<rparr>"

record RawDirent =
  rd_name :: bytes
  rd_name_len :: u8
  rd_kind :: u8

definition raw_dirent_zeroed :: RawDirent where
  "raw_dirent_zeroed = \<lparr>rd_name = replicate DIRENT_NAME_MAX 0, rd_name_len = 0, rd_kind = 0\<rparr>"

record Dirent =
  de_name :: bytes
  de_name_len :: u8
  de_kind :: NodeKind

definition dirent_from_raw :: "RawDirent \<Rightarrow> Dirent" where
  "dirent_from_raw r = \<lparr>de_name = rd_name r, de_name_len = rd_name_len r, de_kind = node_kind_from_raw (rd_kind r)\<rparr>"

definition name_bytes :: "Dirent \<Rightarrow> bytes" where
  "name_bytes d = take (unat (de_name_len d)) (de_name d)"

datatype FsError =
    NotFound | AlreadyExists | PermissionDenied | NotADirectory | NotAFile | DirectoryNotEmpty
  | InvalidPath | HandleInvalid | Io SyscallError

fun fs_error :: "SyscallError \<Rightarrow> FsError" where
  "fs_error (SyscallError code) =
    (if code = - 2 then NotFound else if code = - 17 then AlreadyExists
     else if code = - 13 then PermissionDenied else if code = - 20 then NotADirectory
     else if code = - 9 then HandleInvalid else Io (SyscallError code))"

section \<open>Calls\<close>

record 'k fs_kernel =
  k_open :: "bytes \<Rightarrow> usize \<Rightarrow> 'k \<Rightarrow> 'k \<times> isize"
  k_close :: "usize \<Rightarrow> 'k \<Rightarrow> 'k \<times> isize"
  k_read :: "usize \<Rightarrow> nat \<Rightarrow> 'k \<Rightarrow> 'k \<times> isize \<times> bytes"
  k_write :: "usize \<Rightarrow> bytes \<Rightarrow> 'k \<Rightarrow> 'k \<times> isize"
  k_seek :: "usize \<Rightarrow> usize \<Rightarrow> usize \<Rightarrow> 'k \<Rightarrow> 'k \<times> isize"
  k_stat :: "bytes \<Rightarrow> RawStat \<Rightarrow> 'k \<Rightarrow> 'k \<times> isize \<times> RawStat"
  k_mkdir :: "bytes \<Rightarrow> 'k \<Rightarrow> 'k \<times> isize"
  k_unlink :: "bytes \<Rightarrow> 'k \<Rightarrow> 'k \<times> isize"
  k_rename :: "bytes \<Rightarrow> bytes \<Rightarrow> 'k \<Rightarrow> 'k \<times> isize"
  k_readdir :: "usize \<Rightarrow> RawDirent \<Rightarrow> 'k \<Rightarrow> 'k \<times> isize \<times> RawDirent"

definition fs_result :: "isize \<Rightarrow> (FsError, usize) result" where
  "fs_result rax = map_err fs_error (syscall_decode rax)"

definition fs_unit :: "isize \<Rightarrow> (FsError, unit) result" where
  "fs_unit rax = and_then (fs_result rax) (\<lambda>_. Ok ())"

definition fs_open :: "'k fs_kernel \<Rightarrow> bytes \<Rightarrow> u32 \<Rightarrow> 'k \<Rightarrow> 'k \<times> (FsError, AkashicHandle) result" where
  "fs_open K path open_flags k =
    (case k_open K path (ucast open_flags) k of (k', rax) \<Rightarrow>
      (k', and_then (fs_result rax) (\<lambda>raw. Ok (AkashicHandle raw))))"

definition fs_close :: "'k fs_kernel \<Rightarrow> AkashicHandle \<Rightarrow> 'k \<Rightarrow> 'k \<times> (FsError, unit) result" where
  "fs_close K h k = (case k_close K (raw_handle h) k of (k', rax) \<Rightarrow> (k', fs_unit rax))"

text \<open>\<open>read\<close> also returns the caller's buffer as the kernel left it.\<close>

definition fs_read ::
  "'k fs_kernel \<Rightarrow> AkashicHandle \<Rightarrow> bytes \<Rightarrow> 'k \<Rightarrow> 'k \<times> bytes \<times> (FsError, usize) result" where
  "fs_read K h buf k =
    (case k_read K (raw_handle h) (length buf) k of (k', rax, data) \<Rightarrow>
      (k', copy_prefix buf (take (length buf) data), fs_result rax))"

definition fs_write :: "'k fs_kernel \<Rightarrow> AkashicHandle \<Rightarrow> bytes \<Rightarrow> 'k \<Rightarrow> 'k \<times> (FsError, usize) result" where
  "fs_write K h buf k = (case k_write K (raw_handle h) buf k of (k', rax) \<Rightarrow> (k', fs_result rax))"

definition fs_seek :: "'k fs_kernel \<Rightarrow> AkashicHandle \<Rightarrow> i64 \<Rightarrow> u32 \<Rightarrow> 'k \<Rightarrow> 'k \<times> (FsError, u64) result" where
  "fs_seek K h offset whence k =
    (case k_seek K (raw_handle h) offset (ucast whence) k of (k', rax) \<Rightarrow> (k', fs_result rax))"

definition fs_stat :: "'k fs_kernel \<Rightarrow> bytes \<Rightarrow> 'k \<Rightarrow> 'k \<times> (FsError, AkashicStat) result" where
  "fs_stat K path k =
    (case k_stat K path raw_stat_zeroed k of (k', rax, raw) \<Rightarrow>
      (k', and_then (fs_result rax) (\<lambda>_. Ok (stat_from_raw raw))))"

definition fs_mkdir :: "'k fs_kernel \<Rightarrow> bytes \<Rightarrow> 'k \<Rightarrow> 'k \<times> (FsError, unit) result" where
  "fs_mkdir K path k = (case k_mkdir K path k of (k', rax) \<Rightarrow> (k', fs_unit rax))"

definition fs_unlink :: "'k fs_kernel \<Rightarrow> bytes \<Rightarrow> 'k \<Rightarrow> 'k \<times> (FsError, unit) result" where
  "fs_unlink K path k = (case k_unlink K path k of (k', rax) \<Rightarrow> (k', fs_unit rax))"

definition fs_rename :: "'k fs_kernel \<Rightarrow> bytes \<Rightarrow> bytes \<Rightarrow> 'k \<Rightarrow> 'k \<times> (FsError, unit) result" where
  "fs_rename K from' to' k = (case k_rename K from' to' k of (k', rax) \<Rightarrow> (k', fs_unit rax))"

section \<open>Owned files and directory cursors\<close>

record AkashicFile =
  file_handle :: AkashicHandle

definition file_open :: "'k fs_kernel \<Rightarrow> bytes \<Rightarrow> u32 \<Rightarrow> 'k \<Rightarrow> 'k \<times> (FsError, AkashicFile) result" where
  "file_open K path open_flags k =
    (case fs_open K path open_flags k of (k', res) \<Rightarrow> (k', and_then res (\<lambda>h. Ok \<lparr>file_handle = h\<rparr>)))"

lemma drop_shrinks: "n \<noteq> 0 \<Longrightarrow> buf \<noteq> [] \<Longrightarrow> length (drop (unat (n :: usize)) buf) < length buf"
  using unat_gt_0 [of n] by (cases buf) auto

text \<open>\<open>write_all\<close>.  \<open>None\<close> is the panic of the slice \<open>&buf[n..]\<close> when the kernel claims more than it was given.\<close>

function write_all :: "'k fs_kernel \<Rightarrow> AkashicFile \<Rightarrow> bytes \<Rightarrow> 'k \<Rightarrow> ('k \<times> (FsError, unit) result) option" where
  "write_all K f buf k =
    (if buf = [] then Some (k, Ok ())
     else case fs_write K (file_handle f) buf k of
       (k', Inl e) \<Rightarrow> Some (k', Err e)
     | (k', Inr n) \<Rightarrow>
         if n = 0 then Some (k', Err (Io (SyscallError (- 5))))
         else if length buf < unat n then None
         else write_all K f (drop (unat n) buf) k')"
  by pat_completeness auto
termination
  by (relation "measure (\<lambda>(K, f, buf, k). length buf)")
    (simp_all only: wf_measure in_measure prod.case drop_shrinks not_False_eq_True)

declare write_all.simps [simp del]

definition file_read :: "'k fs_kernel \<Rightarrow> AkashicFile \<Rightarrow> bytes \<Rightarrow> 'k \<Rightarrow> 'k \<times> bytes \<times> (FsError, usize) result" where
  "file_read K f buf k = fs_read K (file_handle f) buf k"

definition file_write :: "'k fs_kernel \<Rightarrow> AkashicFile \<Rightarrow> bytes \<Rightarrow> 'k \<Rightarrow> 'k \<times> (FsError, usize) result" where
  "file_write K f buf k = fs_write K (file_handle f) buf k"

definition file_seek :: "'k fs_kernel \<Rightarrow> AkashicFile \<Rightarrow> i64 \<Rightarrow> u32 \<Rightarrow> 'k \<Rightarrow> 'k \<times> (FsError, u64) result" where
  "file_seek K f offset whence k = fs_seek K (file_handle f) offset whence k"

definition file_rewind :: "'k fs_kernel \<Rightarrow> AkashicFile \<Rightarrow> 'k \<Rightarrow> 'k \<times> (FsError, unit) result" where
  "file_rewind K f k =
    (case fs_seek K (file_handle f) 0 FROM_START k of (k', res) \<Rightarrow> (k', and_then res (\<lambda>_. Ok ())))"

definition file_drop :: "'k fs_kernel \<Rightarrow> AkashicFile \<Rightarrow> 'k \<Rightarrow> 'k" where
  "file_drop K f k = fst (fs_close K (file_handle f) k)"

record AkashicDir =
  dir_handle :: AkashicHandle
  dir_done :: bool

definition dir_open :: "'k fs_kernel \<Rightarrow> bytes \<Rightarrow> 'k \<Rightarrow> 'k \<times> (FsError, AkashicDir) result" where
  "dir_open K path k =
    (case fs_open K path READ_INTENT k of (k', res) \<Rightarrow>
      (k', and_then res (\<lambda>h. Ok \<lparr>dir_handle = h, dir_done = False\<rparr>)))"

definition dir_drop :: "'k fs_kernel \<Rightarrow> AkashicDir \<Rightarrow> 'k \<Rightarrow> 'k" where
  "dir_drop K d k = fst (fs_close K (dir_handle d) k)"

definition next_entry :: "'k fs_kernel \<Rightarrow> AkashicDir \<Rightarrow> 'k \<Rightarrow> 'k \<times> AkashicDir \<times> (FsError, Dirent option) result" where
  "next_entry K d k =
    (if dir_done d then (k, d, Ok None)
     else case k_readdir K (raw_handle (dir_handle d)) raw_dirent_zeroed k of (k', rax, raw) \<Rightarrow>
       (case syscall_decode rax of
          Inl e \<Rightarrow> (k', d, Err (fs_error e))
        | Inr n \<Rightarrow> if n = 0 then (k', d\<lparr>dir_done := True\<rparr>, Ok None)
                  else (k', d, Ok (Some (dirent_from_raw raw)))))"

section \<open>Complete writes\<close>

text \<open>
  The documented contract of the write call: a non-negative result is the number of bytes taken from
  the front of the buffer, at most all of them, and these bytes are appended to what the handle has
  received; an error takes nothing.
\<close>

definition append_kernel :: "'k fs_kernel \<Rightarrow> ('k \<Rightarrow> usize \<Rightarrow> bytes) \<Rightarrow> bool" where
  "append_kernel K received \<longleftrightarrow>
    (\<forall>h buf k k' rax. k_write K h buf k = (k', rax) \<longrightarrow>
       (if sint rax < 0 then received k' h = received k h
        else unat rax \<le> length buf \<and> received k' h = received k h @ take (unat rax) buf))"

lemma fs_result_Ok: "fs_result rax = Ok n \<longleftrightarrow> n = rax \<and> 0 \<le> sint rax"
  by (simp add: fs_result_def syscall_decode_Ok_iff)

lemma fs_result_Err: "fs_result rax = Err e \<Longrightarrow> sint rax < 0"
  by (auto simp: fs_result_def syscall_decode_def split: if_splits)

lemma fs_write_append:
  assumes K: "append_kernel K received" and w: "fs_write K h buf k = (k', res)"
  shows "res = Ok n \<Longrightarrow> unat n \<le> length buf \<and> received k' (raw_handle h) = received k (raw_handle h) @ take (unat n) buf"
    and "res = Err e \<Longrightarrow> received k' (raw_handle h) = received k (raw_handle h)"
proof -
  obtain rax where kw: "k_write K (raw_handle h) buf k = (k', rax)" and res: "res = fs_result rax"
    using w by (auto simp: fs_write_def split: prod.splits)
  have law: "if sint rax < 0 then received k' (raw_handle h) = received k (raw_handle h)
     else unat rax \<le> length buf \<and> received k' (raw_handle h) = received k (raw_handle h) @ take (unat rax) buf"
    using K kw unfolding append_kernel_def by blast
  show "res = Ok n \<Longrightarrow> unat n \<le> length buf \<and> received k' (raw_handle h) = received k (raw_handle h) @ take (unat n) buf"
    using law res by (auto simp: fs_result_Ok)
  show "res = Err e \<Longrightarrow> received k' (raw_handle h) = received k (raw_handle h)"
    using law res fs_result_Err by (metis)
qed

text \<open>One partial write followed by what the rest of the loop achieves.\<close>

lemma partial_write_compose:
  assumes "before1 = before @ take n buf" "n \<le> length buf"
    and "case res of Inr (_ :: unit) \<Rightarrow> after = before1 @ drop n buf
      | Inl (_ :: FsError) \<Rightarrow> (\<exists>m < length (drop n buf). after = before1 @ take m (drop n buf))"
  shows "case res of Inr _ \<Rightarrow> after = before @ buf | Inl _ \<Rightarrow> (\<exists>m < length buf. after = before @ take m buf)"
proof (cases res)
  case (Inl e)
  with assms obtain m where "m < length buf - n" "after = before @ take n buf @ take m (drop n buf)" by auto
  then have "n + m < length buf" "after = before @ take (n + m) buf" by (simp_all add: take_add)
  with Inl show ?thesis by auto
qed (use assms in simp)


text \<open>A kernel that takes at most two bytes at a time.\<close>

definition trickle_kernel :: "bytes fs_kernel" where
  "trickle_kernel = \<lparr>k_open = (\<lambda>_ _ k. (k, 3)), k_close = (\<lambda>_ k. (k, 0)), k_read = (\<lambda>_ _ k. (k, 0, [])),
     k_write = (\<lambda>_ buf k. (k @ take 2 buf, of_nat (min 2 (length buf)))), k_seek = (\<lambda>_ _ _ k. (k, 0)),
     k_stat = (\<lambda>_ raw k. (k, 0, raw)), k_mkdir = (\<lambda>_ k. (k, 0)), k_unlink = (\<lambda>_ k. (k, 0)),
     k_rename = (\<lambda>_ _ k. (k, 0)), k_readdir = (\<lambda>_ raw k. (k, 0, raw))\<rparr>"

lemma trickle_append: "append_kernel trickle_kernel (\<lambda>k _. k)"
proof -
  have small: "unat (of_nat (min 2 n) :: usize) = min 2 n \<and> 0 \<le> sint (of_nat (min 2 n) :: usize)" for n
  proof -
    have "min 2 n = 0 \<or> min 2 n = 1 \<or> min 2 n = (2 :: nat)" by linarith
    then show ?thesis by (elim disjE) simp_all
  qed
  then have nn: "\<not> sint (of_nat (min 2 n) :: usize) < 0" for n by (simp only: not_less)
  have tk: "take (min 2 (length buf)) buf = take 2 buf" for buf :: bytes by (simp add: min_def)
  show ?thesis using small by (simp add: append_kernel_def trickle_kernel_def nn tk)
qed


text \<open>A directory cursor that has reported its end answers from then on without calling the kernel.\<close>

lemma next_entry_done:
  assumes "next_entry K d k = (k', d', Ok None)"
  shows "next_entry K d' k'' = (k'', d', Ok None)"
  using assms by (auto simp: next_entry_def split: if_splits prod.splits sum.splits)

end
