(* ===== verification/Thermal.thy ===== *)
theory Thermal
  imports Syscall Repr_C
begin

text \<open>
  Thermal pressure awareness, \<open>thermogenesis.rs\<close>, with the measured sections of \<open>process/tachyon.rs\<close>
  it uses and the counter of \<open>time.rs\<close>.  The shared page is a record of the values its atomics hold when
  they are read.  What the hardware counter shows is a parameter: each reading is an argument.  A
  yield to the kernel is an effect, the hint that is passed.
\<close>

section \<open>Zones and hints\<close>

datatype ThermalZone = Cold | Warm | Hot | Critical

definition zone_from_raw :: "u8 \<Rightarrow> ThermalZone" where
  "zone_from_raw n = (if n = 1 then Warm else if n = 2 then Hot else if n = 3 then Critical else Cold)"

fun zone_code :: "ThermalZone \<Rightarrow> u8" where
  "zone_code Cold = 0" | "zone_code Warm = 1" | "zone_code Hot = 2" | "zone_code Critical = 3"

definition is_throttled :: "ThermalZone \<Rightarrow> bool" where "is_throttled z \<longleftrightarrow> 2 \<le> zone_code z"

instantiation ThermalZone :: linorder
begin
definition less_eq_ThermalZone :: "ThermalZone \<Rightarrow> ThermalZone \<Rightarrow> bool" where
  "less_eq_ThermalZone a b \<longleftrightarrow> zone_code a \<le> zone_code b"
definition less_ThermalZone :: "ThermalZone \<Rightarrow> ThermalZone \<Rightarrow> bool" where
  "less_ThermalZone a b \<longleftrightarrow> zone_code a < zone_code b"
instance
proof
  fix x y z :: ThermalZone
  show "x < y \<longleftrightarrow> x \<le> y \<and> \<not> y \<le> x" by (auto simp: less_eq_ThermalZone_def less_ThermalZone_def)
  show "x \<le> x" by (simp add: less_eq_ThermalZone_def)
  show "x \<le> y \<Longrightarrow> y \<le> z \<Longrightarrow> x \<le> z" by (simp add: less_eq_ThermalZone_def)
  show "x \<le> y \<Longrightarrow> y \<le> x \<Longrightarrow> x = y"
    by (cases x; cases y) (simp_all add: less_eq_ThermalZone_def word_le_nat_alt)
  show "x \<le> y \<or> y \<le> x" by (auto simp: less_eq_ThermalZone_def)
qed
end

datatype ThrottleHint = Full | Half | Quarter | Minimal

definition hint_from_raw :: "u8 \<Rightarrow> ThrottleHint" where
  "hint_from_raw n = (if n = 1 then Half else if n = 2 then Quarter else if n = 3 then Minimal else Full)"

fun work_fraction_millipct :: "ThrottleHint \<Rightarrow> u32" where
  "work_fraction_millipct Full = 1000" | "work_fraction_millipct Half = 500"
| "work_fraction_millipct Quarter = 250" | "work_fraction_millipct Minimal = 100"

fun yield_pressure :: "ThrottleHint \<Rightarrow> u64" where
  "yield_pressure Full = 0" | "yield_pressure Half = 1000"
| "yield_pressure Quarter = 5000" | "yield_pressure Minimal = 20000"

section \<open>The page\<close>

record ThermalPage =
  temperature_zone :: u8
  throttle_hint :: u8
  kernel_epoch :: u8
  tsc_frequency_mhz :: u32
  cpu_budget_ticks :: u64
  cpu_used_ticks :: u64
  thermal_ticks :: u64

definition ThermalPage_layout :: layout where
  "ThermalPage_layout = repr_c_align 64 [U8, U8, U8, U8, U32, U64, U64, U64, array_layout 32 U8]"

definition thermal_zeroed :: ThermalPage where
  "thermal_zeroed = \<lparr>temperature_zone = 0, throttle_hint = 0, kernel_epoch = 0, tsc_frequency_mhz = 0,
     cpu_budget_ticks = 0, cpu_used_ticks = 0, thermal_ticks = 0\<rparr>"

definition page_zone :: "ThermalPage \<Rightarrow> ThermalZone" where "page_zone p = zone_from_raw (temperature_zone p)"
definition page_hint :: "ThermalPage \<Rightarrow> ThrottleHint" where "page_hint p = hint_from_raw (throttle_hint p)"
definition budget_remaining :: "ThermalPage \<Rightarrow> u64" where
  "budget_remaining p = saturating_sub (cpu_budget_ticks p) (cpu_used_ticks p)"

definition is_thermally_stressed :: "ThermalPage \<Rightarrow> bool" where
  "is_thermally_stressed p = is_throttled (page_zone p)"

text \<open>The product is a \<open>usize\<close> product: it wraps in a release build (and panics in a debug build).\<close>

definition throttled_batch_size :: "ThermalPage \<Rightarrow> usize \<Rightarrow> usize" where
  "throttled_batch_size p base = max (base * ucast (work_fraction_millipct (page_hint p)) div 1000) 1"

section \<open>The counter\<close>

text \<open>\<open>read_counter\<close> on x86-64 joins the halves \<open>rdtsc\<close> leaves in \<open>eax\<close> and \<open>edx\<close>; elsewhere it counts its calls.\<close>

definition read_counter_rdtsc :: "u32 \<Rightarrow> u32 \<Rightarrow> u64" where
  "read_counter_rdtsc low high = push_bit 32 (ucast high) OR ucast low"

definition read_counter_fallback :: "u64 \<Rightarrow> u64 \<times> u64" where
  "read_counter_fallback counter = (counter + 1, counter)"

section \<open>Measured sections\<close>

definition DEFAULT_EVENT_HORIZON_TICKS :: u64 where "DEFAULT_EVENT_HORIZON_TICKS = 50000"

record 'a EventHorizonOutcome =
  outcome_value :: 'a
  elapsed_ticks :: u64
  yield_result :: "(SyscallError, unit) result option"

text \<open>\<open>yield_retrocausally\<close> forwards to \<open>process::yield_with_hint\<close>; \<open>yield\<close> is the kernel's answer to a hint.\<close>

definition yield_retrocausally :: "(u64 \<Rightarrow> isize) \<Rightarrow> u64 \<Rightarrow> (SyscallError, unit) result" where
  "yield_retrocausally yield unfinished_work = and_then (syscall_decode (yield unfinished_work)) (\<lambda>_. Ok ())"

definition execute_within_event_horizon ::
  "(u64 \<Rightarrow> isize) \<Rightarrow> u64 \<Rightarrow> u64 \<Rightarrow> u64 \<Rightarrow> 'a \<Rightarrow> 'a EventHorizonOutcome" where
  "execute_within_event_horizon yield limit start finish v =
    (let elapsed = saturating_sub finish start in
     \<lparr>outcome_value = v, elapsed_ticks = elapsed,
      yield_result = (if limit < elapsed then Some (yield_retrocausally yield elapsed) else None)\<rparr>)"

definition execute_with_default_horizon :: "(u64 \<Rightarrow> isize) \<Rightarrow> u64 \<Rightarrow> u64 \<Rightarrow> 'a \<Rightarrow> 'a EventHorizonOutcome" where
  "execute_with_default_horizon yield start finish v =
    execute_within_event_horizon yield DEFAULT_EVENT_HORIZON_TICKS start finish v"

record ThermalGuard =
  guard_hint :: ThrottleHint
  guard_start :: u64

definition guard_enter :: "ThermalPage \<Rightarrow> u64 \<Rightarrow> ThermalGuard" where
  "guard_enter p counter = \<lparr>guard_hint = page_hint p, guard_start = counter\<rparr>"

definition budget_exhausted :: "ThermalPage \<Rightarrow> bool" where
  "budget_exhausted p \<longleftrightarrow> budget_remaining p = 0"

text \<open>Dropping the guard: the hint it yields with, if it yields.\<close>

definition guard_drop :: "ThermalGuard \<Rightarrow> u64 \<Rightarrow> u64 option" where
  "guard_drop g counter =
    (let elapsed = saturating_sub counter (guard_start g); pressure = yield_pressure (guard_hint g) in
     if 0 < pressure \<or> DEFAULT_EVENT_HORIZON_TICKS < elapsed then Some (max elapsed pressure) else None)"

section \<open>Zone transitions\<close>

text \<open>The handler is a function pointer: \<open>None\<close> the default one, \<open>Some h\<close> one the client installed.\<close>

record 'h ThermalPolicy =
  last_zone :: ThermalZone
  last_epoch :: u8
  zone_handler :: "'h option"

definition policy_new :: "ThermalPage \<Rightarrow> 'h ThermalPolicy" where
  "policy_new p = \<lparr>last_zone = page_zone p, last_epoch = kernel_epoch p, zone_handler = None\<rparr>"

definition set_handler :: "'h \<Rightarrow> 'h ThermalPolicy \<Rightarrow> 'h ThermalPolicy" where
  "set_handler h pol = pol\<lparr>zone_handler := Some h\<rparr>"

text \<open>The call of the handler is returned: which one, with the old and the new zone.\<close>

definition check_transition ::
  "'h ThermalPolicy \<Rightarrow> ThermalPage \<Rightarrow> 'h ThermalPolicy \<times> ('h option \<times> ThermalZone \<times> ThermalZone) option" where
  "check_transition pol p =
    (if kernel_epoch p = last_epoch pol then (pol, None)
     else
       let pol1 = pol\<lparr>last_epoch := kernel_epoch p\<rparr>; new_zone = page_zone p in
       if new_zone \<noteq> last_zone pol1
       then (pol1\<lparr>last_zone := new_zone\<rparr>, Some (zone_handler pol1, last_zone pol1, new_zone))
       else (pol1, None))"

text \<open>The default handler: the hint it yields with.\<close>

definition default_zone_handler :: "ThermalZone \<Rightarrow> ThermalZone \<Rightarrow> u64 option" where
  "default_zone_handler old new = (if new = Critical then Some 100000 else None)"

section \<open>Facts\<close>

lemma read_counter_rdtsc_value: "unat (read_counter_rdtsc low high) = unat high * 2 ^ 32 + unat low"
proof -
  have lo: "unat (ucast low :: u64) = unat low" and hi: "unat (ucast high :: u64) = unat high"
    by (simp_all add: unat_ucast_up)
  have b: "unat low < 2 ^ 32" "unat high < 2 ^ 32"
    using unsigned_less [of low, where ?'a = nat] unsigned_less [of high, where ?'a = nat] by simp_all
  have "push_bit 32 (ucast high :: u64) AND ucast low = 0"
    by (rule bit_word_eqI) (auto simp: bit_and_iff bit_push_bit_iff bit_ucast_iff dest: bit_imp_le_length)
  then have "read_counter_rdtsc low high = push_bit 32 (ucast high) + ucast low"
    unfolding read_counter_rdtsc_def by (simp add: disjunctive_add_eq_or)
  moreover have "unat (push_bit 32 (ucast high :: u64)) = unat high * 2 ^ 32"
    using b(2) by (simp add: push_bit_eq_mult unat_word_ariths hi)
  moreover have "unat high * 2 ^ 32 + unat low < 2 ^ 64" using b by simp
  ultimately show ?thesis by (simp add: unat_word_ariths lo)
qed

text \<open>The fallback reads 0, 1, 2, \<dots> until it wraps.\<close>

lemma read_counter_fallback_nth: "(snd \<circ> read_counter_fallback) (((fst \<circ> read_counter_fallback) ^^ n) 0) = of_nat n"
  by (induction n) (simp_all add: read_counter_fallback_def)

lemma ThermalPage_size: "ThermalPage_layout = (64, 64)"
  by code_simp

lemma zone_code_roundtrip: "zone_from_raw (zone_code z) = z"
  by (cases z) (simp_all add: zone_from_raw_def)

lemma stressed_iff: "is_thermally_stressed p \<longleftrightarrow> temperature_zone p = 2 \<or> temperature_zone p = 3"
  by (simp add: is_thermally_stressed_def is_throttled_def page_zone_def zone_from_raw_def word_le_nat_alt)

text \<open>Without overflow a batch is never empty, never larger than the base, and full under no pressure.\<close>

lemma work_fraction_bounds: "0 < unat (work_fraction_millipct h)" "unat (work_fraction_millipct h) \<le> 1000"
  by (cases h; simp)+

lemma throttled_batch_bounds:
  assumes "unat base * 1000 < 2 ^ 64" "base \<noteq> 0"
  shows "unat (throttled_batch_size p base) = max (unat base * unat (work_fraction_millipct (page_hint p)) div 1000) 1"
    and "1 \<le> throttled_batch_size p base" and "throttled_batch_size p base \<le> base"
proof -
  let ?f = "unat (work_fraction_millipct (page_hint p))"
  have uf: "unat (ucast (work_fraction_millipct (page_hint p)) :: usize) = ?f" by (rule unat_ucast_up) simp
  have "unat base * ?f \<le> unat base * 1000" using work_fraction_bounds by (intro mult_le_mono2) simp
  with assms(1) have "unat base * ?f < 2 ^ 64" by linarith
  then have "unat (base * ucast (work_fraction_millipct (page_hint p))) = unat base * ?f"
    by (simp add: unat_word_ariths uf)
  then show eq: "unat (throttled_batch_size p base) = max (unat base * ?f div 1000) 1"
    by (simp add: throttled_batch_size_def max_def unat_div word_le_nat_alt)
  show "1 \<le> throttled_batch_size p base" by (simp add: throttled_batch_size_def)
  have "unat base * ?f div 1000 \<le> unat base"
    using \<open>unat base * ?f \<le> unat base * 1000\<close> by (metis div_le_mono div_mult_self_is_m zero_less_numeral)
  moreover have "1 \<le> unat base" using assms(2) by (metis One_nat_def Suc_leI unat_gt_0)
  ultimately show "throttled_batch_size p base \<le> base" by (simp add: word_le_nat_alt eq)
qed

text \<open>With overflow the batch collapses although no pressure is signalled.\<close>

lemma throttled_batch_overflow: "throttled_batch_size thermal_zeroed (2 ^ 63) = 1"
  by code_simp

text \<open>The handler runs exactly when both the epoch and the zone differ from those last seen.\<close>

lemma check_transition_fires:
  "snd (check_transition pol p) =
    (if kernel_epoch p \<noteq> last_epoch pol \<and> page_zone p \<noteq> last_zone pol
     then Some (zone_handler pol, last_zone pol, page_zone p) else None)"
  by (simp add: check_transition_def Let_def)

text \<open>A second check of the same page never fires.\<close>

lemma check_transition_once: "check_transition (fst (check_transition pol p)) p = (fst (check_transition pol p), None)"
  by (simp add: check_transition_def Let_def)

fun run_policy :: "'h ThermalPolicy \<Rightarrow> ThermalPage list \<Rightarrow> 'h ThermalPolicy \<times> (ThermalZone \<times> ThermalZone) list" where
  "run_policy pol [] = (pol, [])"
| "run_policy pol (p # ps) =
    (case check_transition pol p of (pol1, ev) \<Rightarrow>
      case run_policy pol1 ps of (pol2, evs) \<Rightarrow> (pol2, (case ev of None \<Rightarrow> evs | Some (_, e) \<Rightarrow> e # evs)))"

fun zone_chain :: "ThermalZone \<Rightarrow> (ThermalZone \<times> ThermalZone) list \<Rightarrow> ThermalZone \<Rightarrow> bool" where
  "zone_chain z [] z' \<longleftrightarrow> z = z'"
| "zone_chain z ((a, b) # es) z' \<longleftrightarrow> a = z \<and> a \<noteq> b \<and> zone_chain b es z'"

text \<open>Over any sequence of checks the handler sees an unbroken chain of real changes.\<close>

lemma run_policy_chain: "run_policy pol ps = (pol', evs) \<Longrightarrow> zone_chain (last_zone pol) evs (last_zone pol')"
proof (induction pol ps arbitrary: evs rule: run_policy.induct)
  case (2 pol p ps)
  obtain pol1 ev where c: "check_transition pol p = (pol1, ev)" by fastforce
  obtain pol2 evs2 where r: "run_policy pol1 ps = (pol2, evs2)" by fastforce
  from 2 c r have IH: "zone_chain (last_zone pol1) evs2 (last_zone pol')" by auto
  have "(case snd (check_transition pol p) of None \<Rightarrow> last_zone (fst (check_transition pol p)) = last_zone pol
      | Some (_, a, b) \<Rightarrow> a = last_zone pol \<and> b = last_zone (fst (check_transition pol p)) \<and> a \<noteq> b)"
    by (simp add: check_transition_def Let_def)
  then have "(case ev of None \<Rightarrow> last_zone pol1 = last_zone pol
      | Some (_, a, b) \<Rightarrow> a = last_zone pol \<and> b = last_zone pol1 \<and> a \<noteq> b)"
    unfolding c fst_conv snd_conv .
  with IH 2(2) c r show ?case by (cases ev) auto
qed simp

end
