(* ===== verification/Storage_Drive.thy ===== *)
theory Storage_Drive
  imports Slope_Prelude Repr_C
begin

text \<open>
  Block storage over pinned DMA leases, \<open>storage.rs\<close>.  The NVMe backend is client code behind a trait:
  its submissions are a parameter, a function from the capability, the lease and the block number
  to the backend's new state and its answer.  The codec trait has no code in this repository.
\<close>

definition HOLOGRAM_BLOCK_BYTES :: nat where "HOLOGRAM_BLOCK_BYTES = 4096"
definition MAXIMUM_RECORD_BLOCKS :: nat where "MAXIMUM_RECORD_BLOCKS = 64"

record HologramBlock =
  interference_pattern :: bytes

definition hologram_zeroed :: HologramBlock where
  "hologram_zeroed = \<lparr>interference_pattern = replicate HOLOGRAM_BLOCK_BYTES 0\<rparr>"

definition HologramBlock_layout :: layout where
  "HologramBlock_layout = repr_c_align 4096 [array_layout HOLOGRAM_BLOCK_BYTES U8]"

lemma HologramBlock_one_page: "HologramBlock_layout = (4096, 4096)"
  by (simp add: HologramBlock_layout_def HOLOGRAM_BLOCK_BYTES_def layout_defs)

datatype StorageError = InvalidRecord | OutputTooSmall | CodecFailure | CapabilityRevoked | QueueFull | BackendUnavailable

datatype StorageCapability = StorageCapability u64

definition storage_capability_from_kernel :: "u64 \<Rightarrow> StorageCapability option" where
  "storage_capability_from_kernel raw = (if raw = 0 then None else Some (StorageCapability raw))"

record DmaBlockLease =
  lease_raw :: u64
  lease_gen :: u32

definition block_lease_from_kernel :: "u64 \<Rightarrow> u32 \<Rightarrow> DmaBlockLease option" where
  "block_lease_from_kernel raw generation =
    (if raw = 0 \<or> generation = 0 then None else Some \<lparr>lease_raw = raw, lease_gen = generation\<rparr>)"

datatype StorageCompletion = StorageCompletion u64

type_synonym 'b submit = "StorageCapability \<Rightarrow> DmaBlockLease \<Rightarrow> u64 \<Rightarrow> 'b \<Rightarrow> 'b \<times> (StorageError, StorageCompletion) result"

record 'b AkashicDrive =
  drive_capability :: StorageCapability
  drive_backend :: 'b

definition drive_new :: "StorageCapability \<Rightarrow> 'b \<Rightarrow> 'b AkashicDrive" where
  "drive_new c b = \<lparr>drive_capability = c, drive_backend = b\<rparr>"

text \<open>The submission loop shared by both directions: the leases that are left, the index of the first.\<close>

fun submit_blocks ::
  "'b submit \<Rightarrow> StorageCapability \<Rightarrow> u64 \<Rightarrow> DmaBlockLease list \<Rightarrow> nat \<Rightarrow> 'b \<Rightarrow> StorageCompletion list
    \<Rightarrow> 'b \<times> StorageCompletion list \<times> (StorageError, unit) result" where
  "submit_blocks submit c first [] index b completions = (b, completions, Ok ())"
| "submit_blocks submit c first (block # blocks) index b completions =
    (case checked_add first (of_nat index) of
       None \<Rightarrow> (b, completions, Err InvalidRecord)
     | Some lba \<Rightarrow>
         (case submit c block lba b of
            (b', Inl e) \<Rightarrow> (b', completions, Err e)
          | (b', Inr done) \<Rightarrow> submit_blocks submit c first blocks (index + 1) b' (completions[index := done])))"

definition transfer_hologram ::
  "'b submit \<Rightarrow> 'b AkashicDrive \<Rightarrow> u64 \<Rightarrow> DmaBlockLease list \<Rightarrow> StorageCompletion list
    \<Rightarrow> 'b AkashicDrive \<times> StorageCompletion list \<times> (StorageError, nat) result" where
  "transfer_hologram submit d first blocks completions =
    (if blocks = [] \<or> length blocks > MAXIMUM_RECORD_BLOCKS \<or> length completions < length blocks
     then (d, completions, Err InvalidRecord)
     else case submit_blocks submit (drive_capability d) first blocks 0 (drive_backend d) completions of
       (b, cs, res) \<Rightarrow> (d\<lparr>drive_backend := b\<rparr>, cs, and_then res (\<lambda>_. Ok (length blocks))))"

definition inscribe_hologram where "inscribe_hologram submit_write = transfer_hologram submit_write"
definition recall_hologram where "recall_hologram submit_read = transfer_hologram submit_read"

section \<open>The blocks are submitted in order, to consecutive addresses\<close>

text \<open>A backend that records what was submitted, over an arbitrary one.\<close>

definition logged :: "'b submit \<Rightarrow> ('b \<times> (StorageCapability \<times> DmaBlockLease \<times> u64) list) submit" where
  "logged submit c block lba b =
    (case submit c block lba (fst b) of (b', res) \<Rightarrow> ((b', snd b @ [(c, block, lba)]), res))"

definition expected_log :: "StorageCapability \<Rightarrow> u64 \<Rightarrow> DmaBlockLease list \<Rightarrow> nat \<Rightarrow> (StorageCapability \<times> DmaBlockLease \<times> u64) list" where
  "expected_log c first blocks index = map (\<lambda>i. (c, blocks ! i, first + of_nat (index + i))) [0..<length blocks]"

lemma expected_log_Cons:
  "expected_log c first (b # bs) index = (c, b, first + of_nat index) # expected_log c first bs (index + 1)"
  by (simp add: expected_log_def map_upt_Suc comp_def del: upt_Suc)

lemma submit_blocks_log:
  assumes "submit_blocks (logged submit) c first blocks index b cs = (b', cs', res)"
  shows "\<exists>n \<le> length blocks. snd b' = snd b @ take n (expected_log c first blocks index)
    \<and> length cs' = length cs \<and> (is_ok res \<longrightarrow> n = length blocks)"
  using assms
proof (induction blocks arbitrary: index b cs)
  case (Cons block blocks)
  show ?case
  proof (cases "checked_add first (of_nat index)")
    case None
    with Cons.prems show ?thesis by (auto intro: exI [of _ 0])
  next
    case (Some lba)
    then have lba: "lba = first + of_nat index" by (auto simp: checked_add_def split: if_splits)
    obtain b1 r where "submit c block lba (fst b) = (b1, r)" by fastforce
    then have s: "logged submit c block lba b = ((b1, snd b @ [(c, block, lba)]), r)" by (simp add: logged_def)
    show ?thesis
    proof (cases r)
      case (Inl e)
      with Cons.prems Some s lba show ?thesis
        by (auto simp: expected_log_Cons intro!: exI [of _ "Suc 0"])
    next
      case (Inr d)
      with Cons.prems Some s have "submit_blocks (logged submit) c first blocks (index + 1)
          (b1, snd b @ [(c, block, lba)]) (cs[index := d]) = (b', cs', res)"
        by simp
      from Cons.IH [OF this] obtain n where "n \<le> length blocks"
        "snd b' = snd b @ (c, block, lba) # take n (expected_log c first blocks (index + 1))"
        "length cs' = length cs" "is_ok res \<longrightarrow> n = length blocks" by auto
      then show ?thesis by (intro exI [of _ "Suc n"]) (simp add: expected_log_Cons lba)
    qed
  qed
qed (simp add: expected_log_def)

text \<open>
  A transfer submits a prefix of the record, each block with the drive's own capability and to the
  address \<open>first + index\<close>; on success it is the whole record, and an invalid record submits nothing.
\<close>

lemma transfer_submits_in_order:
  assumes "transfer_hologram (logged submit) \<lparr>drive_capability = c, drive_backend = (b, [])\<rparr> first blocks cs = (d', cs', res)"
  shows "\<exists>n \<le> length blocks. snd (drive_backend d') = take n (expected_log c first blocks 0)
    \<and> length cs' = length cs
    \<and> (case res of Inr k \<Rightarrow> k = length blocks \<and> n = k \<and> 0 < k \<and> k \<le> MAXIMUM_RECORD_BLOCKS | Inl _ \<Rightarrow> True)"
proof (cases "blocks = [] \<or> length blocks > MAXIMUM_RECORD_BLOCKS \<or> length cs < length blocks")
  case True
  with assms show ?thesis by (auto simp: transfer_hologram_def)
next
  case False
  obtain b1 cs1 r where s: "submit_blocks (logged submit) c first blocks 0 (b, []) cs = (b1, cs1, r)"
    by (metis prod_cases3)
  from submit_blocks_log [OF this] obtain n where n: "n \<le> length blocks" "snd b1 = take n (expected_log c first blocks 0)"
    "length cs1 = length cs" "is_ok r \<longrightarrow> n = length blocks" by auto
  have "d' = \<lparr>drive_capability = c, drive_backend = b1\<rparr>" "cs' = cs1" "res = and_then r (\<lambda>_. Ok (length blocks))"
    using assms False s by (auto simp: transfer_hologram_def)
  with n False show ?thesis by (cases r) auto
qed

end
