(* ===== verification/Discharge.thy ===== *)
theory Discharge
  imports Syscall Repr_C
begin

text \<open>
  Typed notifications, \<open>signal.rs\<close>.  A handler is client code: a function from the event to its effect.
\<close>

definition MAX_DISCHARGE_CLASSES :: nat where "MAX_DISCHARGE_CLASSES = 256"
definition DISCHARGE_PAYLOAD_BYTES :: nat where "DISCHARGE_PAYLOAD_BYTES = 48"

datatype DischargeClass =
    Reserved | TerminationRequest | FaultNotification | ResourcePressure | ThermalThrottle
  | PeerDisconnected | CapabilityRevokedClass | UserDefined u8

definition discharge_from_raw :: "u8 \<Rightarrow> DischargeClass" where
  "discharge_from_raw n =
    (if n = 0 then Reserved else if n = 1 then TerminationRequest else if n = 2 then FaultNotification
     else if n = 3 then ResourcePressure else if n = 4 then ThermalThrottle
     else if n = 5 then PeerDisconnected else if n = 6 then CapabilityRevokedClass else UserDefined n)"

fun discharge_to_raw :: "DischargeClass \<Rightarrow> u8" where
  "discharge_to_raw Reserved = 0"
| "discharge_to_raw TerminationRequest = 1"
| "discharge_to_raw FaultNotification = 2"
| "discharge_to_raw ResourcePressure = 3"
| "discharge_to_raw ThermalThrottle = 4"
| "discharge_to_raw PeerDisconnected = 5"
| "discharge_to_raw CapabilityRevokedClass = 6"
| "discharge_to_raw (UserDefined n) = n"

record DischargeEvent =
  ev_class :: u8
  ev_payload :: bytes
  ev_sender_pid :: u64

definition DischargeEvent_layout :: layout where
  "DischargeEvent_layout = repr_c [U8, array_layout 7 U8, array_layout DISCHARGE_PAYLOAD_BYTES U8, U64]"

text \<open>The effects a handler may have: \<open>Exits\<close> is the exit call of the default handler.\<close>

datatype 'x effect = Ignored | Exits | Custom 'x

type_synonym 'x handler = "DischargeEvent \<Rightarrow> 'x effect"

definition default_handler :: "'x handler" where
  "default_handler event = (if ev_class event = 1 then Exits else Ignored)"

record 'x CoronalMatrix =
  handlers :: "'x handler list"

definition matrix_new :: "'x CoronalMatrix" where
  "matrix_new = \<lparr>handlers = replicate MAX_DISCHARGE_CLASSES default_handler\<rparr>"

definition matrix_set :: "'x CoronalMatrix \<Rightarrow> DischargeClass \<Rightarrow> 'x handler \<Rightarrow> 'x CoronalMatrix" where
  "matrix_set m c h = m\<lparr>handlers := (handlers m)[unat (discharge_to_raw c) := h]\<rparr>"

definition matrix_clear :: "'x CoronalMatrix \<Rightarrow> DischargeClass \<Rightarrow> 'x CoronalMatrix" where
  "matrix_clear m c = m\<lparr>handlers := (handlers m)[unat (discharge_to_raw c) := default_handler]\<rparr>"

definition dispatch :: "'x CoronalMatrix \<Rightarrow> 'x handler" where
  "dispatch m event = (handlers m ! unat (ev_class event)) event"

definition matrix_install :: "isize \<Rightarrow> (SyscallError, unit) result" where
  "matrix_install rax = and_then (syscall_decode rax) (\<lambda>_. Ok ())"

text \<open>The trampoline: a null pointer is \<open>None\<close>.\<close>

definition coronal_trampoline :: "'x CoronalMatrix option \<Rightarrow> DischargeEvent option \<Rightarrow> 'x effect" where
  "coronal_trampoline matrix event =
    (case (matrix, event) of (Some m, Some e) \<Rightarrow> dispatch m e | _ \<Rightarrow> Ignored)"

section \<open>Facts\<close>

lemma discharge_roundtrip: "discharge_to_raw (discharge_from_raw n) = n"
  by (simp add: discharge_from_raw_def)

text \<open>Decoding an encoded class gives it back except for user classes numbered like a built-in one.\<close>

lemma discharge_decode:
  "discharge_from_raw (discharge_to_raw c) = c \<longleftrightarrow> (case c of UserDefined n \<Rightarrow> 7 \<le> n | _ \<Rightarrow> True)"
proof (cases c)
  case (UserDefined n)
  have "(n = 0 \<or> n = 1 \<or> n = 2 \<or> n = 3 \<or> n = 4 \<or> n = 5 \<or> n = 6) \<longleftrightarrow> \<not> 7 \<le> n"
    by (simp add: word_le_nat_alt word_unat_eq_iff [where 'a = 8]) linarith
  with UserDefined show ?thesis by (auto simp: discharge_from_raw_def)
qed (simp_all add: discharge_from_raw_def)

text \<open>A user class below 7 takes over a built-in class: the range is documented, not enforced.\<close>

lemma user_class_aliases: "matrix_set m (UserDefined 1) h = matrix_set m TerminationRequest h"
  by (simp add: matrix_set_def)

definition matrix_wf :: "'x CoronalMatrix \<Rightarrow> bool" where
  "matrix_wf m \<longleftrightarrow> length (handlers m) = MAX_DISCHARGE_CLASSES"

lemma matrix_wf_ops: "matrix_wf matrix_new" "matrix_wf m \<Longrightarrow> matrix_wf (matrix_set m c h)"
  "matrix_wf m \<Longrightarrow> matrix_wf (matrix_clear m c)"
  by (simp_all add: matrix_wf_def matrix_new_def matrix_set_def matrix_clear_def)

lemma class_index: "unat (c :: u8) < MAX_DISCHARGE_CLASSES"
  using unsigned_less [of c, where ?'a = nat] by (simp add: MAX_DISCHARGE_CLASSES_def)

text \<open>Every class has a handler: dispatching never indexes outside the table, and a registration
  changes the routing of its own class only.\<close>

lemma dispatch_set:
  assumes "matrix_wf m"
  shows "dispatch (matrix_set m c h) e = (if ev_class e = discharge_to_raw c then h e else dispatch m e)"
  using assms class_index [of "discharge_to_raw c"]
  by (simp add: dispatch_def matrix_set_def matrix_wf_def nth_list_update word_unat_eq_iff)

lemma dispatch_clear:
  assumes "matrix_wf m"
  shows "dispatch (matrix_clear (matrix_set m c h) c) e =
    (if ev_class e = discharge_to_raw c then default_handler e else dispatch m e)"
  using assms class_index [of "discharge_to_raw c"]
  by (simp add: dispatch_def matrix_set_def matrix_clear_def matrix_wf_def nth_list_update word_unat_eq_iff)

lemma dispatch_new: "dispatch matrix_new e = default_handler e"
  by (simp add: dispatch_def matrix_new_def class_index)

end
