(* ===== verification/Fabric.thy ===== *)
theory Fabric
  imports Syscall Repr_C
begin

text \<open>
  Fibers on caller-provided stacks, \<open>fabric.rs\<close>.  Addresses are \<open>usize\<close> words with the wrap-around of
  a release build; the size of the closure type is a parameter, and so is the kernel's answer.
\<close>

definition MAX_FIBERS :: nat where "MAX_FIBERS = 32"
definition MIN_STACK_BYTES :: nat where "MIN_STACK_BYTES = 4096"
definition OUTCOME_PENDING :: u64 where "OUTCOME_PENDING = - 1"
definition OUTCOME_PANICKED :: u64 where "OUTCOME_PANICKED = - 1 - 1"

definition FiberArgs_layout :: layout where "FiberArgs_layout = repr_c [U64, U64, U64]"

record FabricFiber =
  fiber_outcome :: u64
  fiber_tid :: u64

definition fiber_new :: FabricFiber where
  "fiber_new = \<lparr>fiber_outcome = OUTCOME_PENDING, fiber_tid = 0\<rparr>"

definition try_harvest :: "FabricFiber \<Rightarrow> u64 option" where
  "try_harvest f = (if fiber_outcome f = OUTCOME_PENDING then None else Some (fiber_outcome f))"

text \<open>\<open>run_fiber\<close>: the closure's result is stored before the thread exits.\<close>

definition run_fiber :: "u64 \<Rightarrow> FabricFiber \<Rightarrow> FabricFiber" where
  "run_fiber closure_result f = f\<lparr>fiber_outcome := closure_result\<rparr>"

text \<open>
  \<open>spin_until_done\<close> over the successive states of the fiber, from the \<open>n\<close>-th on: the outcome and when
  it was seen.
\<close>

partial_function (option) spin_until_done :: "(nat \<Rightarrow> FabricFiber) \<Rightarrow> nat \<Rightarrow> (nat \<times> u64) option" where
  "spin_until_done f n = (case try_harvest (f n) of Some v \<Rightarrow> Some (n, v) | None \<Rightarrow> spin_until_done f (n + 1))"

record fiber_frame =
  args_start :: usize
  clos_start :: usize
  stack_top :: usize

text \<open>Where \<open>spawn\<close> puts the arguments and the closure.\<close>

definition carve_frame :: "usize \<Rightarrow> usize \<Rightarrow> usize \<Rightarrow> fiber_frame" where
  "carve_frame base len closure_size =
    (let total_args = of_nat (fst FiberArgs_layout) + closure_size;
         buf_end = base + len;
         start = (buf_end - total_args) AND NOT 15
     in \<lparr>args_start = start, clos_start = start + of_nat (fst FiberArgs_layout), stack_top = start AND NOT 15\<rparr>)"

text \<open>\<open>None\<close> is the failed assertion on the stack length.\<close>

definition fabric_spawn ::
  "(fiber_frame \<Rightarrow> isize) \<Rightarrow> FabricFiber \<Rightarrow> usize \<Rightarrow> usize \<Rightarrow> usize
    \<Rightarrow> (FabricFiber \<times> fiber_frame \<times> (SyscallError, unit) result) option" where
  "fabric_spawn kern f base len closure_size =
    (if unat len < MIN_STACK_BYTES then None
     else
       let f1 = f\<lparr>fiber_outcome := OUTCOME_PENDING\<rparr>;
           frame = carve_frame base len closure_size
       in case syscall_decode (kern frame) of
            Inl e \<Rightarrow> Some (f1, frame, Err e)
          | Inr t \<Rightarrow> Some (f1\<lparr>fiber_tid := t\<rparr>, frame, Ok ()))"

section \<open>Weave\<close>

record FabricWeave =
  weave_fibers :: "FabricFiber list"
  weave_count :: nat

definition weave_new :: FabricWeave where
  "weave_new = \<lparr>weave_fibers = replicate MAX_FIBERS fiber_new, weave_count = 0\<rparr>"

text \<open>\<open>next_slot\<close> returns the index of the borrowed slot.\<close>

definition next_slot :: "FabricWeave \<Rightarrow> FabricWeave \<times> nat option" where
  "next_slot w =
    (if weave_count w \<ge> MAX_FIBERS then (w, None)
     else (w\<lparr>weave_count := weave_count w + 1\<rparr>, Some (weave_count w)))"

text \<open>The calls \<open>on_done(tid, outcome)\<close> of \<open>harvest_all\<close>, in order.\<close>

definition harvest_all :: "FabricWeave \<Rightarrow> (u64 \<times> u64) list" where
  "harvest_all w = List.map_filter (\<lambda>f. map_option (\<lambda>v. (fiber_tid f, v)) (try_harvest f))
     (take (weave_count w) (weave_fibers w))"

text \<open>\<open>join_all\<close> over the successive states of the weave's fibers: when it returns.\<close>

fun join_all :: "(nat \<Rightarrow> FabricFiber) list \<Rightarrow> nat \<Rightarrow> nat option" where
  "join_all [] n = Some n"
| "join_all (f # fs) n = Option.bind (spin_until_done f n) (\<lambda>(n', _). join_all fs n')"

definition live_count :: "FabricWeave \<Rightarrow> nat" where "live_count w = weave_count w"

section \<open>Facts\<close>

lemma FiberArgs_size: "FiberArgs_layout = (24, 8)"
  by code_simp

lemma harvest_run: "try_harvest (run_fiber v f) = (if v = OUTCOME_PENDING then None else Some v)"
  by (simp add: try_harvest_def run_fiber_def)

text \<open>A closure that returns \<open>u64::MAX\<close> is never seen to finish.\<close>

lemma pending_result_lost: "try_harvest (run_fiber OUTCOME_PENDING f) = None"
  by (simp add: harvest_run)

lemma spin_until_done_returns:
  assumes "try_harvest (f m) = Some v" "n \<le> m" "\<forall>k. n \<le> k \<and> k < m \<longrightarrow> try_harvest (f k) = None"
  shows "spin_until_done f n = Some (m, v)"
  using assms(2,3)
proof (induction n rule: inc_induct)
  case base
  then show ?case using assms(1) by (subst spin_until_done.simps) simp
next
  case (step n)
  then show ?case by (subst spin_until_done.simps) simp
qed

text \<open>Joining returns once every fiber has stored an outcome other than the pending mark for good.\<close>

lemma spin_until_done_eventually:
  assumes "\<forall>k \<ge> m. try_harvest (f k) \<noteq> None"
  shows "\<exists>n' v. spin_until_done f n = Some (n', v)"
proof -
  let ?P = "\<lambda>k. n \<le> k \<and> try_harvest (f k) \<noteq> None"
  have ex: "?P (max n m)" using assms by simp
  have l: "?P (LEAST k. ?P k)" by (rule LeastI [of ?P, OF ex])
  have "\<forall>k. n \<le> k \<and> k < (LEAST k. ?P k) \<longrightarrow> try_harvest (f k) = None" using not_less_Least by blast
  with spin_until_done_returns [of f "LEAST k. ?P k"] l show ?thesis by blast
qed

lemma join_all_returns:
  assumes "\<forall>f \<in> set fs. \<exists>m. \<forall>k \<ge> m. try_harvest (f k) \<noteq> None"
  shows "\<exists>n'. join_all fs n = Some n'"
  using assms
proof (induction fs arbitrary: n)
  case (Cons f fs)
  then obtain m where "\<forall>k \<ge> m. try_harvest (f k) \<noteq> None" by auto
  from spin_until_done_eventually [OF this] obtain n' v where "spin_until_done f n = Some (n', v)" by blast
  with Cons show ?case by simp
qed simp

lemma mask_split:
  fixes x y :: "'a::len word"
  shows "x = (x AND NOT y) + (x AND y)"
proof -
  have "(x AND NOT y) AND (x AND y) = 0" by (rule bit_word_eqI) (simp add: bit_and_iff bit_not_iff)
  then have "(x AND NOT y) + (x AND y) = (x AND NOT y) OR (x AND y)" by (rule disjunctive_add_eq_or)
  also have "\<dots> = x" by (rule bit_word_eqI) (auto simp: bit_or_iff bit_and_iff bit_not_iff)
  finally show ?thesis by simp
qed

lemma align_down_16:
  fixes x :: usize
  shows "unat (x AND NOT 15) = unat x - unat x mod 16"
proof -
  have "x AND 15 = take_bit 4 x" by (simp add: take_bit_eq_mask mask_numeral)
  then have m: "unat (x AND 15) = unat x mod 16"
    by (simp add: unat_mod take_bit_eq_mod)
  have "x AND NOT 15 = x - (x AND 15)" using mask_split [of x 15] by (metis add_diff_cancel_right')
  moreover have "x AND 15 \<le> x" by (rule word_and_le2)
  ultimately show ?thesis using m by (simp add: unat_sub)
qed

text \<open>
  When the buffer can hold the arguments, the closure and the alignment gap, everything is inside
  the buffer, the stack top is 16-byte aligned and the closure directly follows the arguments.
\<close>

lemma carve_frame_inside:
  assumes fits: "24 + unat closure_size + 15 \<le> unat len" and addr: "unat base + unat len < 2 ^ 64"
  defines "fr \<equiv> carve_frame base len closure_size"
  shows "unat base \<le> unat (args_start fr)" and "unat (args_start fr) mod 16 = 0"
    and "stack_top fr = args_start fr" and "unat (clos_start fr) = unat (args_start fr) + 24"
    and "unat (clos_start fr) + unat closure_size \<le> unat base + unat len"
proof -
  let ?total = "24 + closure_size" and ?limit = "base + len"
  have clos: "unat closure_size < 2 ^ 64 - 24" using fits unsigned_less [of len, where ?'a = nat] by simp
  have ut: "unat ?total = 24 + unat closure_size" using clos by (simp add: unat_word_ariths)
  have ue: "unat ?limit = unat base + unat len" using addr by (simp add: unat_word_ariths)
  have "?total \<le> ?limit" using fits by (simp only: word_le_nat_alt ut ue)
  then have ud: "unat (?limit - ?total) = unat base + unat len - (24 + unat closure_size)"
    by (simp add: unat_sub word_le_nat_alt ut ue)
  let ?d = "unat base + unat len - (24 + unat closure_size)"
  have st: "args_start fr = (?limit - ?total) AND NOT 15"
    by (simp add: fr_def carve_frame_def FiberArgs_size Let_def)
  have us: "unat (args_start fr) = ?d - ?d mod 16" unfolding st align_down_16 ud ..
  have m: "?d mod 16 \<le> 15" by simp
  show "unat base \<le> unat (args_start fr)" unfolding us using fits m by linarith
  show al: "unat (args_start fr) mod 16 = 0" unfolding us by (simp add: minus_mod_eq_mult_div)
  have "unat (args_start fr AND NOT 15) = unat (args_start fr)" by (simp only: align_down_16 al diff_zero)
  then show "stack_top fr = args_start fr"
    by (simp add: fr_def carve_frame_def Let_def word_unat_eq_iff)
  have le: "unat (args_start fr) \<le> ?d" unfolding us by simp
  then have "unat (args_start fr) + 24 < 2 ^ 64" using addr fits by linarith
  then show uc: "unat (clos_start fr) = unat (args_start fr) + 24"
    by (simp add: fr_def carve_frame_def FiberArgs_size Let_def unat_word_ariths)
  show "unat (clos_start fr) + unat closure_size \<le> unat base + unat len"
    unfolding uc using le fits by linarith
qed

text \<open>Nothing checks that it fits: a closure larger than the buffer is written below it.\<close>

lemma carve_frame_escapes: "args_start (carve_frame 0x10000 0x1000 0x2000) < 0x10000"
  by code_simp

text \<open>The closure is only 8-byte aligned.\<close>

lemma closure_misaligned: "clos_start (carve_frame 0x10000 0x1000 64) mod 16 = 8"
  by code_simp

text \<open>Slots are handed out once each and never come back, whether or not their fibers finished.\<close>

lemma next_slot_Some: "next_slot w = (w', Some i) \<Longrightarrow> i = weave_count w \<and> i < MAX_FIBERS \<and> live_count w' = live_count w + 1"
  by (auto simp: next_slot_def live_count_def split: if_splits)

end
