(* ===== verification/Wire_Records.thy ===== *)
theory Wire_Records
  imports Syscall Repr_C
begin

text \<open>
  The fixed wire records and the thin scalar clients: tuning observations (\<open>tuning.rs\<close>), display and
  input leases (\<open>wayland.rs\<close>), presentation (\<open>display.rs\<close>), input packets (\<open>input.rs\<close>), the service
  status word (\<open>aegis.rs\<close>), scheduler hints (\<open>scheduler.rs\<close>) and process calls (\<open>process.rs\<close>, \<open>io.rs\<close>).
\<close>

section \<open>Tuning\<close>

definition TUNING_WIRE_VERSION :: u16 where "TUNING_WIRE_VERSION = 1"
definition MIN_THERMAL_LIMIT_MC :: u32 where "MIN_THERMAL_LIMIT_MC = 20000"
definition MAX_THERMAL_LIMIT_MC :: u32 where "MAX_THERMAL_LIMIT_MC = 200000"
definition STATE_UNKNOWN :: u8 where "STATE_UNKNOWN = 0"
definition STATE_APPLIED :: u8 where "STATE_APPLIED = 1"
definition STATE_ROLLED_BACK :: u8 where "STATE_ROLLED_BACK = 2"
definition STATE_REJECTED :: u8 where "STATE_REJECTED = 3"
definition GPU_OBSERVE :: u8 where "GPU_OBSERVE = 0"
definition GPU_BALANCED :: u8 where "GPU_BALANCED = 1"
definition GPU_PERFORMANCE :: u8 where "GPU_PERFORMANCE = 2"
definition GPU_POWER_SAVE :: u8 where "GPU_POWER_SAVE = 3"

record TuningProfileLease =
  tp_version :: u16
  tp_state :: u8
  tp_reserved :: u8
  tp_generation :: u64
  tp_capability :: u64
  tp_profile_hash :: bytes
  tp_cpu_governor :: u8
  tp_gpu_policy :: u8
  tp_network_policy :: u8
  tp_flags :: u8
  tp_thermal_limit_mc :: u32

definition TuningProfileLease_layout :: layout where
  "TuningProfileLease_layout = repr_c [U16, U8, U8, U64, U64, array_layout 32 U8, U8, U8, U8, U8, U32]"

fun is_zero_hash :: "bytes \<Rightarrow> bool" where
  "is_zero_hash [] = True"
| "is_zero_hash (b # bs) = (if b \<noteq> 0 then False else is_zero_hash bs)"

definition tuning_valid :: "TuningProfileLease \<Rightarrow> bool" where
  "tuning_valid t \<longleftrightarrow>
     tp_version t = TUNING_WIRE_VERSION
   \<and> tp_state t \<in> {STATE_APPLIED, STATE_ROLLED_BACK, STATE_REJECTED}
   \<and> tp_reserved t = 0 \<and> tp_generation t \<noteq> 0 \<and> tp_capability t \<noteq> 0
   \<and> \<not> is_zero_hash (tp_profile_hash t) \<and> tp_cpu_governor t \<le> 3 \<and> tp_gpu_policy t \<le> GPU_POWER_SAVE
   \<and> tp_network_policy t \<le> 3 \<and> MIN_THERMAL_LIMIT_MC \<le> tp_thermal_limit_mc t
   \<and> tp_thermal_limit_mc t \<le> MAX_THERMAL_LIMIT_MC"

definition tuning_is_usable :: "TuningProfileLease \<Rightarrow> bool" where
  "tuning_is_usable t \<longleftrightarrow> tuning_valid t \<and> tp_state t = STATE_APPLIED"

definition valid_for_generation :: "TuningProfileLease \<Rightarrow> u64 \<Rightarrow> bool" where
  "valid_for_generation t expected \<longleftrightarrow> expected \<noteq> 0 \<and> tuning_valid t \<and> tp_generation t = expected"

definition is_usable_for_generation :: "TuningProfileLease \<Rightarrow> u64 \<Rightarrow> bool" where
  "is_usable_for_generation t expected \<longleftrightarrow> valid_for_generation t expected \<and> tp_state t = STATE_APPLIED"

lemma TuningProfileLease_size: "TuningProfileLease_layout = (64, 8)"
  by code_simp

text \<open>The unknown state is never valid; the declared GPU policies are exactly the accepted ones.\<close>

lemma tuning_codes:
  "tuning_valid t \<Longrightarrow> tp_state t \<noteq> STATE_UNKNOWN"
  "tuning_valid t \<Longrightarrow> tp_gpu_policy t \<in> {GPU_OBSERVE, GPU_BALANCED, GPU_PERFORMANCE, GPU_POWER_SAVE}"
proof -
  have "w \<in> {0, 1, 2, 3}" if "w \<le> 3" for w :: u8
    using that by (simp add: word_le_nat_alt word_unat_eq_iff) linarith
  then show "tuning_valid t \<Longrightarrow> tp_gpu_policy t \<in> {GPU_OBSERVE, GPU_BALANCED, GPU_PERFORMANCE, GPU_POWER_SAVE}"
    by (auto simp: tuning_valid_def GPU_OBSERVE_def GPU_BALANCED_def GPU_PERFORMANCE_def GPU_POWER_SAVE_def)
qed (auto simp: tuning_valid_def STATE_UNKNOWN_def STATE_APPLIED_def STATE_ROLLED_BACK_def STATE_REJECTED_def)

lemma is_zero_hash_iff: "is_zero_hash h \<longleftrightarrow> set h \<subseteq> {0}"
  by (induction h) auto

text \<open>A lease is usable for one generation at most.\<close>

lemma usable_generation_unique:
  "is_usable_for_generation t g \<Longrightarrow> is_usable_for_generation t g' \<Longrightarrow> g = g'"
  by (simp add: is_usable_for_generation_def valid_for_generation_def)

lemma usable_for_generation_iff:
  "is_usable_for_generation t g \<longleftrightarrow> tuning_is_usable t \<and> tp_generation t = g"
  by (auto simp: is_usable_for_generation_def valid_for_generation_def tuning_is_usable_def tuning_valid_def)

section \<open>Display and surfaces\<close>

definition WAYLAND_WIRE_VERSION :: u16 where "WAYLAND_WIRE_VERSION = 1"

datatype PixelFormat = Bgra8888

record DisplayLease =
  dl_version :: u16
  dl_format :: PixelFormat
  dl_width :: u32
  dl_height :: u32
  dl_pitch :: u32
  dl_generation :: u64
  dl_capability :: u64

definition DisplayLease_layout :: layout where
  "DisplayLease_layout = repr_c [U16, U16, U32, U32, U32, U64, U64]"

definition display_valid :: "DisplayLease \<Rightarrow> bool" where
  "display_valid d \<longleftrightarrow>
     dl_version d = WAYLAND_WIRE_VERSION \<and> dl_format d = Bgra8888 \<and> dl_width d \<noteq> 0 \<and> dl_height d \<noteq> 0
   \<and> saturating_mul (dl_width d) 4 \<le> dl_pitch d \<and> dl_generation d \<noteq> 0 \<and> dl_capability d \<noteq> 0"

record SurfaceLease =
  sl_surface_id :: u32
  sl_buffer_id :: u32
  sl_x :: i32
  sl_y :: i32
  sl_width :: u32
  sl_height :: u32
  sl_stride :: u32
  sl_generation :: u64
  sl_capability :: u64

definition SurfaceLease_layout :: layout where
  "SurfaceLease_layout = repr_c [U32, U32, U32, U32, U32, U32, U32, U64, U64]"

definition surface_valid_for :: "SurfaceLease \<Rightarrow> DisplayLease \<Rightarrow> bool" where
  "surface_valid_for s d \<longleftrightarrow>
     display_valid d \<and> sl_surface_id s \<noteq> 0 \<and> sl_buffer_id s \<noteq> 0 \<and> sl_width s \<noteq> 0 \<and> sl_height s \<noteq> 0
   \<and> saturating_mul (sl_width s) 4 \<le> sl_stride s \<and> sl_generation s = dl_generation d \<and> sl_capability s \<noteq> 0"

datatype InputKind = Motion | Button | Axis | Key | Touch | Gesture

record InputRecord =
  ir_kind :: InputKind
  ir_state :: u8
  ir_code :: u32
  ir_x :: i32
  ir_y :: i32
  ir_value :: i32
  ir_serial :: u64

definition InputRecord_layout :: layout where
  "InputRecord_layout = repr_c [U8, U8, array_layout 2 U8, U32, U32, U32, U32, U64]"

definition input_valid :: "InputRecord \<Rightarrow> bool" where
  "input_valid r \<longleftrightarrow> ir_kind r \<in> {Motion, Button, Axis, Key, Touch, Gesture} \<and> ir_serial r \<noteq> 0"

lemma wayland_sizes:
  "DisplayLease_layout = (32, 8)" "SurfaceLease_layout = (48, 8)" "InputRecord_layout = (32, 8)"
  by code_simp+

text \<open>
  The saturating product is no loophole except at the very top: a row of a valid display holds its
  pixels, unless width times four does not fit 32 bits and the pitch is the maximum.
\<close>

lemma pitch_holds_row:
  assumes "display_valid d"
  shows "unat (dl_width d) * 4 \<le> unat (dl_pitch d) \<or> dl_pitch d = - 1"
proof (cases "unat (dl_width d) * 4 < 2 ^ 32")
  case True
  with assms show ?thesis by (simp add: display_valid_def word_le_nat_alt unat_saturating_mul)
next
  case False
  then have "saturating_mul (dl_width d) 4 = - 1" by (simp add: saturating_mul_def)
  with assms show ?thesis by (simp add: display_valid_def word_order.extremum_unique)
qed

lemma input_kind_total: "input_valid r \<longleftrightarrow> ir_serial r \<noteq> 0"
  by (cases "ir_kind r") (simp_all add: input_valid_def)

section \<open>Presentation\<close>

definition BGRA8888_BYTES_PER_PIXEL :: u32 where "BGRA8888_BYTES_PER_PIXEL = 4"

text \<open>\<open>kern\<close> is the presentation call of a native build; on a host it is \<open>None\<close>.\<close>

definition present_bgra8888 ::
  "(bytes \<Rightarrow> usize \<Rightarrow> usize \<Rightarrow> usize \<Rightarrow> isize) option \<Rightarrow> bytes \<Rightarrow> u32 \<Rightarrow> u32 \<Rightarrow> u32 \<Rightarrow> (SyscallError, u64) result" where
  "present_bgra8888 kern frame width height pitch =
    and_then (ok_or (SyscallError (- 22)) (checked_mul (ucast pitch :: u64) (ucast height))) (\<lambda>required.
      if width = 0 \<or> height = 0 then Err (SyscallError (- 22))
      else and_then (ok_or (SyscallError (- 22)) (checked_mul width BGRA8888_BYTES_PER_PIXEL)) (\<lambda>row.
        if pitch < row \<or> length frame \<noteq> unat required then Err (SyscallError (- 22))
        else case kern of
          None \<Rightarrow> Err (SyscallError (- 38))
        | Some k \<Rightarrow> syscall_decode (k frame (ucast width) (ucast height) (ucast pitch))))"

lemma unat_u32_u64: "unat (ucast (x :: u32) :: u64) = unat x"
  by (rule unat_ucast_up) simp

text \<open>The kernel only ever sees complete frames whose rows hold their pixels.\<close>

lemma present_only_complete_frames:
  assumes "present_bgra8888 (Some k) frame width height pitch = Ok receipt"
  shows "length frame = unat pitch * unat height" "unat width * 4 \<le> unat pitch" "width \<noteq> 0" "height \<noteq> 0"
proof -
  from assms obtain required row where *: "checked_mul (ucast pitch :: u64) (ucast height) = Some required"
    "checked_mul width BGRA8888_BYTES_PER_PIXEL = Some row" "\<not> pitch < row" "length frame = unat required"
    "width \<noteq> 0" "height \<noteq> 0"
    by (auto simp: present_bgra8888_def rust_result split: if_splits)
  from *(1,4) show "length frame = unat pitch * unat height"
    by (simp add: checked_mul_Some_iff unat_u32_u64)
  from *(2,3) show "unat width * 4 \<le> unat pitch"
    by (simp add: checked_mul_Some_iff BGRA8888_BYTES_PER_PIXEL_def word_less_nat_alt)
  from *(5,6) show "width \<noteq> 0" "height \<noteq> 0" by simp_all
qed

section \<open>Input packets\<close>

record PointerMotion =
  pm_delta_x :: i16
  pm_delta_y :: i16
  pm_scroll_x :: i16
  pm_scroll_y :: i16
  pm_buttons :: u8

definition PointerMotion_layout :: layout where
  "PointerMotion_layout = repr_c [U16, U16, U16, U16, U8, array_layout 3 U8]"

definition pointer_new :: "i16 \<Rightarrow> i16 \<Rightarrow> i16 \<Rightarrow> i16 \<Rightarrow> u8 \<Rightarrow> PointerMotion" where
  "pointer_new dx dy sx sy b = \<lparr>pm_delta_x = dx, pm_delta_y = dy, pm_scroll_x = sx, pm_scroll_y = sy, pm_buttons = b\<rparr>"

record KeyEvent =
  ke_code :: u32
  ke_pressed :: u8

definition KeyEvent_layout :: layout where "KeyEvent_layout = repr_c [U32, U8, array_layout 3 U8]"

definition key_new :: "u32 \<Rightarrow> bool \<Rightarrow> KeyEvent" where
  "key_new code pressed = \<lparr>ke_code = code, ke_pressed = (if pressed then 1 else 0)\<rparr>"

definition key_is_pressed :: "KeyEvent \<Rightarrow> bool" where "key_is_pressed k \<longleftrightarrow> ke_pressed k \<noteq> 0"

text \<open>The common end of both calls: the packet the kernel wrote counts only when it says there is one.\<close>

definition next_packet :: "isize \<Rightarrow> 'p \<Rightarrow> (SyscallError, 'p option) result" where
  "next_packet rax packet =
    and_then (syscall_decode rax) (\<lambda>available.
      if available = 0 then Ok None else if available = 1 then Ok (Some packet) else Err (SyscallError (- 74)))"

definition next_pointer_motion :: "(PointerMotion \<Rightarrow> isize \<times> PointerMotion) option \<Rightarrow> (SyscallError, PointerMotion option) result" where
  "next_pointer_motion kern =
    (case kern of None \<Rightarrow> Err (SyscallError (- 38))
     | Some k \<Rightarrow> (case k (pointer_new 0 0 0 0 0) of (rax, packet) \<Rightarrow> next_packet rax packet))"

definition next_key_event :: "(KeyEvent \<Rightarrow> isize \<times> KeyEvent) option \<Rightarrow> (SyscallError, KeyEvent option) result" where
  "next_key_event kern =
    (case kern of None \<Rightarrow> Err (SyscallError (- 38))
     | Some k \<Rightarrow> (case k (key_new 0 False) of (rax, packet) \<Rightarrow> next_packet rax packet))"

lemma input_sizes: "PointerMotion_layout = (12, 2)" "KeyEvent_layout = (8, 4)"
  by code_simp+

lemma key_new_pressed: "key_is_pressed (key_new c p) = p"
  by (simp add: key_is_pressed_def key_new_def)

lemma next_packet_Some_iff: "next_packet rax p = Ok (Some q) \<longleftrightarrow> rax = 1 \<and> q = p"
  by (auto simp: next_packet_def rust_result syscall_decode_Ok_iff split: if_splits)

section \<open>Service status\<close>

definition STATUS_RUNNING :: u8 where "STATUS_RUNNING = 1"

datatype CrestServiceState = Running

record CrestServiceStatus =
  status_state :: CrestServiceState
  status_pid :: u32

definition status_decode :: "u64 \<Rightarrow> CrestServiceStatus option" where
  "status_decode w =
    (if (ucast w :: u8) \<noteq> STATUS_RUNNING then None
     else let pid = (ucast (drop_bit 8 w) :: u32) in
       if pid \<noteq> 0 then Some \<lparr>status_state = Running, status_pid = pid\<rparr> else None)"

definition crest_status :: "isize option \<Rightarrow> (SyscallError, CrestServiceStatus) result" where
  "crest_status kern =
    (case kern of None \<Rightarrow> Err (SyscallError (- 38))
     | Some rax \<Rightarrow> and_then (syscall_decode rax) (\<lambda>w. ok_or (SyscallError (- 74)) (status_decode w)))"

definition status_encode :: "u32 \<Rightarrow> u64" where
  "status_encode pid = push_bit 8 (ucast pid) OR ucast STATUS_RUNNING"

lemma status_roundtrip:
  assumes "pid \<noteq> 0"
  shows "status_decode (status_encode pid) = Some \<lparr>status_state = Running, status_pid = pid\<rparr>"
proof -
  have "(ucast (status_encode pid) :: u8) = STATUS_RUNNING"
    by (rule bit_word_eqI)
      (auto simp: status_encode_def bit_ucast_iff bit_or_iff bit_push_bit_iff STATUS_RUNNING_def bit_1_iff)
  moreover have "(ucast (drop_bit 8 (status_encode pid)) :: u32) = pid"
    by (rule bit_word_eqI)
      (auto simp: status_encode_def bit_ucast_iff bit_or_iff bit_push_bit_iff bit_drop_bit_eq STATUS_RUNNING_def bit_1_iff)
  ultimately show ?thesis using assms by (simp add: status_decode_def)
qed

section \<open>Scheduler hints\<close>

datatype Priority = PrioIdle | Background | Normal | Interactive | PrioCritical | Nexus

fun priority_mass :: "Priority \<Rightarrow> u16" where
  "priority_mass PrioIdle = 0x1000" | "priority_mass Background = 0x3000" | "priority_mass Normal = 0x6000"
| "priority_mass Interactive = 0x9000" | "priority_mass PrioCritical = 0xd000" | "priority_mass Nexus = 0xffff"

record PhaseHint =
  ph_phase_bin :: u16
  ph_coherence :: u16
  ph_priority :: Priority
  ph_flags :: u16

definition hint_packed :: "PhaseHint \<Rightarrow> u64" where
  "hint_packed h =
    (ucast (ph_phase_bin h) AND 0x03ff)
    OR push_bit 10 (ucast (ph_coherence h) AND 0x03ff)
    OR push_bit 20 (ucast (priority_mass (ph_priority h)))
    OR push_bit 36 (ucast (ph_flags h))"

definition scheduler_yield_with_hint :: "(usize \<Rightarrow> isize) \<Rightarrow> PhaseHint \<Rightarrow> (SyscallError, unit) result" where
  "scheduler_yield_with_hint kern h = and_then (syscall_decode (kern (hint_packed h))) (\<lambda>_. Ok ())"

definition set_priority :: "(usize \<Rightarrow> isize) \<Rightarrow> Priority \<Rightarrow> (SyscallError, unit) result" where
  "set_priority kern p = and_then (syscall_decode (kern (ucast (priority_mass p)))) (\<lambda>_. Ok ())"

definition sleep_ns :: "(usize \<Rightarrow> usize \<Rightarrow> isize) \<Rightarrow> u64 \<Rightarrow> (SyscallError, unit) result" where
  "sleep_ns kern ns =
    (let low = ucast (ucast ns :: u32); high = ucast (ucast (drop_bit 32 ns) :: u32) in
     and_then (syscall_decode (kern low high)) (\<lambda>_. Ok ()))"

text \<open>The four fields of a packed hint do not overlap: each can be read back.\<close>

lemma bit_0x3ff: "bit (0x03ff :: u64) n \<longleftrightarrow> n < 10"
proof -
  have "(0x03ff :: u64) = mask 10" by (simp add: mask_numeral)
  then show ?thesis by (auto simp only: bit_mask_iff possible_bit_word len_num1 len_bit0)
qed

lemma hint_field_take: "x AND 0x03ff = take_bit 10 (x :: u64)"
  by (rule bit_word_eqI) (auto simp only: bit_and_iff bit_0x3ff bit_take_bit_iff)

lemma hint_packed_bit:
  assumes "n < 64"
  shows "bit (hint_packed h) n \<longleftrightarrow>
    (if n < 10 then bit (ph_phase_bin h) n
     else if n < 20 then bit (ph_coherence h) (n - 10)
     else if n < 36 then bit (priority_mass (ph_priority h)) (n - 20)
     else bit (ph_flags h) (n - 36))"
  using assms
  by (auto simp: hint_packed_def bit_or_iff bit_and_iff bit_push_bit_iff bit_ucast_iff bit_take_bit_iff hint_field_take
      dest: bit_imp_le_length)

lemma sleep_ns_whole: "sleep_ns kern ns = and_then (syscall_decode (kern (take_bit 32 ns) (drop_bit 32 ns))) (\<lambda>_. Ok ())"
proof -
  have "(ucast (ucast ns :: u32) :: usize) = take_bit 32 ns"
    by (rule bit_word_eqI) (auto simp: bit_ucast_iff bit_take_bit_iff)
  moreover have "(ucast (ucast (drop_bit 32 ns) :: u32) :: usize) = drop_bit 32 ns"
    by (rule bit_word_eqI) (auto simp: bit_ucast_iff bit_drop_bit_eq dest: bit_imp_le_length)
  ultimately show ?thesis by (simp add: sleep_ns_def)
qed

section \<open>Process calls\<close>

definition yield_with_hint :: "(usize \<Rightarrow> isize) \<Rightarrow> u64 \<Rightarrow> (SyscallError, unit) result" where
  "yield_with_hint kern unfinished_work = and_then (syscall_decode (kern unfinished_work)) (\<lambda>_. Ok ())"

definition yield_now :: "(usize \<Rightarrow> isize) \<Rightarrow> (SyscallError, unit) result" where
  "yield_now kern = yield_with_hint kern 0"

text \<open>\<open>status as isize as usize\<close> sign-extends.\<close>

definition request_exit :: "(usize \<Rightarrow> isize) \<Rightarrow> i32 \<Rightarrow> (SyscallError, unit) result" where
  "request_exit kern status = and_then (syscall_decode (kern (scast status))) (\<lambda>_. Ok ())"

definition spawn_service :: "(usize \<Rightarrow> isize) \<Rightarrow> u16 \<Rightarrow> (SyscallError, u32) result" where
  "spawn_service kern service_class = and_then (syscall_decode (kern (ucast service_class))) (\<lambda>v. Ok (ucast v))"

text \<open>The kernel writes the process id and the status.\<close>

definition wait_nohang :: "isize \<times> u32 \<times> i32 \<Rightarrow> (SyscallError, (u32 \<times> i32) option) result" where
  "wait_nohang kern =
    (case kern of (rax, pid, status) \<Rightarrow>
      (case syscall_decode rax of
         Inr _ \<Rightarrow> Ok (Some (pid, status))
       | Inl e \<Rightarrow> if e = SyscallError (- 11) then Ok None else Err e))"

definition io_write :: "(usize \<Rightarrow> bytes \<Rightarrow> isize) \<Rightarrow> usize \<Rightarrow> bytes \<Rightarrow> (SyscallError, usize) result" where
  "io_write kern handle bs = syscall_decode (kern handle bs)"

lemma wait_nohang_outcomes:
  "wait_nohang (rax, pid, status) =
    (if 0 \<le> sint rax then Ok (Some (pid, status)) else if rax = - 11 then Ok None else Err (SyscallError rax))"
  by (auto simp: wait_nohang_def syscall_decode_def)

end
