(* ===== verification/Aether_Clients.thy ===== *)
theory Aether_Clients
  imports Syscall
begin

text \<open>
  The clients of the \<open>aether\<close> crate's shared objects: the synchronous Nexus client (\<open>nexus.rs\<close>), the
  resonance plane client (\<open>resonance_plane.rs\<close>) and the certificate reader (\<open>certificate.rs\<close>).  The
  crate itself is not in the repository: its wire objects are type variables, and its constructors,
  validators and page operations are the fields of the two records below.  A page the kernel also
  writes is given by the value each read of it observes.
\<close>

section \<open>The Nexus client\<close>

record ('op, 'cmd, 'reply, 'status, 'tel, 'werr) nexus_wire =
  QueryStats :: 'op
  AttachTask :: 'op
  Entangle :: 'op
  SetCollapseThreshold :: 'op
  SetPriorityMass :: 'op
  OfferKairos :: 'op
  command_new :: "'op \<Rightarrow> u64 \<Rightarrow> u64 \<Rightarrow> u64 list \<Rightarrow> 'cmd"
  reply_ZERO :: 'reply
  reply_validate :: "'reply \<Rightarrow> u64 \<Rightarrow> ('werr, 'status) result"
  status_Ok :: 'status
  telemetry_ZERO :: 'tel
  telemetry_validate :: "'tel \<Rightarrow> ('werr, unit) result"

datatype ('werr, 'status) NexusClientError = NexusSyscall SyscallError | NexusWire 'werr | NexusKernel 'status

record NexusClient =
  nc_capability :: u64
  nc_next_sequence :: u64

definition nexus_new :: "u64 \<Rightarrow> NexusClient" where
  "nexus_new cap = \<lparr>nc_capability = cap, nc_next_sequence = 1\<rparr>"

definition nexus_advance :: "NexusClient \<Rightarrow> NexusClient" where
  "nexus_advance c = c\<lparr>nc_next_sequence := wrapping_next (nc_next_sequence c)\<rparr>"

text \<open>The kernel answers a command with \<open>rax\<close> and the contents of the reply object.\<close>

definition nexus_transact ::
  "('op, 'cmd, 'reply, 'status, 'tel, 'werr) nexus_wire \<Rightarrow> ('cmd \<Rightarrow> 'reply \<Rightarrow> isize \<times> 'reply) \<Rightarrow> 'op
    \<Rightarrow> u64 list \<Rightarrow> NexusClient \<Rightarrow> NexusClient \<times> (('werr, 'status) NexusClientError, 'reply) result" where
  "nexus_transact W kern opcode arguments c =
    (let sequence = nc_next_sequence c; c' = nexus_advance c;
         command = command_new W opcode sequence (nc_capability c) arguments;
         (rax, reply) = kern command (reply_ZERO W)
     in (c', and_then (map_err NexusSyscall (syscall_decode rax)) (\<lambda>_.
               and_then (map_err NexusWire (reply_validate W reply sequence)) (\<lambda>status.
                 if status \<noteq> status_Ok W then Err (NexusKernel status) else Ok reply))))"

definition nexus_telemetry ::
  "('op, 'cmd, 'reply, 'status, 'tel, 'werr) nexus_wire \<Rightarrow> ('tel \<Rightarrow> usize \<Rightarrow> isize \<times> 'tel)
    \<Rightarrow> NexusClient \<Rightarrow> NexusClient \<times> (('werr, 'status) NexusClientError, 'tel) result" where
  "nexus_telemetry W kern c =
    (let sequence = nc_next_sequence c; c' = nexus_advance c;
         (rax, telemetry) = kern (telemetry_ZERO W) sequence
     in (c', and_then (map_err NexusSyscall (syscall_decode rax)) (\<lambda>_.
               and_then (map_err NexusWire (telemetry_validate W telemetry)) (\<lambda>_. Ok telemetry))))"

definition query_stats where "query_stats W kern = nexus_transact W kern (QueryStats W) [0, 0, 0, 0]"

definition attach_task where
  "attach_task W kern task packed_hint = nexus_transact W kern (AttachTask W) [task, packed_hint, 0, 0]"

definition pack_halves :: "u64 \<Rightarrow> u32 \<Rightarrow> u64" where
  "pack_halves low high = low OR push_bit 32 (ucast high)"

text \<open>\<open>re_q16 as u32\<close> keeps the bits of the signed amplitude.\<close>

definition entangle where
  "entangle W kern task_a task_b (phase_bin :: u16) (flags :: u32) (re_q16 :: i32) (im_q16 :: i32) =
    nexus_transact W kern (Entangle W)
      [task_a, task_b, pack_halves (ucast phase_bin) flags, pack_halves (ucast re_q16) im_q16]"

definition set_collapse_threshold where
  "set_collapse_threshold W kern threshold = nexus_transact W kern (SetCollapseThreshold W) [threshold, 0, 0, 0]"

definition set_priority_mass where
  "set_priority_mass W kern (m :: u16) = nexus_transact W kern (SetPriorityMass W) [ucast m, 0, 0, 0]"

definition offer_kairos where
  "offer_kairos W kern (pair_index :: usize) = nexus_transact W kern (OfferKairos W) [pair_index, 0, 0, 0]"

definition task_handle :: "u16 \<Rightarrow> u16 \<Rightarrow> u64" where
  "task_handle slot generation = ucast slot OR push_bit 16 (ucast generation)"

section \<open>The resonance plane client\<close>

record ('cmd, 'reply, 'tel, 'ing, 'obs) resonance_pages =
  ingress_align :: nat
  observation_align :: nat
  ingress_compatible :: "'ing \<Rightarrow> bool"
  ingress_submit :: "'cmd \<Rightarrow> 'ing \<Rightarrow> 'ing"
  malformed_frames :: "'ing \<Rightarrow> u64"
  overwritten_frames :: "'ing \<Rightarrow> u64"
  observation_compatible :: "'obs \<Rightarrow> bool"
  obs_telemetry :: "'obs \<Rightarrow> 'tel option"
  last_reply_sequence :: "'obs \<Rightarrow> u64"
  obs_telemetry_publications :: "'obs \<Rightarrow> u64"
  obs_reply_publications :: "'obs \<Rightarrow> u64"
  obs_reply :: "'obs \<Rightarrow> u64 \<Rightarrow> 'reply option"

datatype ('qerr, 'werr, 'status) PlaneClientError =
    PlaneNullAddress
  | PlaneMisalignedAddress
  | IncompatiblePlane
  | CommandAlreadyPending
  | PlaneQueue 'qerr
  | UnexpectedReply u64 u64
  | PlaneWire 'werr
  | PlaneKernel 'status

record ResonancePlaneClient =
  pc_capability :: u64
  pc_next_sequence :: u64
  pc_pending :: "u64 option"
  pc_dropped_replies :: u64

text \<open>The two mapped pages are found at their addresses: \<open>ing\<close> and \<open>obs\<close> are what is mapped there.\<close>

definition plane_from_addresses ::
  "('cmd, 'reply, 'tel, 'ing, 'obs) resonance_pages \<Rightarrow> (nat \<Rightarrow> 'ing) \<Rightarrow> (nat \<Rightarrow> 'obs) \<Rightarrow> nat \<Rightarrow> nat \<Rightarrow> u64
    \<Rightarrow> (('qerr, 'werr, 'status) PlaneClientError, ResonancePlaneClient) result" where
  "plane_from_addresses R ing obs ingress_address observation_address cap =
    (if ingress_address = 0 \<or> observation_address = 0 then Err PlaneNullAddress
     else if ingress_address mod ingress_align R \<noteq> 0 then Err PlaneMisalignedAddress
     else if observation_address mod observation_align R \<noteq> 0 then Err PlaneMisalignedAddress
     else if \<not> ingress_compatible R (ing ingress_address) \<or> \<not> observation_compatible R (obs observation_address)
       then Err IncompatiblePlane
     else Ok \<lparr>pc_capability = cap, pc_next_sequence = 1, pc_pending = None, pc_dropped_replies = 0\<rparr>)"

definition plane_submit ::
  "('op, 'cmd, 'reply, 'status, 'tel, 'werr) nexus_wire \<Rightarrow> ('cmd, 'reply, 'tel, 'ing, 'obs) resonance_pages \<Rightarrow> 'op
    \<Rightarrow> u64 list \<Rightarrow> ResonancePlaneClient \<times> 'ing
    \<Rightarrow> (ResonancePlaneClient \<times> 'ing) \<times> (('qerr, 'werr, 'status) PlaneClientError, u64) result" where
  "plane_submit W R opcode arguments st =
    (case st of (c, ing) \<Rightarrow>
      if pc_pending c \<noteq> None then ((c, ing), Err CommandAlreadyPending)
      else let sequence = pc_next_sequence c;
               command = command_new W opcode sequence (pc_capability c) arguments
           in ((c\<lparr>pc_next_sequence := wrapping_next sequence, pc_pending := Some sequence\<rparr>,
                ingress_submit R command ing), Ok sequence))"

text \<open>
  \<open>obs\<close> is the observation page when the last published sequence is read, \<open>obs'\<close> when the reply is:
  the kernel may publish in between.
\<close>

definition plane_poll_reply ::
  "('op, 'cmd, 'reply, 'status, 'tel, 'werr) nexus_wire \<Rightarrow> ('cmd, 'reply, 'tel, 'ing, 'obs) resonance_pages \<Rightarrow> 'obs \<Rightarrow> 'obs
    \<Rightarrow> ResonancePlaneClient \<Rightarrow> ResonancePlaneClient \<times> (('qerr, 'werr, 'status) PlaneClientError, 'reply option) result" where
  "plane_poll_reply W R obs obs' c =
    (case pc_pending c of None \<Rightarrow> (c, Ok None)
     | Some expected \<Rightarrow>
       let published = last_reply_sequence R obs in
       if published = 0 \<or> published < expected then (c, Ok None)
       else if published > expected then
         (c\<lparr>pc_pending := None, pc_dropped_replies := saturating_add (pc_dropped_replies c) 1\<rparr>,
          Err (UnexpectedReply expected published))
       else (case obs_reply R obs' expected of None \<Rightarrow> (c, Ok None)
        | Some reply \<Rightarrow>
          (case reply_validate W reply expected of
             Inl e \<Rightarrow> (c, Err (PlaneWire e))
           | Inr status \<Rightarrow>
               (c\<lparr>pc_pending := None\<rparr>, if status \<noteq> status_Ok W then Err (PlaneKernel status) else Ok (Some reply)))))"

definition has_pending_command :: "ResonancePlaneClient \<Rightarrow> bool" where
  "has_pending_command c \<longleftrightarrow> pc_pending c \<noteq> None"

definition dropped_commands :: "('cmd, 'reply, 'tel, 'ing, 'obs) resonance_pages \<Rightarrow> 'ing \<Rightarrow> u64" where
  "dropped_commands R ing = saturating_add (malformed_frames R ing) (overwritten_frames R ing)"

definition plane_telemetry :: "('cmd, 'reply, 'tel, 'ing, 'obs) resonance_pages \<Rightarrow> 'obs \<Rightarrow> 'tel option" where
  "plane_telemetry R obs = obs_telemetry R obs"

definition telemetry_publications :: "('cmd, 'reply, 'tel, 'ing, 'obs) resonance_pages \<Rightarrow> 'obs \<Rightarrow> u64" where
  "telemetry_publications R obs = obs_telemetry_publications R obs"

definition reply_publications :: "('cmd, 'reply, 'tel, 'ing, 'obs) resonance_pages \<Rightarrow> 'obs \<Rightarrow> u64" where
  "reply_publications R obs = obs_reply_publications R obs"

definition dropped_replies :: "ResonancePlaneClient \<Rightarrow> u64" where
  "dropped_replies c = pc_dropped_replies c"

section \<open>The certificate reader\<close>

record ('cert, 'outcome, 'page, 'cerr) certificate_page =
  page_align :: nat
  page_compatible :: "'page \<Rightarrow> bool"
  page_snapshot :: "'page \<Rightarrow> 'cert option"
  page_echo :: "'page \<Rightarrow> u64 \<times> u64 \<times> u64"
  cert_validate :: "'cert \<Rightarrow> ('cerr, unit) result"
  cert_outcome :: "'cert \<Rightarrow> ('cerr, 'outcome) result"
  outcome_Committed :: 'outcome

datatype 'cerr CertificateReaderError =
  CertNullAddress | CertMisalignedAddress | IncompatiblePage | InvalidCertificate 'cerr

record EchoState =
  echo_chain_root :: u64
  echo_sequence :: u64
  echo_verdict :: u64

text \<open>A reader is the page it refers to; \<open>mem\<close> gives the page mapped at an address.\<close>

definition reader_from_address ::
  "('cert, 'outcome, 'page, 'cerr) certificate_page \<Rightarrow> (nat \<Rightarrow> 'page) \<Rightarrow> nat \<Rightarrow> ('cerr CertificateReaderError, nat) result" where
  "reader_from_address P mem address =
    (if address = 0 then Err CertNullAddress
     else if address mod page_align P \<noteq> 0 then Err CertMisalignedAddress
     else if \<not> page_compatible P (mem address) then Err IncompatiblePage
     else Ok address)"

definition reader_latest ::
  "('cert, 'outcome, 'page, 'cerr) certificate_page \<Rightarrow> 'page \<Rightarrow> ('cerr CertificateReaderError, 'cert option) result" where
  "reader_latest P page =
    (case page_snapshot P page of None \<Rightarrow> Ok None
     | Some certificate \<Rightarrow>
         and_then (map_err InvalidCertificate (cert_validate P certificate)) (\<lambda>_. Ok (Some certificate)))"

text \<open>\<open>cert_outcome\<close> is \<open>CertificateOutcome::try_from\<close> on the certificate's outcome field.\<close>

definition reader_latest_committed ::
  "('cert, 'outcome, 'page, 'cerr) certificate_page \<Rightarrow> 'page \<Rightarrow> ('cerr CertificateReaderError, 'cert option) result" where
  "reader_latest_committed P page =
    and_then (reader_latest P page) (\<lambda>found.
      case found of None \<Rightarrow> Ok None
      | Some certificate \<Rightarrow>
          and_then (map_err InvalidCertificate (cert_outcome P certificate)) (\<lambda>outcome.
            Ok (if outcome = outcome_Committed P then Some certificate else None)))"

definition reader_echo_state :: "('cert, 'outcome, 'page, 'cerr) certificate_page \<Rightarrow> 'page \<Rightarrow> EchoState" where
  "reader_echo_state P page =
    (case page_echo P page of (chain_root, sequence, verdict) \<Rightarrow>
      \<lparr>echo_chain_root = chain_root, echo_sequence = sequence, echo_verdict = verdict\<rparr>)"

section \<open>Results\<close>

text \<open>A reply is handed out only when the kernel accepted the call and the reply validates, as successful, for its command.\<close>

lemma nexus_transact_Ok_iff:
  "nexus_transact W kern opcode arguments c = (c', Ok reply) \<longleftrightarrow>
     c' = nexus_advance c
   \<and> (\<exists>rax. kern (command_new W opcode (nc_next_sequence c) (nc_capability c) arguments) (reply_ZERO W) = (rax, reply)
        \<and> 0 \<le> sint rax)
   \<and> reply_validate W reply (nc_next_sequence c) = Inr (status_Ok W)"
  by (auto simp: nexus_transact_def Let_def rust_result syscall_decode_Ok_iff split: prod.splits if_splits)

lemma pack_halves_fields:
  fixes low :: u32
  shows "(ucast (pack_halves (ucast low) high) :: u32) = low" "(ucast (drop_bit 32 (pack_halves (ucast low) high)) :: u32) = high"
  by (rule bit_word_eqI; auto simp: pack_halves_def bit_ucast_iff bit_or_iff bit_push_bit_iff bit_drop_bit_eq
      dest: bit_imp_le_length)+

lemma task_handle_fields:
  "(ucast (task_handle slot generation) :: u16) = slot" "(ucast (drop_bit 16 (task_handle slot generation)) :: u16) = generation"
  by (rule bit_word_eqI; auto simp: task_handle_def bit_ucast_iff bit_or_iff bit_push_bit_iff bit_drop_bit_eq
      dest: bit_imp_le_length)+

lemma reader_latest_committed_Some_iff:
  "reader_latest_committed P page = Ok (Some cert) \<longleftrightarrow>
     page_snapshot P page = Some cert \<and> cert_validate P cert = Ok () \<and> cert_outcome P cert = Ok (outcome_Committed P)"
  by (auto simp: reader_latest_committed_def reader_latest_def rust_result split: option.splits if_splits)

text \<open>
  Everything a plane client can do, against pages that show anything at any time.  \<open>sent\<close> is the list
  of the sequence numbers it submitted, \<open>closed\<close> that of the ones it stopped waiting for, each with
  the reply handed to the caller if there was one.  The queue error no operation builds is \<open>unit\<close> here.
\<close>

inductive plane_reach ::
  "('op, 'cmd, 'reply, 'status, 'tel, 'werr) nexus_wire \<Rightarrow> ('cmd, 'reply, 'tel, 'ing, 'obs) resonance_pages
    \<Rightarrow> ResonancePlaneClient \<times> 'ing \<Rightarrow> u64 list \<Rightarrow> (u64 \<times> 'reply option) list \<Rightarrow> bool" for W R where
  start: "plane_from_addresses R ing obs ia oa cap = (Ok c :: ((unit, 'werr, 'status) PlaneClientError, _) result) \<Longrightarrow>
    plane_reach W R (c, ing ia) [] []"
| submit: "plane_reach W R st sent closed \<Longrightarrow>
    plane_submit W R opcode arguments st = (st', res :: ((unit, 'werr, 'status) PlaneClientError, _) result) \<Longrightarrow>
    plane_reach W R st' (case res of Inr n \<Rightarrow> sent @ [n] | Inl _ \<Rightarrow> sent) closed"
| poll: "plane_reach W R (c, ing) sent closed \<Longrightarrow>
    plane_poll_reply W R obs obs' c = (c', res :: ((unit, 'werr, 'status) PlaneClientError, _) result) \<Longrightarrow>
    plane_reach W R (c', ing') sent
      (if pc_pending c \<noteq> None \<and> pc_pending c' = None
       then closed @ [(the (pc_pending c), case res of Inr r \<Rightarrow> r | Inl _ \<Rightarrow> None)] else closed)"

definition plane_inv ::
  "('op, 'cmd, 'reply, 'status, 'tel, 'werr) nexus_wire \<Rightarrow> ResonancePlaneClient \<Rightarrow> u64 list \<Rightarrow> (u64 \<times> 'reply option) list \<Rightarrow> bool" where
  "plane_inv W c sent closed \<longleftrightarrow>
     pc_next_sequence c = (wrapping_next ^^ length sent) 1
   \<and> sent = map (\<lambda>i. (wrapping_next ^^ i) 1) [0..<length sent]
   \<and> sent = map fst closed @ (case pc_pending c of None \<Rightarrow> [] | Some n \<Rightarrow> [n])
   \<and> (\<forall>n r. (n, Some r) \<in> set closed \<longrightarrow> reply_validate W r n = Inr (status_Ok W))"

lemma plane_submit_cases:
  assumes "plane_submit W R opcode arguments (c, ing) = (st', res)"
  obtains (busy) n where "pc_pending c = Some n" "st' = (c, ing)" "res = Inl CommandAlreadyPending"
  | (sent) "pc_pending c = None" "res = Inr (pc_next_sequence c)"
      "fst st' = c\<lparr>pc_next_sequence := wrapping_next (pc_next_sequence c), pc_pending := Some (pc_next_sequence c)\<rparr>"
  using assms by (auto simp: plane_submit_def Let_def split: if_splits)

lemma plane_poll_cases:
  assumes "plane_poll_reply W R obs obs' c = (c', res)"
  obtains (waiting) "c' = c"
  | (lost) n where "pc_pending c = Some n" "\<not> is_ok res" "pc_pending c' = None" "pc_next_sequence c' = pc_next_sequence c"
  | (answered) n r where "pc_pending c = Some n" "c' = c\<lparr>pc_pending := None\<rparr>"
      "is_ok res \<Longrightarrow> res = Inr (Some r) \<and> reply_validate W r n = Inr (status_Ok W)"
  using assms unfolding plane_poll_reply_def
  by (auto simp: Let_def split: option.splits if_splits sum.splits)

lemma plane_inv_reach:
  assumes "plane_reach W R st sent closed"
  shows "plane_inv W (fst st) sent closed"
  using assms
proof induction
  case start
  then show ?case by (auto simp: plane_from_addresses_def plane_inv_def split: if_splits)
next
  case (submit st sent closed opcode arguments st' res)
  obtain c ing where st: "st = (c, ing)" by fastforce
  from submit(2) [unfolded st] submit(3) st show ?case
    by (cases rule: plane_submit_cases) (auto simp: plane_inv_def)
next
  case (poll c ing sent closed obs obs' c' res ing')
  from poll(2) show ?case
  proof (cases rule: plane_poll_cases)
    case waiting
    with poll.IH show ?thesis by auto
  next
    case (lost n)
    with poll.IH show ?thesis by (cases res) (auto simp: plane_inv_def)
  next
    case (answered n r)
    with poll.IH show ?thesis by (cases res) (auto simp: plane_inv_def)
  qed
qed


text \<open>One command sent, answered and closed, and a second one pending.\<close>

definition example_wire :: "(nat, u64, u64, bool, unit, unit) nexus_wire" where
  "example_wire = \<lparr>QueryStats = 0, AttachTask = 1, Entangle = 2, SetCollapseThreshold = 3, SetPriorityMass = 4,
     OfferKairos = 5, command_new = (\<lambda>op n cap args. n), reply_ZERO = 0,
     reply_validate = (\<lambda>r n. if r = n then Inr True else Inl ()), status_Ok = True,
     telemetry_ZERO = (), telemetry_validate = (\<lambda>_. Inr ())\<rparr>"

definition example_pages :: "(u64, u64, unit, u64, u64) resonance_pages" where
  "example_pages = \<lparr>ingress_align = 4096, observation_align = 4096, ingress_compatible = (\<lambda>_. True),
     ingress_submit = (\<lambda>cmd _. cmd), malformed_frames = (\<lambda>_. 0), overwritten_frames = (\<lambda>_. 0),
     observation_compatible = (\<lambda>_. True), obs_telemetry = (\<lambda>_. None), last_reply_sequence = (\<lambda>n. n),
     obs_telemetry_publications = (\<lambda>_. 0), obs_reply_publications = (\<lambda>_. 0),
     obs_reply = (\<lambda>o' n. if o' = n then Some n else None)\<rparr>"

definition example_plane :: "u64 \<Rightarrow> u64 option \<Rightarrow> ResonancePlaneClient" where
  "example_plane n p = \<lparr>pc_capability = 9, pc_next_sequence = n, pc_pending = p, pc_dropped_replies = 0\<rparr>"

lemma example_plane_reach:
  "plane_reach example_wire example_pages (example_plane 3 (Some 2), 2) [1, 2] [(1, Some 1)]"
proof -
  note defs = example_wire_def example_pages_def example_plane_def
  have "plane_reach example_wire example_pages (example_plane 1 None, 0) [] []"
    using plane_reach.start [of example_pages "\<lambda>_. 0" "\<lambda>_. 0" 4096 8192 9 "example_plane 1 None"]
    by (simp add: plane_from_addresses_def defs)
  from plane_reach.submit [OF this, of 0 "[]" "(example_plane 2 (Some 1), 1)" "Inr 1"]
  have "plane_reach example_wire example_pages (example_plane 2 (Some 1), 1) [1] []"
    by (simp add: plane_submit_def defs wrapping_next_def)
  from plane_reach.poll [OF this, of 1 1 "example_plane 2 None" "Inr (Some 1)" 1]
  have "plane_reach example_wire example_pages (example_plane 2 None, 1) [1] [(1, Some 1)]"
    by (simp add: plane_poll_reply_def defs)
  from plane_reach.submit [OF this, of 0 "[]" "(example_plane 3 (Some 2), 2)" "Inr 2"]
  show ?thesis by (simp add: plane_submit_def defs wrapping_next_def)
qed


text \<open>
  A reply that does not validate does not end the wait: until the observation page changes, the
  client can neither obtain an answer nor submit another command.
\<close>

lemma malformed_reply_wedges:
  assumes "pc_pending c = Some n" "n \<noteq> 0" "last_reply_sequence R obs = n" "obs_reply R obs n = Some r"
    and "reply_validate W r n = Inl e"
  shows "plane_poll_reply W R obs obs c = (c, Err (PlaneWire e))"
    "plane_submit W R opcode arguments (c, ing) = ((c, ing), Err CommandAlreadyPending)"
  using assms by (simp_all add: plane_poll_reply_def plane_submit_def)

end
