(* ===== verification/Process_Runtime.thy ===== *)
theory Process_Runtime
  imports Env_Block Kairos
begin

text \<open>
  Early process initialisation (\<open>runtime.rs\<close>): the argument and environment blocks of the entry stack,
  the ABI and topology handshake, and the default placement derived from it, in the order the code
  runs them.  The feature words of the \<open>aether\<close> crate are the parameter \<open>optional_features\<close>.
\<close>

definition DEFAULT_WORK_UNITS :: nat where "DEFAULT_WORK_UNITS = 1024"

definition DEFAULT_REQUIRED_FEATURES :: "kairos_limits \<Rightarrow> u64" where
  "DEFAULT_REQUIRED_FEATURES lim = SYSCALL_BASIC lim"

record ProcessRuntime =
  rt_argv :: QuantumArgv
  rt_environment :: EnvSnapshot
  rt_kairos :: KairosInit
  rt_affinity :: CpuAffinityHint
  rt_partition :: WorkPartition

text \<open>\<open>None\<close>: a scan that does not end inside the address space, or a panic of the partitioning.\<close>

definition runtime_initialize ::
  "kairos_limits \<Rightarrow> (AbiRequest \<Rightarrow> isize \<times> AbiReply) \<Rightarrow> topology_kernel \<Rightarrow> memory \<Rightarrow> nat \<Rightarrow> u64 \<Rightarrow> u64
    \<Rightarrow> WorkloadClass \<Rightarrow> nat \<Rightarrow> RawQuerySlot \<times> TopologySnapshot option
    \<Rightarrow> ((RawQuerySlot \<times> TopologySnapshot option) \<times> (KairosBootError, ProcessRuntime) result) option" where
  "runtime_initialize lim abi topo m stack_ptr required optional workload work_units st =
    (let argv = from_stack m stack_ptr in
     Option.bind (env_collapse m (envp_base argv)) (\<lambda>environment.
       case kairos_run lim abi topo required optional st of
         (st', Inl e) \<Rightarrow> Some (st', Err e)
       | (st', Inr init) \<Rightarrow>
           map_option (\<lambda>partition.
             (st', Ok \<lparr>rt_argv = argv, rt_environment = environment, rt_kairos = init,
                rt_affinity = compute_affinity lim (init_topology init) workload, rt_partition = partition\<rparr>))
             (partition_work lim (init_topology init) work_units)))"

definition runtime_initialize_native where
  "runtime_initialize_native lim optional_features abi topo m stack_ptr st =
    runtime_initialize lim abi topo m stack_ptr (DEFAULT_REQUIRED_FEATURES lim) optional_features WlCompute
      DEFAULT_WORK_UNITS st"

lemma runtime_initialize_total:
  assumes "env_collapse m (envp_base (from_stack m sp)) = Some snap"
  obtains st' e where "kairos_run lim abi topo required optional st = (st', Inl e)"
      "runtime_initialize lim abi topo m sp required optional workload n st = Some (st', Err e)"
  | st' i w where "kairos_run lim abi topo required optional st = (st', Inr i)"
      "fair_partition (init_topology i) n (partition_iter w)"
      "runtime_initialize lim abi topo m sp required optional workload n st = Some (st', Ok
         \<lparr>rt_argv = from_stack m sp, rt_environment = snap, rt_kairos = i,
          rt_affinity = compute_affinity lim (init_topology i) workload, rt_partition = w\<rparr>)"
proof -
  obtain st' res where run: "kairos_run lim abi topo required optional st = (st', res)" by fastforce
  show thesis
  proof (cases res)
    case (Inl e)
    with run assms that(1) [of st' e] show thesis by (simp add: runtime_initialize_def)
  next
    case (Inr i)
    with run have "kairos_run_with lim abi topo (negotiator_native lim) required optional st = (st', Ok i)"
      by (simp add: kairos_run_def)
    from partition_of_validated [OF kairos_run_with_Ok(3) [OF this], of n]
    obtain w where "partition_work lim (init_topology i) n = Some w"
      "fair_partition (init_topology i) n (partition_iter w)" by blast
    with run assms Inr that(2) [of st' i w] show thesis by (simp add: runtime_initialize_def)
  qed
qed

end
