(* ===== verification/Crest_Constants.thy ===== *)
theory Crest_Constants
  imports Quantum_Crest
begin

text \<open>
  The constants of \<open>quantum_crest.rs\<close> that only its clients read: the remaining snapshot flags and
  status codes, the desktop rights, the opcodes and the command flags.
\<close>

definition SNAPSHOT_FLAG_DISPLAY_ONLINE :: u64 where "SNAPSHOT_FLAG_DISPLAY_ONLINE = push_bit 1 1"
definition SNAPSHOT_FLAG_BLACKLAB_DEGRADED :: u64 where "SNAPSHOT_FLAG_BLACKLAB_DEGRADED = push_bit 2 1"
definition SNAPSHOT_FLAG_LEDGER_VERIFIED :: u64 where "SNAPSHOT_FLAG_LEDGER_VERIFIED = push_bit 6 1"
definition SNAPSHOT_FLAG_FRAME_DEADLINE_AT_RISK :: u64 where "SNAPSHOT_FLAG_FRAME_DEADLINE_AT_RISK = push_bit 7 1"
definition SNAPSHOT_FLAG_INPUT_PREDICTION_AVAILABLE :: u64 where "SNAPSHOT_FLAG_INPUT_PREDICTION_AVAILABLE = push_bit 8 1"
definition SNAPSHOT_FLAG_SAFE_MODE :: u64 where "SNAPSHOT_FLAG_SAFE_MODE = push_bit 9 1"
definition DESKTOP_RIGHT_OBSERVE :: u64 where "DESKTOP_RIGHT_OBSERVE = push_bit 0 1"
definition DESKTOP_RIGHT_PRESENT :: u64 where "DESKTOP_RIGHT_PRESENT = push_bit 1 1"
definition DESKTOP_RIGHT_FOCUS :: u64 where "DESKTOP_RIGHT_FOCUS = push_bit 2 1"
definition DESKTOP_RIGHT_CAPTURE :: u64 where "DESKTOP_RIGHT_CAPTURE = push_bit 3 1"
definition DESKTOP_RIGHT_RECOVER :: u64 where "DESKTOP_RIGHT_RECOVER = push_bit 4 1"
definition DESKTOP_RIGHT_ADMINISTER :: u64 where "DESKTOP_RIGHT_ADMINISTER = push_bit 5 1"
definition OPCODE_PRESENT :: u32 where "OPCODE_PRESENT = 1"
definition OPCODE_ACKNOWLEDGE_PLAN :: u32 where "OPCODE_ACKNOWLEDGE_PLAN = 2"
definition OPCODE_CAPTURE_CHECKPOINT :: u32 where "OPCODE_CAPTURE_CHECKPOINT = 3"
definition OPCODE_REQUEST_RECOVERY :: u32 where "OPCODE_REQUEST_RECOVERY = 4"
definition OPCODE_SET_FOCUS :: u32 where "OPCODE_SET_FOCUS = 5"
definition OPCODE_RELEASE_SURFACE :: u32 where "OPCODE_RELEASE_SURFACE = 6"
definition OPCODE_QUERY_OBJECT :: u32 where "OPCODE_QUERY_OBJECT = 7"
definition COMMAND_FLAG_PRESENT_CERTIFICATE_ONLY :: u64 where "COMMAND_FLAG_PRESENT_CERTIFICATE_ONLY = push_bit 0 1"
definition COMMAND_FLAG_PRESENT_ALLOW_TEARING :: u64 where "COMMAND_FLAG_PRESENT_ALLOW_TEARING = push_bit 1 1"
definition COMMAND_FLAG_PRESENT_RECOVERY_FRAME :: u64 where "COMMAND_FLAG_PRESENT_RECOVERY_FRAME = push_bit 2 1"
definition COMMAND_FLAG_PRESENT_SECURE_CONTENT :: u64 where "COMMAND_FLAG_PRESENT_SECURE_CONTENT = push_bit 3 1"
definition STATUS_DENIED :: i32 where "STATUS_DENIED = - 2"
definition STATUS_STALE :: i32 where "STATUS_STALE = - 3"
definition STATUS_BUSY :: i32 where "STATUS_BUSY = - 4"
definition STATUS_UNSUPPORTED :: i32 where "STATUS_UNSUPPORTED = - 5"
definition STATUS_CORRUPT :: i32 where "STATUS_CORRUPT = - 6"
definition STATUS_BACKEND :: i32 where "STATUS_BACKEND = - 7"
definition STATUS_DEADLINE :: i32 where "STATUS_DEADLINE = - 8"

lemmas crest_flags = SNAPSHOT_FLAG_HERMES_ONLINE_def SNAPSHOT_FLAG_QUARANTINE_ACTIVE_def SNAPSHOT_FLAG_DMA_REVOKED_def
  SNAPSHOT_FLAG_RECOVERY_PENDING_def STATUS_OK_def STATUS_INVALID_def
  SNAPSHOT_FLAG_DISPLAY_ONLINE_def
  SNAPSHOT_FLAG_BLACKLAB_DEGRADED_def
  SNAPSHOT_FLAG_LEDGER_VERIFIED_def
  SNAPSHOT_FLAG_FRAME_DEADLINE_AT_RISK_def
  SNAPSHOT_FLAG_INPUT_PREDICTION_AVAILABLE_def
  SNAPSHOT_FLAG_SAFE_MODE_def
  DESKTOP_RIGHT_OBSERVE_def
  DESKTOP_RIGHT_PRESENT_def
  DESKTOP_RIGHT_FOCUS_def
  DESKTOP_RIGHT_CAPTURE_def
  DESKTOP_RIGHT_RECOVER_def
  DESKTOP_RIGHT_ADMINISTER_def
  OPCODE_PRESENT_def
  OPCODE_ACKNOWLEDGE_PLAN_def
  OPCODE_CAPTURE_CHECKPOINT_def
  OPCODE_REQUEST_RECOVERY_def
  OPCODE_SET_FOCUS_def
  OPCODE_RELEASE_SURFACE_def
  OPCODE_QUERY_OBJECT_def
  COMMAND_FLAG_PRESENT_CERTIFICATE_ONLY_def
  COMMAND_FLAG_PRESENT_ALLOW_TEARING_def
  COMMAND_FLAG_PRESENT_RECOVERY_FRAME_def
  COMMAND_FLAG_PRESENT_SECURE_CONTENT_def
  STATUS_DENIED_def
  STATUS_STALE_def
  STATUS_BUSY_def
  STATUS_UNSUPPORTED_def
  STATUS_CORRUPT_def
  STATUS_BACKEND_def
  STATUS_DEADLINE_def

text \<open>A set of flags is the disjunction of its members, and each flag can be read back from it.\<close>

definition flag_union :: "u64 list \<Rightarrow> u64" where "flag_union fs = foldr (OR) fs 0"

definition snapshot_flag_list :: "u64 list" where
  "snapshot_flag_list = [SNAPSHOT_FLAG_HERMES_ONLINE, SNAPSHOT_FLAG_DISPLAY_ONLINE, SNAPSHOT_FLAG_BLACKLAB_DEGRADED,
     SNAPSHOT_FLAG_QUARANTINE_ACTIVE, SNAPSHOT_FLAG_DMA_REVOKED, SNAPSHOT_FLAG_RECOVERY_PENDING,
     SNAPSHOT_FLAG_LEDGER_VERIFIED, SNAPSHOT_FLAG_FRAME_DEADLINE_AT_RISK, SNAPSHOT_FLAG_INPUT_PREDICTION_AVAILABLE,
     SNAPSHOT_FLAG_SAFE_MODE]"

definition desktop_right_list :: "u64 list" where
  "desktop_right_list = [DESKTOP_RIGHT_OBSERVE, DESKTOP_RIGHT_PRESENT, DESKTOP_RIGHT_FOCUS, DESKTOP_RIGHT_CAPTURE,
     DESKTOP_RIGHT_RECOVER, DESKTOP_RIGHT_ADMINISTER]"

definition command_flag_list :: "u64 list" where
  "command_flag_list = [COMMAND_FLAG_PRESENT_CERTIFICATE_ONLY, COMMAND_FLAG_PRESENT_ALLOW_TEARING,
     COMMAND_FLAG_PRESENT_RECOVERY_FRAME, COMMAND_FLAG_PRESENT_SECURE_CONTENT]"

definition status_list :: "i32 list" where
  "status_list = [STATUS_OK, STATUS_INVALID, STATUS_DENIED, STATUS_STALE, STATUS_BUSY, STATUS_UNSUPPORTED,
     STATUS_CORRUPT, STATUS_BACKEND, STATUS_DEADLINE]"

lemma flag_families:
  "snapshot_flag_list = map (\<lambda>i. push_bit i 1) [0..<10]"
  "desktop_right_list = map (\<lambda>i. push_bit i 1) [0..<6]"
  "command_flag_list = map (\<lambda>i. push_bit i 1) [0..<4]"
  by (simp_all add: snapshot_flag_list_def desktop_right_list_def command_flag_list_def crest_flags upt_rec numeral_eq_Suc)

lemma bit_flag_union: "bit (flag_union fs) n \<longleftrightarrow> (\<exists>f \<in> set fs. bit f n)"
  by (induction fs) (auto simp: flag_union_def bit_or_iff)

lemma flag_union_member:
  assumes "set js \<subseteq> {..<64}" "i < 64"
  shows "flag_union (map (\<lambda>j. push_bit j 1) js) AND push_bit i 1 \<noteq> 0 \<longleftrightarrow> i \<in> set js"
proof -
  have "flag_union (map (\<lambda>j. push_bit j 1) js) AND push_bit i 1 \<noteq> 0 \<longleftrightarrow> bit (flag_union (map (\<lambda>j. push_bit j 1) js)) i"
    by (simp add: push_bit_of_1 and_exp_eq_0_iff_not_bit)
  also have "\<dots> \<longleftrightarrow> i \<in> set js" using assms by (auto simp: bit_flag_union bit_exp_iff)
  finally show ?thesis .
qed

lemma status_codes: "map sint status_list = map (\<lambda>n. - int n) [0..<9]"
  by (simp add: status_list_def crest_flags upt_rec)

end
