(* ===== verification/Float64.thy ===== *)
theory Float64
  imports Complex_Main "HOL-Library.Log_Nat"
begin

text \<open>
  Rust's \<open>f64\<close>: IEEE 754 binary64 with the default rounding mode, as far as the sources use it.  A
  finite value is its exact rational with a sign bit (which matters for zero only); every operation
  computes exactly and rounds once, to nearest with ties to even, with gradual underflow and overflow
  to infinity.
\<close>

section \<open>Rounding to 53 bits\<close>

text \<open>The exponent of the leading bit of a positive rational.\<close>

definition ilog2 :: "rat \<Rightarrow> int" where
  "ilog2 q = (case quotient_of q of (n, d) \<Rightarrow>
     let k = bitlen n - bitlen d in if 2 powi k \<le> q then k else k - 1)"

text \<open>The nearest integer, the even one of two.\<close>

definition round_even :: "rat \<Rightarrow> int" where
  "round_even x = (let f = \<lfloor>x\<rfloor>; d = x - of_int f in
     if d < 1 / 2 \<or> d = 1 / 2 \<and> even f then f else f + 1)"

definition ulp_exponent :: "rat \<Rightarrow> int" where
  "ulp_exponent q = max (ilog2 \<bar>q\<bar> - 52) (- 1074)"

definition rnd :: "rat \<Rightarrow> rat" where
  "rnd q = (if q = 0 then 0 else of_int (round_even (q / 2 powi ulp_exponent q)) * 2 powi ulp_exponent q)"

section \<open>Values and operations\<close>

text \<open>The boolean is the sign bit.\<close>

datatype f64 = NaN | Inf bool | Num bool rat

definition f64_round :: "bool \<Rightarrow> rat \<Rightarrow> f64" where
  "f64_round zero_sign q =
    (let r = rnd q in
     if 2 ^ 1024 \<le> \<bar>r\<bar> then Inf (q < 0) else Num (if q = 0 then zero_sign else q < 0) r)"

definition f64_literal :: "rat \<Rightarrow> f64" where "f64_literal q = f64_round False q"

fun f64_neg :: "f64 \<Rightarrow> f64" where
  "f64_neg NaN = NaN"
| "f64_neg (Inf s) = Inf (\<not> s)"
| "f64_neg (Num s v) = Num (\<not> s) (- v)"

fun f64_add :: "f64 \<Rightarrow> f64 \<Rightarrow> f64" where
  "f64_add (Num s v) (Num t w) = f64_round (s \<and> t) (v + w)"
| "f64_add (Inf s) (Num t w) = Inf s"
| "f64_add (Num s v) (Inf t) = Inf t"
| "f64_add (Inf s) (Inf t) = (if s = t then Inf s else NaN)"
| "f64_add NaN y = NaN"
| "f64_add x NaN = NaN"

definition f64_sub :: "f64 \<Rightarrow> f64 \<Rightarrow> f64" where "f64_sub x y = f64_add x (f64_neg y)"

fun f64_mul :: "f64 \<Rightarrow> f64 \<Rightarrow> f64" where
  "f64_mul (Num s v) (Num t w) = f64_round (s \<noteq> t) (v * w)"
| "f64_mul (Inf s) (Num t w) = (if w = 0 then NaN else Inf (s \<noteq> t))"
| "f64_mul (Num s v) (Inf t) = (if v = 0 then NaN else Inf (s \<noteq> t))"
| "f64_mul (Inf s) (Inf t) = Inf (s \<noteq> t)"
| "f64_mul NaN y = NaN"
| "f64_mul x NaN = NaN"

fun f64_less :: "f64 \<Rightarrow> f64 \<Rightarrow> bool" where
  "f64_less (Num s v) (Num t w) = (v < w)"
| "f64_less (Inf s) (Num t w) = s"
| "f64_less (Num s v) (Inf t) = (\<not> t)"
| "f64_less (Inf s) (Inf t) = (s \<and> \<not> t)"
| "f64_less NaN y = False"
| "f64_less x NaN = False"

text \<open>\<open>f64::clamp\<close> for bounds in order: a NaN stays a NaN.\<close>

definition f64_clamp :: "f64 \<Rightarrow> f64 \<Rightarrow> f64 \<Rightarrow> f64" where
  "f64_clamp lo hi x =
    (let x1 = (if f64_less x lo then lo else x) in if f64_less hi x1 then hi else x1)"

section \<open>Facts on rounding\<close>

lemma powi_two_pos [simp]: "(0 :: rat) < 2 powi k"
  by simp

lemma powi_two_le: "a \<le> b \<Longrightarrow> (2 :: rat) powi a \<le> 2 powi b"
  by (simp add: power_int_increasing)

lemma powi_two_split: "(2 :: rat) powi a = of_int (2 ^ nat (a - b)) * 2 powi b" if "b \<le> a"
proof -
  have "(2 :: rat) powi a = 2 powi (a - b) * 2 powi b" by (simp flip: power_int_add)
  also have "(2 :: rat) powi (a - b) = 2 ^ nat (a - b)" using that by (simp add: power_int_def)
  finally show ?thesis by simp
qed

lemma ilog2_bounds:
  assumes "0 < q"
  shows "2 powi ilog2 q \<le> q" "q < 2 powi (ilog2 q + 1)"
proof -
  obtain n d where nd: "quotient_of q = (n, d)" by fastforce
  have d: "0 < d" using nd by (rule quotient_of_denom_pos)
  have q: "q = of_int n / of_int d" using nd by (rule quotient_of_div)
  with assms d have n: "0 < n" by (simp add: zero_less_divide_iff)
  have up: "(of_int m :: rat) < 2 powi bitlen m" and lo: "2 powi (bitlen m - 1) \<le> (of_int m :: rat)" if "0 < m" for m
  proof -
    have b: "2 ^ nat (bitlen m - 1) \<le> m" "m < 2 ^ nat (bitlen m)" using bitlen_bounds [OF that] by auto
    have p: "0 < bitlen m" using that bitlen_nonneg [of m] bitlen_eq_zero_iff [of m] by linarith
    have "(of_int (2 ^ nat (bitlen m - 1)) :: rat) \<le> of_int m" "(of_int m :: rat) < of_int (2 ^ nat (bitlen m))"
      using b by (simp_all only: of_int_le_iff of_int_less_iff)
    then show "(of_int m :: rat) < 2 powi bitlen m" "2 powi (bitlen m - 1) \<le> (of_int m :: rat)"
      using p by (simp_all add: power_int_def)
  qed
  let ?k = "bitlen n - bitlen d"
  have "q < 2 powi bitlen n / 2 powi (bitlen d - 1)"
    unfolding q using up [OF n] lo [OF d] d n by (intro frac_less) simp_all
  also have "\<dots> = 2 powi (?k + 1)" by (simp add: algebra_simps flip: power_int_diff)
  finally have u: "q < 2 powi (?k + 1)" .
  have "2 powi (bitlen n - 1) / 2 powi bitlen d \<le> q"
    unfolding q using lo [OF n] up [OF d] d n by (intro frac_le) simp_all
  moreover have "2 powi (bitlen n - 1) / 2 powi bitlen d = (2 :: rat) powi (?k - 1)" by (simp add: algebra_simps flip: power_int_diff)
  ultimately have l: "2 powi (?k - 1) \<le> q" by simp
  show "2 powi ilog2 q \<le> q" "q < 2 powi (ilog2 q + 1)"
    using u l by (simp_all add: ilog2_def nd Let_def)
qed

lemma ilog2_unique:
  assumes "2 powi k \<le> q" "q < 2 powi (k + 1)"
  shows "ilog2 q = k"
proof -
  have "0 < q" using assms(1) powi_two_pos [of k] by linarith
  note b = ilog2_bounds [OF this]
  have "\<not> ilog2 q < k" "\<not> k < ilog2 q"
    using b assms powi_two_le [of "ilog2 q + 1" k] powi_two_le [of "k + 1" "ilog2 q"] by force+
  then show ?thesis by simp
qed

lemma ilog2_mono: "0 < x \<Longrightarrow> x \<le> y \<Longrightarrow> ilog2 x \<le> ilog2 y"
  using ilog2_bounds(1) [of x] ilog2_bounds(2) [of y] powi_two_le [of "ilog2 y + 1" "ilog2 x"] by force

lemma round_even_bounds: "\<lfloor>x\<rfloor> \<le> round_even x" "round_even x \<le> \<lfloor>x\<rfloor> + 1"
  by (simp_all add: round_even_def Let_def)

lemma round_even_of_int [simp]: "round_even (of_int m) = m"
  by (simp add: round_even_def)

lemma round_even_mono:
  assumes "x \<le> y"
  shows "round_even x \<le> round_even y"
proof (cases "\<lfloor>x\<rfloor> = \<lfloor>y\<rfloor>")
  case True
  with assms show ?thesis by (auto simp: round_even_def Let_def)
next
  case False
  with floor_mono [OF assms] have "\<lfloor>x\<rfloor> + 1 \<le> \<lfloor>y\<rfloor>" by simp
  with round_even_bounds [of x] round_even_bounds [of y] show ?thesis by linarith
qed

lemma round_even_error: "\<bar>of_int (round_even x) - x\<bar> \<le> 1 / 2"
  using floor_correct [of x]
  by (auto simp: round_even_def Let_def abs_if simp del: of_int_floor_le)

lemma round_even_minus: "round_even (- x) = - round_even x"
proof (cases "x = of_int \<lfloor>x\<rfloor>")
  case True
  then obtain m where "x = of_int m" by blast
  then show ?thesis using round_even_of_int [of "- m"] by simp
next
  case False
  have "of_int \<lfloor>x\<rfloor> < x" "x < of_int \<lfloor>x\<rfloor> + 1" using False floor_correct [of x] by (auto simp: less_le)
  then have "\<lfloor>- x\<rfloor> = - \<lfloor>x\<rfloor> - 1" by (intro floor_unique) simp_all
  then show ?thesis by (auto simp: round_even_def Let_def)
qed

lemma rnd_0 [simp]: "rnd 0 = 0"
  by (simp add: rnd_def)

lemma rnd_minus: "rnd (- q) = - rnd q"
  by (simp add: rnd_def ulp_exponent_def round_even_minus flip: minus_divide_left)

lemma rnd_pos_mono:
  assumes "0 < x" "x \<le> y"
  shows "rnd x \<le> rnd y"
proof (cases "ulp_exponent x = ulp_exponent y")
  case True
  with assms show ?thesis by (simp add: rnd_def round_even_mono divide_right_mono)
next
  case False
  let ?ex = "ulp_exponent x" and ?ey = "ulp_exponent y" and ?k = "ilog2 y"
  have il: "ilog2 x \<le> ?k" using assms by (rule ilog2_mono)
  with False assms have ey: "?ey = ?k - 52" and lt: "?ex < ?ey" "ilog2 x < ?k"
    by (auto simp: ulp_exponent_def max_def split: if_splits)
  have xb: "x \<le> 2 powi ?k"
    using ilog2_bounds(2) [OF assms(1)] powi_two_le [of "ilog2 x + 1" ?k] lt(2) by linarith
  have yb: "2 powi ?k \<le> y" using ilog2_bounds(1) [of y] assms by simp
  have "x / 2 powi ?ex \<le> of_int (2 ^ nat (?k - ?ex))"
    using xb powi_two_split [of ?ex ?k] lt ey by (simp add: pos_divide_le_eq)
  from round_even_mono [OF this] have rx: "round_even (x / 2 powi ?ex) \<le> 2 ^ nat (?k - ?ex)"
    by (simp only: round_even_of_int)
  have "of_int (2 ^ nat (?k - ?ey)) \<le> y / 2 powi ?ey"
    using yb powi_two_split [of ?ey ?k] ey by (simp add: pos_le_divide_eq)
  from round_even_mono [OF this] have ry: "2 ^ nat (?k - ?ey) \<le> round_even (y / 2 powi ?ey)"
    by (simp only: round_even_of_int)
  have "rnd x \<le> of_int (2 ^ nat (?k - ?ex)) * 2 powi ?ex"
    using assms rx by (simp only: rnd_def if_False less_imp_neq [symmetric] mult_right_mono of_int_le_iff powi_two_pos less_imp_le)
  also have "\<dots> = of_int (2 ^ nat (?k - ?ey)) * 2 powi ?ey"
    using powi_two_split [of ?ex ?k] powi_two_split [of ?ey ?k] lt ey by simp
  also have "\<dots> \<le> rnd y"
    using assms ry by (simp only: rnd_def if_False less_imp_neq [symmetric] order.strict_trans2 mult_right_mono of_int_le_iff powi_two_pos less_imp_le)
  finally show ?thesis .
qed

lemma rnd_nonneg: "0 \<le> x \<Longrightarrow> 0 \<le> rnd x"
  using round_even_mono [of 0 "x / 2 powi ulp_exponent x"] round_even_of_int [of 0] by (simp add: rnd_def)

lemma rnd_mono:
  assumes "x \<le> y"
  shows "rnd x \<le> rnd y"
proof -
  consider "0 < x" | "x \<le> 0" "0 \<le> y" | "y < 0" by linarith
  then show ?thesis
  proof cases
    case 1
    then show ?thesis using assms by (rule rnd_pos_mono)
  next
    case 2
    then show ?thesis using rnd_nonneg [of y] rnd_nonneg [of "- x"] by (simp add: rnd_minus)
  next
    case 3
    then show ?thesis using rnd_pos_mono [of "- y" "- x"] assms by (simp add: rnd_minus)
  qed
qed

text \<open>Every integer multiple of a large enough power of two that fits 53 bits is exact.\<close>

lemma rnd_exact_pos:
  assumes "0 < m" "m \<le> 2 ^ 53" "- 1074 \<le> e"
  shows "rnd (of_int m * 2 powi e) = of_int m * 2 powi e"
proof -
  let ?q = "of_int m * 2 powi e :: rat"
  let ?u = "ulp_exponent ?q"
  have q: "0 < ?q" using assms(1) by simp
  have "\<exists>j. ?q = of_int j * 2 powi ?u"
  proof (cases "m = 2 ^ 53")
    case True
    have "?q = 2 powi (e + 53)" by (simp add: True power_int_add)
    then have "ilog2 ?q = e + 53" by (intro ilog2_unique) (simp_all add: power_int_add)
    then have "?u = e + 1" using q assms(3) by (simp add: ulp_exponent_def)
    then have "?q = of_int (2 ^ 52) * 2 powi ?u" by (simp add: True power_int_add)
    then show ?thesis by blast
  next
    case False
    then have "m < 2 ^ 53" using assms(2) by simp
    then have "(of_int m :: rat) < of_int (2 ^ 53)" by (simp only: of_int_less_iff)
    then have "?q < 2 powi (e + 53)" by (simp add: power_int_add)
    moreover have "2 powi ilog2 ?q \<le> ?q" using ilog2_bounds(1) [OF q] .
    ultimately have "ilog2 ?q < e + 53" using powi_two_le [of "e + 53" "ilog2 ?q"] by linarith
    then have "?u \<le> e" using q assms(3) by (simp add: ulp_exponent_def)
    then have "?q = of_int (m * 2 ^ nat (e - ?u)) * 2 powi ?u" using powi_two_split [of ?u e] by simp
    then show ?thesis by blast
  qed
  then obtain j where "?q = of_int j * 2 powi ?u" ..
  then have "?q / 2 powi ?u = of_int j" by (metis nonzero_mult_div_cancel_right powi_two_pos less_irrefl)
  then show ?thesis using q \<open>?q = of_int j * 2 powi ?u\<close> by (simp add: rnd_def)
qed

lemma rnd_exact:
  assumes "\<bar>m\<bar> \<le> 2 ^ 53" "- 1074 \<le> e"
  shows "rnd (of_int m * 2 powi e) = of_int m * 2 powi e"
  using rnd_exact_pos [of m e] rnd_exact_pos [of "- m" e] assms rnd_minus [of "of_int m * 2 powi e"]
  by (cases "0 < m"; cases "m = 0") auto

lemma rnd_error:
  assumes "\<bar>q\<bar> < 2 powi k" "- 1021 \<le> k"
  shows "\<bar>rnd q - q\<bar> \<le> 2 powi (k - 54)"
proof (cases "q = 0")
  case False
  let ?u = "ulp_exponent q" and ?r = "round_even (q / 2 powi ulp_exponent q)"
  have "ilog2 \<bar>q\<bar> < k"
    using ilog2_bounds(1) [of "\<bar>q\<bar>"] False assms(1) powi_two_le [of k "ilog2 \<bar>q\<bar>"] by force
  then have u: "?u \<le> k - 53" using assms(2) by (simp add: ulp_exponent_def)
  have "rnd q - q = (of_int ?r - q / 2 powi ?u) * 2 powi ?u" using False by (simp add: rnd_def left_diff_distrib)
  then have "\<bar>rnd q - q\<bar> = \<bar>of_int ?r - q / 2 powi ?u\<bar> * 2 powi ?u" by (simp add: abs_mult)
  also have "\<dots> \<le> 1 / 2 * 2 powi ?u" by (intro mult_right_mono round_even_error) simp
  also have "\<dots> \<le> 1 / 2 * 2 powi (k - 53)" using powi_two_le [OF u] by simp
  also have "\<dots> = 2 powi (k - 54)" by (simp add: power_int_diff)
  finally show ?thesis .
qed simp

lemma rnd_idem: "rnd (rnd q) = rnd q"
proof (cases "q = 0")
  case False
  let ?u = "ulp_exponent q"
  have "\<bar>q\<bar> < 2 powi (ilog2 \<bar>q\<bar> + 1)" using ilog2_bounds(2) [of "\<bar>q\<bar>"] False by simp
  also have "\<dots> \<le> 2 powi (?u + 53)" by (intro powi_two_le) (simp add: ulp_exponent_def)
  also have "\<dots> = of_int (2 ^ 53) * 2 powi ?u" by (simp add: power_int_add)
  finally have "\<bar>q / 2 powi ?u\<bar> \<le> of_int (2 ^ 53)" by (simp add: pos_divide_le_eq)
  then have "q / 2 powi ?u \<le> of_int (2 ^ 53)" "of_int (- (2 ^ 53)) \<le> q / 2 powi ?u" by linarith+
  from this [THEN round_even_mono] have "\<bar>round_even (q / 2 powi ?u)\<bar> \<le> 2 ^ 53"
    unfolding round_even_of_int by linarith
  from rnd_exact [OF this, of ?u] False show ?thesis by (simp add: rnd_def ulp_exponent_def)
qed simp

section \<open>Well-formed values\<close>

definition f64_ok :: "f64 \<Rightarrow> bool" where
  "f64_ok x = (case x of Num s v \<Rightarrow> rnd v = v \<and> \<bar>v\<bar> < 2 ^ 1024 \<and> (v < 0 \<longrightarrow> s) \<and> (0 < v \<longrightarrow> \<not> s) | _ \<Rightarrow> True)"

lemma rnd_neg_imp: "rnd q < 0 \<Longrightarrow> q < 0"
  by (meson not_le rnd_nonneg)

lemma rnd_pos_imp: "0 < rnd q \<Longrightarrow> 0 < q"
  by (metis not_le rnd_0 rnd_mono)

lemma f64_ok_round: "f64_ok (f64_round s q)"
  using rnd_neg_imp [of q] rnd_pos_imp [of q] by (auto simp: f64_ok_def f64_round_def Let_def rnd_idem)

lemma f64_ok_neg: "f64_ok x \<Longrightarrow> f64_ok (f64_neg x)"
  by (cases x) (auto simp: f64_ok_def rnd_minus)

lemma f64_ok_literal: "f64_ok (f64_literal q)"
  by (simp add: f64_literal_def f64_ok_round)

lemma f64_ok_mul: "f64_ok (f64_mul x y)"
  by (cases "(x, y)" rule: f64_mul.cases) (simp_all add: f64_ok_round, simp_all add: f64_ok_def)

lemma f64_ok_add: "f64_ok (f64_add x y)"
  by (cases "(x, y)" rule: f64_add.cases) (simp_all add: f64_ok_round, simp_all add: f64_ok_def)

end
