(* ===== verification/Route_Policy.thy ===== *)
theory Route_Policy
  imports Float64
begin

text \<open>
  Route scoring, \<open>policy.rs\<close>, and the Fortran kernel \<open>native/slope_policy.f90\<close> that replaces it under
  the feature \<open>fortran-policy\<close>.  Both are evaluated operation by operation in binary64, without
  contraction into fused operations.
\<close>

section \<open>The Rust implementation\<close>

record RouteEvidence =
  authority :: f64
  liveness :: f64
  boundedness :: f64
  pressure :: f64

definition as_array :: "RouteEvidence \<Rightarrow> f64 list" where
  "as_array e = [authority e, liveness e, boundedness e, pressure e]"

definition unit_clamp :: "f64 \<Rightarrow> f64" where
  "unit_clamp x = f64_clamp (f64_literal 0) (f64_literal 1) x"

definition weighted_sum :: "f64 \<Rightarrow> f64 \<Rightarrow> f64 \<Rightarrow> f64 \<Rightarrow> f64" where
  "weighted_sum a l b p =
    f64_sub (f64_add (f64_add (f64_mul a (f64_literal (35 / 100))) (f64_mul l (f64_literal (25 / 100))))
      (f64_mul b (f64_literal (35 / 100)))) (f64_mul p (f64_literal (20 / 100)))"

definition route_score_impl :: "f64 list \<Rightarrow> f64" where
  "route_score_impl values =
    unit_clamp (weighted_sum (unit_clamp (values ! 0)) (unit_clamp (values ! 1))
      (unit_clamp (values ! 2)) (unit_clamp (values ! 3)))"

text \<open>\<open>native = None\<close> is a build without the feature, otherwise the linked function.\<close>

definition route_score :: "(f64 list \<Rightarrow> nat \<Rightarrow> f64) option \<Rightarrow> RouteEvidence \<Rightarrow> f64" where
  "route_score native e =
    (let values = as_array e in
     case native of None \<Rightarrow> route_score_impl values | Some f \<Rightarrow> f values (length values))"

section \<open>The Fortran kernel\<close>

text \<open>
  The intrinsics \<open>min\<close> and \<open>max\<close> leave open which argument they return when neither is less than the
  other: that choice is the parameter \<open>pick\<close>.
\<close>

definition fortran_min :: "(f64 \<Rightarrow> f64 \<Rightarrow> f64) \<Rightarrow> f64 \<Rightarrow> f64 \<Rightarrow> f64" where
  "fortran_min pick x y = (if f64_less x y then x else if f64_less y x then y else pick x y)"

definition fortran_max :: "(f64 \<Rightarrow> f64 \<Rightarrow> f64) \<Rightarrow> f64 \<Rightarrow> f64 \<Rightarrow> f64" where
  "fortran_max pick x y = (if f64_less x y then y else if f64_less y x then x else pick x y)"

definition fortran_clamp :: "(f64 \<Rightarrow> f64 \<Rightarrow> f64) \<Rightarrow> f64 \<Rightarrow> f64" where
  "fortran_clamp pick x = fortran_max pick (f64_literal 0) (fortran_min pick (f64_literal 1) x)"

definition arach_slope_route_score :: "(f64 \<Rightarrow> f64 \<Rightarrow> f64) \<Rightarrow> f64 list \<Rightarrow> nat \<Rightarrow> f64" where
  "arach_slope_route_score pick features count =
    (if count < 4 then f64_literal 0
     else fortran_clamp pick (weighted_sum (fortran_clamp pick (features ! 0)) (fortran_clamp pick (features ! 1))
       (fortran_clamp pick (features ! 2)) (fortran_clamp pick (features ! 3))))"

section \<open>The score as a number\<close>

definition clamp01 :: "rat \<Rightarrow> rat" where "clamp01 v = min 1 (max 0 v)"

text \<open>The number a clamped field stands for.\<close>

definition unit_value :: "f64 \<Rightarrow> rat" where
  "unit_value x = (case x of NaN \<Rightarrow> 0 | Inf s \<Rightarrow> (if s then 0 else 1) | Num s v \<Rightarrow> clamp01 v)"

definition weight :: "rat \<Rightarrow> rat \<Rightarrow> rat" where "weight c v = rnd (v * rnd c)"

definition sum_value :: "rat \<Rightarrow> rat \<Rightarrow> rat \<Rightarrow> rat \<Rightarrow> rat" where
  "sum_value a l b p =
    rnd (rnd (rnd (weight (35 / 100) a + weight (25 / 100) l) + weight (35 / 100) b) - weight (20 / 100) p)"

definition ideal_score :: "rat \<Rightarrow> rat \<Rightarrow> rat \<Rightarrow> rat \<Rightarrow> rat" where
  "ideal_score a l b p = clamp01 (35 / 100 * a + 25 / 100 * l + 35 / 100 * b - 20 / 100 * p)"

lemma clamp01_bounds: "0 \<le> clamp01 v" "clamp01 v \<le> 1"
  by (simp_all add: clamp01_def)

lemma unit_value_bounds: "0 \<le> unit_value x" "unit_value x \<le> 1"
  by (simp_all add: unit_value_def clamp01_bounds split: f64.splits)

lemma clamp01_mono: "v \<le> w \<Longrightarrow> clamp01 v \<le> clamp01 w"
  by (auto simp: clamp01_def)

lemma clamp01_lipschitz: "\<bar>clamp01 v - clamp01 w\<bar> \<le> \<bar>v - w\<bar>"
  by (auto simp: clamp01_def min_def max_def abs_if)

text \<open>Dyadic numbers of a few bits are exact.\<close>

lemma rnd_eighths:
  assumes "\<bar>m\<bar> \<le> 2 ^ 53"
  shows "rnd (of_int m / 8) = of_int m / 8"
proof -
  have "(2 :: rat) powi (- 3) = 1 / 8" by (simp add: power_int_minus)
  with rnd_exact [OF assms, of "- 3"] show ?thesis by simp
qed

lemma rnd_le_eighths: "q \<le> of_int m / 8 \<Longrightarrow> \<bar>m\<bar> \<le> 2 ^ 53 \<Longrightarrow> rnd q \<le> of_int m / 8"
  using rnd_mono [of q "of_int m / 8"] rnd_eighths [of m] by simp

lemma rnd_ge_eighths: "of_int m / 8 \<le> q \<Longrightarrow> \<bar>m\<bar> \<le> 2 ^ 53 \<Longrightarrow> of_int m / 8 \<le> rnd q"
  using rnd_mono [of "of_int m / 8" q] rnd_eighths [of m] by simp

lemma rnd_small_integers [simp]: "rnd 1 = 1"
  using rnd_eighths [of 8] by simp

lemma literal_zero_one [simp]: "f64_literal 0 = Num False 0" "f64_literal 1 = Num False 1"
  by (simp_all add: f64_literal_def f64_round_def Let_def)

lemma round_small:
  assumes "\<bar>q\<bar> \<le> 2"
  shows "f64_round z q = Num (if q = 0 then z else q < 0) (rnd q)"
proof -
  have "\<bar>rnd q\<bar> \<le> 2"
    using assms rnd_le_eighths [of q 16] rnd_ge_eighths [of "- 16" q] by (simp add: abs_le_iff)
  then have "\<not> 2 ^ 1024 \<le> \<bar>rnd q\<bar>" by simp
  then show ?thesis by (simp only: f64_round_def Let_def if_False)
qed

lemma weight_bounds:
  assumes "0 \<le> v" "v \<le> 1" "0 \<le> c" "c \<le> of_int m / 8" "0 \<le> m" "m \<le> 8"
  shows "0 \<le> weight c v" "weight c v \<le> of_int m / 8"
proof -
  have c: "0 \<le> rnd c" "rnd c \<le> of_int m / 8"
    using assms rnd_nonneg [of c] rnd_le_eighths [of c m] by simp_all
  have "v * rnd c \<le> 1 * rnd c" using assms c by (intro mult_right_mono) simp_all
  then show "0 \<le> weight c v" "weight c v \<le> of_int m / 8"
    unfolding weight_def using c assms by (intro rnd_nonneg rnd_le_eighths; simp)+
qed

lemmas weight_ranges =
  weight_bounds [of _ "35 / 100" 3, simplified]
  weight_bounds [of _ "25 / 100" 2, simplified]
  weight_bounds [of _ "20 / 100" 2, simplified]

lemma sum_ranges:
  assumes "0 \<le> a" "a \<le> 1" "0 \<le> l" "l \<le> 1" "0 \<le> b" "b \<le> 1"
  defines "s1 \<equiv> rnd (weight (35 / 100) a + weight (25 / 100) l)"
  defines "s2 \<equiv> rnd (s1 + weight (35 / 100) b)"
  shows "0 \<le> s1" "s1 \<le> 5 / 8" "0 \<le> s2" "s2 \<le> 1"
proof -
  note w = weight_ranges [OF assms(1,2)] weight_ranges [OF assms(3,4)] weight_ranges [OF assms(5,6)]
  show s1: "0 \<le> s1" "s1 \<le> 5 / 8"
    using w rnd_nonneg [of "weight (35 / 100) a + weight (25 / 100) l"]
      rnd_le_eighths [of "weight (35 / 100) a + weight (25 / 100) l" 5] by (simp_all add: s1_def)
  show "0 \<le> s2" "s2 \<le> 1"
    using w s1 rnd_nonneg [of "s1 + weight (35 / 100) b"] rnd_le_eighths [of "s1 + weight (35 / 100) b" 8]
    by (simp_all add: s2_def)
qed

lemma literal_small: "0 \<le> c \<Longrightarrow> c \<le> 1 \<Longrightarrow> f64_literal c = Num False (rnd c)"
  by (simp add: f64_literal_def round_small)

lemma mul_literal:
  assumes "0 \<le> v" "v \<le> 1" "0 \<le> c" "c \<le> 1"
  shows "\<exists>s. f64_mul (Num t v) (f64_literal c) = Num s (weight c v)"
proof -
  have "0 \<le> rnd c" "rnd c \<le> 1" using assms rnd_nonneg [of c] rnd_le_eighths [of c 8] by simp_all
  then have "\<bar>v * rnd c\<bar> \<le> 2" using assms mult_mono [of v 1 "rnd c" 1] by (simp add: abs_of_nonneg)
  then show ?thesis using assms by (simp add: literal_small round_small weight_def)
qed

lemma add_small: "\<bar>v + w\<bar> \<le> 2 \<Longrightarrow> \<exists>u. f64_add (Num s v) (Num t w) = Num u (rnd (v + w))"
  by (simp add: round_small)

lemma weighted_sum_value:
  assumes "0 \<le> a" "a \<le> 1" "0 \<le> l" "l \<le> 1" "0 \<le> b" "b \<le> 1" "0 \<le> p" "p \<le> 1"
  shows "\<exists>s. weighted_sum (Num sa a) (Num sl l) (Num sb b) (Num sp p) = Num s (sum_value a l b p)"
proof -
  note w = weight_ranges [OF assms(1,2)] weight_ranges [OF assms(3,4)] weight_ranges [OF assms(5,6)]
    weight_ranges [OF assms(7,8)]
  note r = sum_ranges [OF assms(1-6)]
  obtain ta tl tb tp where m: "f64_mul (Num sa a) (f64_literal (35 / 100)) = Num ta (weight (35 / 100) a)"
    "f64_mul (Num sl l) (f64_literal (25 / 100)) = Num tl (weight (25 / 100) l)"
    "f64_mul (Num sb b) (f64_literal (35 / 100)) = Num tb (weight (35 / 100) b)"
    "f64_mul (Num sp p) (f64_literal (20 / 100)) = Num tp (weight (20 / 100) p)"
    using mul_literal [OF assms(1,2), of "35 / 100" sa] mul_literal [OF assms(3,4), of "25 / 100" sl]
      mul_literal [OF assms(5,6), of "35 / 100" sb] mul_literal [OF assms(7,8), of "20 / 100" sp] by auto
  show ?thesis unfolding weighted_sum_def m f64_sub_def f64_neg.simps f64_add.simps sum_value_def
    using w r by (simp add: round_small abs_le_iff)
qed

definition evidence_ok :: "RouteEvidence \<Rightarrow> bool" where
  "evidence_ok e \<longleftrightarrow> NaN \<notin> set (as_array e)"

definition score_value :: "RouteEvidence \<Rightarrow> rat" where
  "score_value e = clamp01 (sum_value (unit_value (authority e)) (unit_value (liveness e))
     (unit_value (boundedness e)) (unit_value (pressure e)))"

lemma unit_clamp_value: "x \<noteq> NaN \<Longrightarrow> \<exists>s. unit_clamp x = Num s (unit_value x)"
  by (cases x) (auto simp: unit_clamp_def f64_clamp_def unit_value_def clamp01_def Let_def)

lemma unit_clamp_Num: "\<exists>s. unit_clamp (Num t v) = Num s (clamp01 v)"
  using unit_clamp_value [of "Num t v"] by (simp add: unit_value_def)

lemma route_score_value:
  assumes "evidence_ok e"
  shows "\<exists>s. route_score None e = Num s (score_value e)"
proof -
  obtain a l b p where c: "unit_clamp (authority e) = Num a (unit_value (authority e))"
    "unit_clamp (liveness e) = Num l (unit_value (liveness e))"
    "unit_clamp (boundedness e) = Num b (unit_value (boundedness e))"
    "unit_clamp (pressure e) = Num p (unit_value (pressure e))"
    using assms unit_clamp_value unfolding evidence_ok_def as_array_def by (metis list.set_intros)
  obtain s where "weighted_sum (Num a (unit_value (authority e))) (Num l (unit_value (liveness e)))
      (Num b (unit_value (boundedness e))) (Num p (unit_value (pressure e)))
      = Num s (sum_value (unit_value (authority e)) (unit_value (liveness e))
          (unit_value (boundedness e)) (unit_value (pressure e)))"
    using weighted_sum_value [OF unit_value_bounds unit_value_bounds unit_value_bounds unit_value_bounds] by blast
  then show ?thesis
    using unit_clamp_Num by (simp add: route_score_def route_score_impl_def as_array_def c score_value_def)
qed

section \<open>Accuracy and order\<close>

lemma weight_mono: "0 \<le> c \<Longrightarrow> v \<le> w \<Longrightarrow> weight c v \<le> weight c w"
  unfolding weight_def by (intro rnd_mono mult_right_mono rnd_nonneg)

lemma sum_value_mono:
  assumes "a \<le> a'" "l \<le> l'" "b \<le> b'" "p' \<le> p"
  shows "sum_value a l b p \<le> sum_value a' l' b' p'"
  unfolding sum_value_def using assms by (intro rnd_mono add_mono diff_mono weight_mono) simp_all

lemma rnd_error_small:
  assumes "\<bar>q\<bar> < 2"
  shows "\<bar>rnd q - q\<bar> \<le> 1 / 2 ^ 53"
proof -
  have "(2 :: rat) powi (1 - 54) = 1 / 2 ^ 53" by (simp add: power_int_def power_one_over)
  then show ?thesis using rnd_error [of q 1] assms by simp
qed

lemma weight_error:
  assumes "0 \<le> v" "v \<le> 1" "0 \<le> c" "c \<le> 1"
  shows "\<bar>weight c v - c * v\<bar> \<le> 2 / 2 ^ 53"
proof -
  have c: "0 \<le> rnd c" "rnd c \<le> 1" using assms rnd_nonneg [of c] rnd_le_eighths [of c 8] by simp_all
  have "\<bar>v * rnd c\<bar> < 2" using assms c mult_mono [of v 1 "rnd c" 1] by (simp add: abs_of_nonneg)
  then have e1: "\<bar>weight c v - v * rnd c\<bar> \<le> 1 / 2 ^ 53" unfolding weight_def by (rule rnd_error_small)
  have "v * rnd c - c * v = v * (rnd c - c)" by (simp add: algebra_simps)
  then have "\<bar>v * rnd c - c * v\<bar> = v * \<bar>rnd c - c\<bar>" using assms(1) by (simp add: abs_mult)
  also have "\<dots> \<le> 1 * (1 / 2 ^ 53)" using assms rnd_error_small [of c] by (intro mult_mono) simp_all
  finally show ?thesis using e1 by linarith
qed

lemma sum_value_error:
  assumes "0 \<le> a" "a \<le> 1" "0 \<le> l" "l \<le> 1" "0 \<le> b" "b \<le> 1" "0 \<le> p" "p \<le> 1"
  shows "\<bar>sum_value a l b p - (35 / 100 * a + 25 / 100 * l + 35 / 100 * b - 20 / 100 * p)\<bar> \<le> 1 / 2 ^ 49"
proof -
  let ?wa = "weight (35 / 100) a" and ?wl = "weight (25 / 100) l" and ?wb = "weight (35 / 100) b"
    and ?wp = "weight (20 / 100) p"
  let ?s1 = "rnd (?wa + ?wl)" and ?s2 = "rnd (rnd (?wa + ?wl) + ?wb)"
  note w = weight_ranges [OF assms(1,2)] weight_ranges [OF assms(3,4)] weight_ranges [OF assms(5,6)]
    weight_ranges [OF assms(7,8)]
  note r = sum_ranges [OF assms(1-6)]
  have "\<bar>?s1 - (?wa + ?wl)\<bar> \<le> 1 / 2 ^ 53" "\<bar>?s2 - (?s1 + ?wb)\<bar> \<le> 1 / 2 ^ 53"
    "\<bar>rnd (?s2 - ?wp) - (?s2 - ?wp)\<bar> \<le> 1 / 2 ^ 53"
    using w r by (intro rnd_error_small; simp add: abs_less_iff)+
  moreover have "\<bar>?wa - 35 / 100 * a\<bar> \<le> 2 / 2 ^ 53" "\<bar>?wl - 25 / 100 * l\<bar> \<le> 2 / 2 ^ 53"
    "\<bar>?wb - 35 / 100 * b\<bar> \<le> 2 / 2 ^ 53" "\<bar>?wp - 20 / 100 * p\<bar> \<le> 2 / 2 ^ 53"
    using assms by (intro weight_error; simp)+
  moreover have "11 / 2 ^ 53 \<le> (1 :: rat) / 2 ^ 49" by simp
  ultimately show ?thesis unfolding sum_value_def by linarith
qed

lemma score_bounds:
  assumes "unit_value (authority e) = 0 \<or> unit_value (boundedness e) = 0"
  shows "score_value e \<le> 5 / 8"
proof -
  let ?a = "unit_value (authority e)" and ?l = "unit_value (liveness e)" and ?b = "unit_value (boundedness e)"
    and ?p = "unit_value (pressure e)"
  note u = unit_value_bounds
  have zero: "weight c 0 = 0" for c by (simp add: weight_def)
  note w = weight_ranges [OF u, of "authority e"] weight_ranges [OF u, of "liveness e"]
    weight_ranges [OF u, of "boundedness e"] weight_ranges [OF u, of "pressure e"]
  have "rnd (rnd (weight (35 / 100) ?a + weight (25 / 100) ?l) + weight (35 / 100) ?b) \<le> 5 / 8"
  proof (cases "?b = 0")
    case True
    then show ?thesis using sum_ranges(2) [OF u u u, of "authority e" "liveness e"] zero
      rnd_le_eighths [of "rnd (weight (35 / 100) ?a + weight (25 / 100) ?l)" 5] by simp
  next
    case False
    with assms have "?a = 0" by simp
    moreover have "rnd (weight (25 / 100) ?l) \<le> 2 / 8" using w rnd_le_eighths [of "weight (25 / 100) ?l" 2] by simp
    ultimately show ?thesis
      using w zero rnd_le_eighths [of "rnd (weight (25 / 100) ?l) + weight (35 / 100) ?b" 5] by simp
  qed
  then have "sum_value ?a ?l ?b ?p \<le> 5 / 8" unfolding sum_value_def
    using w rnd_le_eighths [of "rnd (rnd (weight (35 / 100) ?a + weight (25 / 100) ?l) + weight (35 / 100) ?b)
      - weight (20 / 100) ?p" 5] by simp
  then show ?thesis using clamp01_mono [of _ "5 / 8"] by (simp add: score_value_def clamp01_def)
qed

text \<open>
  C25. A route score is trustworthy: for evidence without a NaN, infinities included, the score is a
  number between 0 and 1 within 2^-49 of the weighted sum in exact arithmetic, whatever the
  rounding of the eight floating-point operations did, and a route without authority or without
  bounded execution never scores above 5/8.
\<close>

theorem route_score_accurate:
  assumes "evidence_ok e"
  shows "\<exists>s v. route_score None e = Num s v \<and> 0 \<le> v \<and> v \<le> 1
    \<and> \<bar>v - ideal_score (unit_value (authority e)) (unit_value (liveness e)) (unit_value (boundedness e))
           (unit_value (pressure e))\<bar> \<le> 1 / 2 ^ 49
    \<and> (unit_value (authority e) = 0 \<or> unit_value (boundedness e) = 0 \<longrightarrow> v \<le> 5 / 8)"
proof -
  obtain s where s: "route_score None e = Num s (score_value e)" using route_score_value [OF assms] ..
  have "\<bar>score_value e - ideal_score (unit_value (authority e)) (unit_value (liveness e)) (unit_value (boundedness e))
           (unit_value (pressure e))\<bar> \<le> 1 / 2 ^ 49"
    unfolding score_value_def ideal_score_def
    by (rule order_trans [OF clamp01_lipschitz sum_value_error]) (simp_all add: unit_value_bounds)
  with s score_bounds [of e] show ?thesis by (auto simp: score_value_def clamp01_bounds)
qed

definition healthy_route :: RouteEvidence where
  "healthy_route = \<lparr>authority = Num False 1, liveness = Num False 1, boundedness = Inf False, pressure = Num False 0\<rparr>"

theorem route_score_accurate_witness:
  "\<exists>s v. route_score None healthy_route = Num s v \<and> 19 / 20 - 1 / 2 ^ 49 \<le> v \<and> v \<le> 1"
proof -
  have "evidence_ok healthy_route" by (simp add: evidence_ok_def as_array_def healthy_route_def)
  from route_score_accurate [OF this] obtain s v where "route_score None healthy_route = Num s v" "v \<le> 1"
    "\<bar>v - ideal_score 1 1 1 0\<bar> \<le> 1 / 2 ^ 49"
    by (auto simp: healthy_route_def unit_value_def clamp01_def)
  moreover have "ideal_score 1 1 1 0 = 19 / 20" by (simp add: ideal_score_def clamp01_def)
  ultimately show ?thesis by (intro exI conjI) (assumption, linarith, assumption)
qed

text \<open>Better evidence never lowers the score, rounding included.\<close>

lemma unit_value_less: "\<not> f64_less y x \<Longrightarrow> x \<noteq> NaN \<Longrightarrow> y \<noteq> NaN \<Longrightarrow> unit_value x \<le> unit_value y"
  by (cases x; cases y) (auto simp: unit_value_def clamp01_bounds clamp01_mono split: if_splits)

lemma route_score_monotone:
  assumes "evidence_ok e" "evidence_ok e'"
    and "\<not> f64_less (authority e') (authority e)" "\<not> f64_less (liveness e') (liveness e)"
    and "\<not> f64_less (boundedness e') (boundedness e)" "\<not> f64_less (pressure e) (pressure e')"
  shows "\<not> f64_less (route_score None e') (route_score None e)"
proof -
  from assms(1,2) have nn: "authority e \<noteq> NaN" "liveness e \<noteq> NaN" "boundedness e \<noteq> NaN" "pressure e \<noteq> NaN"
    "authority e' \<noteq> NaN" "liveness e' \<noteq> NaN" "boundedness e' \<noteq> NaN" "pressure e' \<noteq> NaN"
    by (auto simp: evidence_ok_def as_array_def)
  have "score_value e \<le> score_value e'" unfolding score_value_def
    by (intro clamp01_mono sum_value_mono unit_value_less assms nn)
  moreover obtain s t where "route_score None e = Num s (score_value e)" "route_score None e' = Num t (score_value e')"
    using route_score_value assms(1,2) by blast
  ultimately show ?thesis by simp
qed

text \<open>A NaN anywhere makes the score a NaN, outside the documented range.\<close>

lemma nan_operand [simp]: "f64_add x NaN = NaN" "f64_mul x NaN = NaN"
  by (cases x; simp)+

lemma unit_clamp_NaN [simp]: "unit_clamp NaN = NaN"
  by (simp add: unit_clamp_def f64_clamp_def)

lemma weighted_sum_NaN [simp]:
  "weighted_sum NaN l b p = NaN" "weighted_sum a NaN b p = NaN" "weighted_sum a l NaN p = NaN" "weighted_sum a l b NaN = NaN"
  by (simp_all add: weighted_sum_def f64_sub_def)

lemma route_score_NaN: "\<not> evidence_ok e \<Longrightarrow> route_score None e = NaN"
  by (auto simp: evidence_ok_def as_array_def route_score_def route_score_impl_def)

section \<open>Equivalence of the two implementations\<close>

text \<open>Numerical equality, as \<open>==\<close>: zeros of either sign are equal, a NaN equals nothing.\<close>

fun f64_eq :: "f64 \<Rightarrow> f64 \<Rightarrow> bool" where
  "f64_eq (Num s v) (Num t w) = (v = w)"
| "f64_eq (Inf s) (Inf t) = (s = t)"
| "f64_eq x y = False"

definition picks_argument :: "(f64 \<Rightarrow> f64 \<Rightarrow> f64) \<Rightarrow> bool" where
  "picks_argument pick \<longleftrightarrow> (\<forall>x y. pick x y = x \<or> pick x y = y)"

lemma fortran_clamp_value:
  assumes "picks_argument pick" "x \<noteq> NaN"
  shows "\<exists>s. fortran_clamp pick x = Num s (unit_value x)"
proof -
  have p: "pick y z = y \<or> pick y z = z" for y z using assms(1) by (simp add: picks_argument_def)
  show ?thesis
  proof (cases x)
    case (Num s v)
    then show ?thesis
      using p [of "Num False 1" "Num s v"] p [of "Num False 0" "Num s v"]
      by (cases v "1 :: rat" rule: linorder_cases; cases v "0 :: rat" rule: linorder_cases)
        (auto simp: fortran_clamp_def fortran_min_def fortran_max_def unit_value_def clamp01_def)
  qed (use assms(2) in \<open>auto simp: fortran_clamp_def fortran_min_def fortran_max_def unit_value_def\<close>)
qed

text \<open>
  C26. The two implementations agree: on evidence without a NaN the Fortran kernel, whichever argument
  its \<open>min\<close> and \<open>max\<close> return for equal operands, yields numerically the same score as the Rust code.
\<close>

theorem fortran_route_score_agrees:
  assumes "picks_argument pick" and "evidence_ok e"
  shows "f64_eq (route_score (Some (arach_slope_route_score pick)) e) (route_score None e)"
proof -
  from assms(2) have nn: "authority e \<noteq> NaN" "liveness e \<noteq> NaN" "boundedness e \<noteq> NaN" "pressure e \<noteq> NaN"
    by (auto simp: evidence_ok_def as_array_def)
  note c = fortran_clamp_value [OF assms(1)]
  obtain a l b p where f: "fortran_clamp pick (authority e) = Num a (unit_value (authority e))"
    "fortran_clamp pick (liveness e) = Num l (unit_value (liveness e))"
    "fortran_clamp pick (boundedness e) = Num b (unit_value (boundedness e))"
    "fortran_clamp pick (pressure e) = Num p (unit_value (pressure e))"
    using c [OF nn(1)] c [OF nn(2)] c [OF nn(3)] c [OF nn(4)] by blast
  obtain s where s: "weighted_sum (Num a (unit_value (authority e))) (Num l (unit_value (liveness e)))
      (Num b (unit_value (boundedness e))) (Num p (unit_value (pressure e)))
      = Num s (sum_value (unit_value (authority e)) (unit_value (liveness e))
          (unit_value (boundedness e)) (unit_value (pressure e)))" (is "_ = Num s ?v")
    using weighted_sum_value [OF unit_value_bounds unit_value_bounds unit_value_bounds unit_value_bounds] by blast
  obtain t where t: "fortran_clamp pick (Num s ?v) = Num t (score_value e)"
    using c [of "Num s ?v"] by (auto simp: unit_value_def score_value_def)
  have "arach_slope_route_score pick (as_array e) (length (as_array e)) = Num t (score_value e)"
    by (simp add: arach_slope_route_score_def as_array_def f s t)
  with route_score_value [OF assms(2)] show ?thesis by (auto simp: route_score_def)
qed

theorem fortran_route_score_agrees_witness:
  "f64_eq (route_score (Some (arach_slope_route_score (\<lambda>x y. y))) healthy_route) (route_score None healthy_route)"
  by (rule fortran_route_score_agrees)
    (simp_all add: picks_argument_def evidence_ok_def as_array_def healthy_route_def)

end
