(* ===== verification/Socket_Task.thy ===== *)
theory Socket_Task
  imports Executor Bifrost_Bridge
begin

text \<open>
  The receive future of \<open>net.rs\<close> run as a task of the executor of \<open>executor.rs\<close>.  The task awaits one
  packet and stores it; the device owns the other side of the ring, and \<open>dev t\<close> is whatever it does
  to the ring before the poll number \<open>t\<close>.
\<close>

record receive_task =
  rx_polls :: nat
  rx_ring :: BifrostRing
  rx_result :: "(BridgeError, ReceivedPacket) result option"

definition receive_task_new :: "BifrostRing \<Rightarrow> receive_task" where
  "receive_task_new r = \<lparr>rx_polls = 0, rx_ring = r, rx_result = None\<rparr>"

definition receive_poll :: "TesseractSocket \<Rightarrow> (nat \<Rightarrow> BifrostRing \<Rightarrow> BifrostRing) \<Rightarrow> receive_task poll_fn" where
  "receive_poll sock dev slot d =
    (case receiver_poll sock (dev (rx_polls d) (rx_ring d)) of (r, ef, outcome) \<Rightarrow>
      let d1 = d\<lparr>rx_polls := rx_polls d + 1, rx_ring := r\<rparr>;
          wakes = (if self_woken ef then waker_wake slot 0 else 0)
      in case outcome of
           Ready res \<Rightarrow> (d1\<lparr>rx_result := Some res\<rparr>, True, wakes)
         | Pending \<Rightarrow> (d1, False, wakes))"

text \<open>The ring the poll number \<open>t\<close> finds when all polls before it found nothing.\<close>

fun ring_seen :: "(nat \<Rightarrow> BifrostRing \<Rightarrow> BifrostRing) \<Rightarrow> BifrostRing \<Rightarrow> nat \<Rightarrow> BifrostRing" where
  "ring_seen dev r 0 = dev 0 r"
| "ring_seen dev r (Suc t) = dev (Suc t) (ring_seen dev r t)"

definition finds_packet :: "BifrostRing \<Rightarrow> bool" where
  "finds_packet r \<longleftrightarrow> snd (try_receive r) \<noteq> Ok None"

definition received :: "BifrostRing \<Rightarrow> (BridgeError, ReceivedPacket) result" where
  "received r = (case snd (try_receive r) of Inl e \<Rightarrow> Inl e | Inr p \<Rightarrow> Inr (the p))"

lemma receiver_poll_ready:
  "finds_packet r \<Longrightarrow> receiver_poll sock r =
    (fst (try_receive r), \<lparr>yielded = None, self_woken = False\<rparr>, Ready (received r))"
  by (cases "try_receive r"; cases "snd (try_receive r)")
    (auto simp: finds_packet_def received_def receiver_poll_def socket_try_read_def split: option.splits)

lemma receiver_poll_empty:
  assumes "\<not> finds_packet r"
  shows "receiver_poll sock r = (r, \<lparr>yielded = Some 100, self_woken = True\<rparr>, Pending)"
proof -
  from assms have "try_receive r = (r, Ok None)"
    by (auto simp: finds_packet_def try_receive_def Let_def split: if_splits)
  then show ?thesis by (simp add: receiver_poll_def socket_try_read_def)
qed

text \<open>The state of the waiting task after \<open>t\<close> empty polls, and the state it completes in.\<close>

definition waiting_after :: "(nat \<Rightarrow> BifrostRing \<Rightarrow> BifrostRing) \<Rightarrow> BifrostRing \<Rightarrow> nat \<Rightarrow> receive_task" where
  "waiting_after dev r t =
    \<lparr>rx_polls = t, rx_ring = (case t of 0 \<Rightarrow> r | Suc j \<Rightarrow> ring_seen dev r j), rx_result = None\<rparr>"

lemma receive_poll_waiting:
  "receive_poll sock dev i (waiting_after dev r t) =
    (if finds_packet (ring_seen dev r t)
     then (\<lparr>rx_polls = t + 1, rx_ring = fst (try_receive (ring_seen dev r t)),
            rx_result = Some (received (ring_seen dev r t))\<rparr>, True, 0)
     else (waiting_after dev r (t + 1), False, waker_wake i 0))"
proof -
  have ring: "dev t (case t of 0 \<Rightarrow> r | Suc j \<Rightarrow> ring_seen dev r j) = ring_seen dev r t" by (cases t) simp_all
  show ?thesis
    by (simp add: receive_poll_def waiting_after_def ring receiver_poll_ready receiver_poll_empty Let_def)
qed

lemma waker_wake_self: "i < 64 \<Longrightarrow> bit (waker_wake i 0) i"
  by (simp add: waker_wake_def bit_exp_iff)

definition received_after :: "(nat \<Rightarrow> BifrostRing \<Rightarrow> BifrostRing) \<Rightarrow> BifrostRing \<Rightarrow> nat \<Rightarrow> receive_task" where
  "received_after dev r j = \<lparr>rx_polls = j + 1, rx_ring = fst (try_receive (ring_seen dev r j)),
     rx_result = Some (received (ring_seen dev r j))\<rparr>"

lemma receive_poll_step:
  assumes "t \<le> j" "finds_packet (ring_seen dev r j)" "\<forall>i < j. \<not> finds_packet (ring_seen dev r i)" "i < 64"
  shows "case receive_poll sock dev i (waiting_after dev r t) of (d', finished, wakes) \<Rightarrow>
    if finished then d' = received_after dev r j
    else (\<exists>t' \<le> j. d' = waiting_after dev r t') \<and> j - rx_polls d' < j - t \<and> bit wakes i"
proof (cases "t = j")
  case True
  then show ?thesis using assms(2) by (simp add: receive_poll_waiting received_after_def)
next
  case False
  then have "t < j" using assms(1) by simp
  then have "receive_poll sock dev i (waiting_after dev r t) = (waiting_after dev r (t + 1), False, waker_wake i 0)"
    using assms(3) by (simp add: receive_poll_waiting)
  moreover have "rx_polls (waiting_after dev r (t + 1)) = t + 1" by (simp add: waiting_after_def)
  moreover have "\<exists>t' \<le> j. waiting_after dev r (t + 1) = waiting_after dev r t'"
    using \<open>t < j\<close> by (intro exI [of _ "t + 1"]) simp
  ultimately show ?thesis using \<open>t < j\<close> assms(4) by (simp add: waker_wake_self)
qed

lemma receive_task_progress:
  assumes "finds_packet (ring_seen dev r j)" "\<forall>i < j. \<not> finds_packet (ring_seen dev r i)"
  shows "progressing (\<lambda>i d. i < 64 \<and> (\<exists>t \<le> j. d = waiting_after dev r t)) (\<lambda>i d. d = received_after dev r j)
    (\<lambda>d. j - rx_polls d) 0 \<lparr>ts_data = receive_task_new r, ts_poll_fn = receive_poll sock dev, ts_state = SLOT_READY\<rparr>"
  unfolding progressing_def TaskSlot.simps
proof (intro conjI allI impI)
  show "\<exists>t \<le> j. receive_task_new r = waiting_after dev r t"
    by (rule exI [of _ 0]) (simp add: receive_task_new_def waiting_after_def)
  fix d
  assume "(0 :: nat) < 64 \<and> (\<exists>t \<le> j. d = waiting_after dev r t)"
  then obtain t where t: "t \<le> j" "d = waiting_after dev r t" by blast
  have "rx_polls d = t" by (simp add: t waiting_after_def)
  with receive_poll_step [OF t(1) assms, of 0 sock] t(2)
  show "case receive_poll sock dev 0 d of (d', finished, wakes) \<Rightarrow>
      if finished then d' = received_after dev r j
      else ((0 :: nat) < 64 \<and> (\<exists>t \<le> j. d' = waiting_after dev r t)) \<and> j - rx_polls d' < j - rx_polls d \<and> bit wakes 0"
    by (auto split: if_splits)
qed simp

text \<open>
  C18. Receiving on the executor works end to end although no interrupt ever wakes the task: if the
  device, whatever else it does, makes the socket's next descriptor ready before some poll, the main
  loop returns, whatever other threads wake meanwhile; the task has polled the ring exactly until
  the first poll that found something and holds its outcome, the packet or the device's length error.
\<close>

theorem receive_task_completes:
  assumes "finds_packet (ring_seen dev r k)"
  shows "\<exists>e' j. run_forever external n
        (fst (spawn_raw (executor_new null) (receive_task_new r) (receive_poll sock dev))) = Some e'
    \<and> task_count e' = 0 \<and> j \<le> k \<and> finds_packet (ring_seen dev r j)
    \<and> (\<forall>i < j. \<not> finds_packet (ring_seen dev r i))
    \<and> ts_data (ex_slots e' ! 0) = \<lparr>rx_polls = j + 1, rx_ring = fst (try_receive (ring_seen dev r j)),
         rx_result = Some (received (ring_seen dev r j))\<rparr>"
proof -
  let ?e = "fst (spawn_raw (executor_new null) (receive_task_new r) (receive_poll sock dev))"
  define j where "j = (LEAST t. finds_packet (ring_seen dev r t))"
  have found: "finds_packet (ring_seen dev r j)" unfolding j_def by (rule LeastI [of "\<lambda>t. finds_packet (ring_seen dev r t)", OF assms])
  have least: "\<forall>i < j. \<not> finds_packet (ring_seen dev r i)" unfolding j_def using not_less_Least [where P = "\<lambda>t. finds_packet (ring_seen dev r t)"] by simp
  have "j \<le> k" unfolding j_def by (rule Least_le [of "\<lambda>t. finds_packet (ring_seen dev r t)", OF assms])
  note fresh = spawn_fresh [of null "receive_task_new r" "receive_poll sock dev"]
  have inv: "executor_inv ?e" by (rule executor_reach_inv [of null]) (intro executor_reach.intros)
  have prog: "progressing (\<lambda>i d. i < 64 \<and> (\<exists>t \<le> j. d = waiting_after dev r t)) (\<lambda>i d. d = received_after dev r j)
      (\<lambda>d. j - rx_polls d) 0 (ex_slots ?e ! 0)"
    unfolding fresh(1) by (rule receive_task_progress [OF found least])
  have "all_awake (\<lambda>i d. i < 64 \<and> (\<exists>t \<le> j. d = waiting_after dev r t)) (\<lambda>i d. d = received_after dev r j)
      (\<lambda>d. j - rx_polls d) ?e"
    unfolding all_awake_def fresh(2) by (intro conjI ballI inv) (simp_all only: singleton_iff fresh(3) prog)
  from run_forever_awake [OF this, of external n] obtain e' where e': "run_forever external n ?e = Some e'"
    "live_slots e' = {}" "executor_inv e'"
    "\<forall>i < MAX_TASKS. if i \<in> live_slots ?e then ts_data (ex_slots e' ! i) = received_after dev r j
       else ex_slots e' ! i = ex_slots ?e ! i" by blast
  from e'(4) [rule_format, of 0] have data: "ts_data (ex_slots e' ! 0) = received_after dev r j"
    unfolding fresh(2) by (simp add: MAX_TASKS_def)
  from e'(2,3) have "task_count e' = 0" by (simp add: task_count_def executor_inv_def)
  with e'(1) data [unfolded received_after_def] found least \<open>j \<le> k\<close> show ?thesis by (intro exI [of _ e'] exI [of _ j] conjI)
qed

text \<open>A device that fills the first descriptor before the third poll.\<close>

definition late_device :: "nat \<Rightarrow> BifrostRing \<Rightarrow> BifrostRing" where
  "late_device t r = (if t = 2
     then put_receive 0 \<lparr>dd_buffer = example_frame, dd_length = 3, dd_state = RECEIVE_READY\<rparr> r else r)"

lemma late_device_rings:
  "\<not> finds_packet (ring_seen late_device bifrost_new 0)" "\<not> finds_packet (ring_seen late_device bifrost_new 1)"
  "snd (try_receive (ring_seen late_device bifrost_new 2)) = Ok (Some \<lparr>pkt_index = 0, pkt_length = 3\<rparr>)"
proof -
  have rings: "ring_seen late_device bifrost_new 0 = bifrost_new" "ring_seen late_device bifrost_new 1 = bifrost_new"
    "ring_seen late_device bifrost_new 2 =
      put_receive 0 \<lparr>dd_buffer = example_frame, dd_length = 3, dd_state = RECEIVE_READY\<rparr> bifrost_new"
    by (simp_all add: late_device_def numeral_2_eq_2)
  show "\<not> finds_packet (ring_seen late_device bifrost_new 0)" "\<not> finds_packet (ring_seen late_device bifrost_new 1)"
    "snd (try_receive (ring_seen late_device bifrost_new 2)) = Ok (Some \<lparr>pkt_index = 0, pkt_length = 3\<rparr>)"
    unfolding rings
    by (simp_all add: finds_packet_def try_receive_def Let_def bifrost_new_def put_receive_def
        RING_ENTRIES_def MAXIMUM_FRAME_BYTES_def descriptor_receive_def RECEIVE_DEVICE_OWNED_def RECEIVE_READY_def)
qed

definition example_socket :: TesseractSocket where
  "example_socket = \<lparr>sock_local_port = 1, sock_capability = \<lparr>cap_id = 1, cap_generation = 1\<rparr>\<rparr>"

theorem receive_task_completes_witness:
  "\<exists>e'. run_forever (\<lambda>_. 0) 0 (fst (spawn_raw (executor_new (receive_task_new bifrost_new))
        (receive_task_new bifrost_new) (receive_poll example_socket late_device))) = Some e'
    \<and> rx_result (ts_data (ex_slots e' ! 0)) = Some (Ok \<lparr>pkt_index = 0, pkt_length = 3\<rparr>)"
proof -
  have found: "finds_packet (ring_seen late_device bifrost_new 2)"
    using late_device_rings(3) by (simp add: finds_packet_def)
  have two: "j = 2" if "j \<le> 2" "finds_packet (ring_seen late_device bifrost_new j)" for j
    using that late_device_rings(1,2) by (cases "j = 0"; cases "j = 1") auto
  from receive_task_completes [OF found, of "\<lambda>_. 0" 0 "receive_task_new bifrost_new" example_socket]
  obtain e' j where e': "run_forever (\<lambda>_. 0) 0 (fst (spawn_raw (executor_new (receive_task_new bifrost_new))
        (receive_task_new bifrost_new) (receive_poll example_socket late_device))) = Some e'"
    "j \<le> 2" "finds_packet (ring_seen late_device bifrost_new j)"
    "rx_result (ts_data (ex_slots e' ! 0)) = Some (received (ring_seen late_device bifrost_new j))" by auto
  with two [of j] late_device_rings(3) have "rx_result (ts_data (ex_slots e' ! 0)) = Some (Ok \<lparr>pkt_index = 0, pkt_length = 3\<rparr>)"
    by (simp add: received_def)
  with e'(1) show ?thesis by blast
qed

end
