(* ===== verification/Source_Tests.thy ===== *)
theory Source_Tests
  imports Hermes_Manifold Service_Calculus Slab_Heap Relativistic Kairos Hypermedia
begin

text \<open>
  The repository's own unit tests, evaluated on the model.  Each lemma carries the name of the test
  function it replays, on its inputs or, where several tests build similar objects, on shared ones; a disagreement between the model and the code on one of these inputs would
  make its evaluation fail.  Tests whose content is an instance of a general theorem of the component
  (rollback and completion of a reservation, slot reuse, the ring, the mailboxes) are not repeated.
\<close>

section \<open>Evaluation\<close>

text \<open>
  The overflow tests of the checked and saturating operations compare natural numbers; evaluated over
  the integers they stay in binary.
\<close>

lemma nat_less_via_int: "(m < 2 ^ n) = (int m < 2 ^ n)"
  by (metis of_nat_less_iff of_nat_numeral of_nat_power)

lemma checked_add_code [code]:
  "checked_add a b = (if uint a + uint b < 2 ^ LENGTH('a) then Some (a + b) else None)" for a b :: "'a::len word"
  by (simp only: checked_add_def nat_less_via_int of_nat_add uint_nat)

lemma checked_mul_code [code]:
  "checked_mul a b = (if uint a * uint b < 2 ^ LENGTH('a) then Some (a * b) else None)" for a b :: "'a::len word"
  by (simp only: checked_mul_def nat_less_via_int of_nat_mult uint_nat)

lemma saturating_add_code [code]:
  "saturating_add a b = (if uint a + uint b < 2 ^ LENGTH('a) then a + b else - 1)" for a b :: "'a::len word"
  by (simp only: saturating_add_def nat_less_via_int of_nat_add uint_nat)

lemma saturating_mul_code [code]:
  "saturating_mul a b = (if uint a * uint b < 2 ^ LENGTH('a) then a * b else - 1)" for a b :: "'a::len word"
  by (simp only: saturating_mul_def nat_less_via_int of_nat_mult uint_nat)

lemma checked_usize_code [code]:
  "checked_usize n = (if int n < 2 ^ 64 then Some n else None)"
  by (simp only: checked_usize_def nat_less_via_int)

section \<open>Hermes manifold\<close>

text \<open>Threading \<open>&mut self\<close> through a list of calls, stopping at the first error.\<close>

fun try_all :: "('s \<Rightarrow> 's \<times> ('e, unit) result) list \<Rightarrow> 's \<Rightarrow> 's \<times> ('e, unit) result" where
  "try_all [] s = (s, Ok ())"
| "try_all (f # fs) s = (case f s of (s', Inl e) \<Rightarrow> (s', Inl e) | (s', Inr _) \<Rightarrow> try_all fs s')"

definition to_queued :: "u32 \<Rightarrow> (HermesManifold \<Rightarrow> manifold_result) list" where
  "to_queued n = [\<lambda>m. observe_probe m True, \<lambda>m. observe_firmware m True, \<lambda>m. arm_queues m True n]"

lemma full_gate_chain_reaches_online_with_certificate:
  "case try_all (to_queued 3 @ [\<lambda>m. negotiate m (BOOT_RPC OR COMMAND_RING OR EVENT_RING OR DISPLAY OR TELEMETRY
        OR POWER OR MEMORY_MANAGEMENT OR COMPUTE), \<lambda>m. ignite m True True True]) (dark 7) of
     (m, r) \<Rightarrow> r = Ok () \<and> is_online m \<and> hm_phase m = Online
       \<and> (case hm_certificate m of None \<Rightarrow> False | Some c \<Rightarrow> oc_root c \<noteq> 0)
       \<and> snapshot_flags m AND SNAPSHOT_FLAG_HERMES_ONLINE \<noteq> 0"
  by code_simp

lemma cannot_jump_to_online_without_gates:
  "snd (ignite (dark 1) True True True) = Err InvalidPhaseJump"
  "snd (ignite (fst (observe_probe (dark 1) True)) True True True) = Err InvalidPhaseJump"
  by code_simp+

lemma ill_formed_features_reject_negotiation:
  "snd (try_all (to_queued 1 @ [\<lambda>m. negotiate m (BOOT_RPC OR DISPLAY)]) (dark 2)) = Err IllFormedFeatures"
  by code_simp

lemma recovery_and_quarantine_clear_online_flags:
  "case try_all (to_queued 9 @ [\<lambda>m. negotiate m (BOOT_RPC OR COMMAND_RING OR EVENT_RING),
       \<lambda>m. ignite m True True True, \<lambda>m. detect_fault m False]) (dark 3) of
     (m, r) \<Rightarrow> r = Ok () \<and> is_degraded (hm_phase m)
       \<and> snapshot_flags m AND SNAPSHOT_FLAG_RECOVERY_PENDING = SNAPSHOT_FLAG_RECOVERY_PENDING
       \<and> (case contain m of (m', r') \<Rightarrow> r' = Ok () \<and> snapshot_flags m' AND SNAPSHOT_FLAG_QUARANTINE_ACTIVE \<noteq> 0
         \<and> (case release m' of (m'', r'') \<Rightarrow> r'' = Ok () \<and> hm_phase m'' = Offline \<and> hm_generation m'' = 4))"
  by code_simp

lemma feature_well_formedness_matches_agda_rules:
  "well_formed 0 \<and> well_formed BOOT_RPC \<and> \<not> well_formed COMMAND_RING \<and> \<not> well_formed (BOOT_RPC OR DISPLAY)
   \<and> well_formed (BOOT_RPC OR COMMAND_RING OR EVENT_RING OR DISPLAY) \<and> \<not> well_formed (BOOT_RPC OR COMPUTE)
   \<and> well_formed (BOOT_RPC OR MEMORY_MANAGEMENT OR COMPUTE)"
  by code_simp

section \<open>Service calculus\<close>

text \<open>The controller of the tests: a calibrator of eight residuals, tick 1000, secret 7.\<close>

definition with_controller :: "(ServiceController \<Rightarrow> bool) \<Rightarrow> bool" where
  "with_controller P = (case controller_new 8 sample_curve 1000 7 of Inl _ \<Rightarrow> False | Inr c \<Rightarrow> P c)"

lemma deterministic_delay_is_min_plus_horizontal_deviation:
  "map (deterministic_delay sample_curve) [0, 1, 2] = [Some 120, Some 120, Some 220]"
  by code_simp

lemma unsafe_deadline_is_rejected:
  "with_controller (\<lambda>c. snd (admit c 1000 1120 0) = Err DeadlineUnsafe)"
  by code_simp

lemma exhausted_reservation_identity_aborts_without_partial_admission:
  "with_controller (\<lambda>c. let before = c\<lparr>ctl_reservation_sequence := - 1\<rparr> in
     admit before 1000 1500 0 = (before, Err ArithmeticOverflow))"
  by code_simp

section \<open>Memory\<close>

lemma class_for_rounds_up_to_nearest_slab:
  "map class_for [1, 8, 9, 4096, 4097] = [Some 0, Some 0, Some 1, Some 9, None]"
  by code_simp

lemma slab_token_roundtrips:
  "token_class (token_pack 2 5 300) = 2 \<and> token_page (token_pack 2 5 300) = 5 \<and> token_slot (token_pack 2 5 300) = 300"
  by code_simp

lemma resolves_only_after_the_direct_epoch_window:
  "map_option (\<lambda>token. map (relativistic_resolve (\<lambda>_ _ _. Some 16) token) [10, 7 + MAXIMUM_DIRECT_EPOCH_DELTA + 1, 6])
     (relativistic_from_raw 8 7 3) = Some [Ok 8, Ok 16, Err FutureEpoch]"
  by code_simp

section \<open>Kairos\<close>

text \<open>
  The synthetic machine of the tests.  The sizes of the arrays come from the \<open>kairos\<close> crate; small ones
  that hold the test's processors are enough.
\<close>

definition test_limits :: kairos_limits where
  "test_limits = example_limits\<lparr>MAXIMUM_CPUS := 6, MAXIMUM_DOMAINS := 4, MAXIMUM_CPUS_PER_DOMAIN := 5\<rparr>"

definition synthetic_cpu :: "nat \<Rightarrow> nat \<Rightarrow> CpuDescriptor" where
  "synthetic_cpu performance_cpus i = \<lparr>cpu_logical_id = of_nat i, cpu_hardware_id = of_nat i, cpu_package = 0,
     cpu_core = of_nat i, cpu_thread = 0, cpu_numa_domain = (if i < performance_cpus then 0 else 1),
     cpu_kind = (if i < performance_cpus then Performance else Efficiency), cpu_enabled = True\<rparr>"

definition synthetic_domain :: "u16 \<Rightarrow> DomainKind \<Rightarrow> u16 option \<Rightarrow> nat \<Rightarrow> nat \<Rightarrow> DomainDescriptor" where
  "synthetic_domain i kind parent first n = (domain_EMPTY test_limits)\<lparr>dom_id := i, dom_kind := kind, dom_parent := parent,
     dom_members := map of_nat [first..<first + n] @ drop n (dom_members (domain_EMPTY test_limits)), dom_member_count := n\<rparr>"

definition synthetic_snapshot :: "nat \<Rightarrow> nat \<Rightarrow> TopologySnapshot" where
  "synthetic_snapshot performance_cpus efficiency_cpus =
    (let snapshot = topology_empty test_limits; cpu_count = performance_cpus + efficiency_cpus in
     snapshot\<lparr>ts_cpus := map (synthetic_cpu performance_cpus) [0..<cpu_count] @ drop cpu_count (ts_cpus snapshot),
       ts_cpu_count := cpu_count,
       ts_domains := [synthetic_domain 0 Machine None 0 cpu_count,
         synthetic_domain 1 Numa (Some 0) 0 performance_cpus,
         synthetic_domain 2 Numa (Some 0) performance_cpus efficiency_cpus] @ drop 3 (ts_domains snapshot),
       ts_domain_count := 3, ts_trait_flags := 7\<rparr>)"

lemma page_decodes_flags_and_features:
  "let page = page_zeroed\<lparr>kp_flags := 7, kp_abi_features_lo := 0xdead, kp_abi_features_hi := 0xbeef\<rparr> in
     page_is_smp test_limits page \<and> page_is_numa test_limits page \<and> page_is_heterogeneous test_limits page
   \<and> \<not> page_has_offload test_limits page \<and> page_abi_features page = 0x0000beef0000dead \<and> \<not> page_is_ready page"
  by code_simp

lemma affinity_uses_enabled_cpu_kinds:
  "compute_affinity test_limits (synthetic_snapshot 2 2) WlCompute
     = \<lparr>hint_domain_id = 1, hint_preferred_kind = Performance, hint_smp_eligible = True\<rparr>"
  "hint_preferred_kind (compute_affinity test_limits (synthetic_snapshot 2 2) WlIo) = Efficiency"
  by code_simp+

lemma partition_is_proportional_and_exact:
  "map_option (\<lambda>p. map (\<lambda>w. (ws_start w, slice_len w)) (partition_iter p))
     (partition_work test_limits (synthetic_snapshot 3 1) 101) = Some [(0, 76), (76, 25)]"
  by code_simp

lemma raw_topology_rejects_unknown_members:
  "topology_from_raw example_limits (example_reply\<lparr>reply_cpu_count := 1, reply_cpus := [example_cpu 7, example_cpu 0, example_cpu 0], reply_domain_count := 1,
      reply_domains := [\<lparr>raw_id = 0, raw_domain_kind = 0, raw_parent_valid = 0, raw_parent_id = 0,
        raw_member_count = 1, raw_members = [8, 0]\<rparr>, reply_domains example_reply ! 1]\<rparr>) = Err InvalidTopology"
  by code_simp

section \<open>Hypermedia\<close>

text \<open>The ASCII strings \<open>example.com\<close>, \<open>other.example\<close> and \<open>/docs\<close>.\<close>

definition example_com :: bytes where "example_com = [101, 120, 97, 109, 112, 108, 101, 46, 99, 111, 109]"
definition other_example :: bytes where "other_example = [111, 116, 104, 101, 114, 46, 101, 120, 97, 109, 112, 108, 101]"
definition slash_docs :: bytes where "slash_docs = [47, 100, 111, 99, 115]"

text \<open>\<open>https://Example.COM/docs\<close> is read, over plain HTTP or with a port it is not.\<close>

lemma only_canonical_https_locations_become_requests:
  "map_option (\<lambda>q. (origin_host (req_origin q), request_path q))
     (case parse_location (HTTPS_PREFIX @ [69, 120, 97, 109, 112, 108, 101, 46, 67, 79, 77] @ slash_docs) budget_DEFAULT of
        Inl _ \<Rightarrow> None | Inr q \<Rightarrow> Some q) = Some (example_com, slash_docs)"
  "parse_location ([104, 116, 116, 112, 58, 47, 47] @ example_com @ [47]) budget_DEFAULT = Err NotHttps"
  "\<not> is_ok (parse_location (HTTPS_PREFIX @ example_com @ [58, 52, 52, 51, 47]) budget_DEFAULT)"
  by code_simp+

text \<open>An origin, an endpoint lease and an HTTP lease as the broker of the session tests issues them.\<close>

definition test_origin :: HttpsOrigin where "test_origin = projr (origin_new example_com)"
definition test_request :: HttpsRequest where "test_request = projr (request_new test_origin slash_docs budget_DEFAULT)"
definition test_http :: HttpLease where "test_http = projr (lease_from_broker 13 4 test_origin budget_DEFAULT 30)"
definition test_endpoint :: ArgusEndpointLease where "test_endpoint = projr (endpoint_from_broker 11 12 4 9 30)"
definition test_wire :: "u32 \<Rightarrow> HttpIpcRequest" where "test_wire n = projr (to_ipc_request test_http test_request 10 n)"

lemma tls_anchor_accepts_only_the_broker_pinned_peer_generation:
  "case anchor_from_broker test_origin (replicate TLS_SHA256_BYTES 0x5a) 7 of Inl _ \<Rightarrow> False
   | Inr a \<Rightarrow> anchor_permits a test_origin (replicate TLS_SHA256_BYTES 0x5a) 7
         = Ok \<lparr>peer_origin = test_origin, peer_sha256 = replicate TLS_SHA256_BYTES 0x5a, peer_generation = 7\<rparr>
       \<and> anchor_permits a test_origin (replicate TLS_SHA256_BYTES 0x59) 7 = Err CertificateMismatch
       \<and> anchor_permits a test_origin (replicate TLS_SHA256_BYTES 0x5a) 8 = Err GenerationMismatch"
  by code_simp

lemma tls_anchor_rejects_zero_fingerprint_and_cross_origin_use:
  "anchor_from_broker test_origin (replicate TLS_SHA256_BYTES 0) 1 = Err InvalidLease"
  "case anchor_from_broker test_origin (replicate TLS_SHA256_BYTES 1) 1 of Inl _ \<Rightarrow> False
   | Inr a \<Rightarrow> anchor_permits a (projr (origin_new other_example)) (replicate TLS_SHA256_BYTES 1) 1 = Err OriginMismatch"
  by code_simp+

lemma lease_cannot_amplify_origin_budget_or_lifetime:
  "lease_permits test_http test_request 29 = Ok ()"
  "lease_permits test_http test_request 30 = Err LeaseExpired"
  "lease_permits test_http (projr (parse_location (HTTPS_PREFIX @ other_example @ [47]) budget_DEFAULT)) 1 = Err LeaseMismatch"
  by code_simp+

lemma ipc_request_round_trip_is_bound_to_the_exact_lease:
  "wire_sequence (test_wire 77) = 77"
  "authorize_ipc test_http (test_wire 77) 10 = Ok test_request"
  "authorize_ipc test_http ((test_wire 77)\<lparr>wire_generation := 5\<rparr>) 10 = Err LeaseMismatch"
  "ipc_request (test_wire 77) = Ok test_request"
  by code_simp+

lemma endpoint_session_binds_mapping_serializes_and_revokes:
  "let s0 = session_new test_endpoint;
       (s1, r1) = session_commit s0 (projr (session_prepare s0 (test_wire 1) 10));
       (s2, r2) = session_complete s1 1;
       (s3, r3) = session_commit s2 (projr (session_prepare s2 (test_wire 2) 10));
       s4 = session_revoke s3 in
     r1 = Ok () \<and> session_prepare s1 (test_wire 1) 10 = Err EndpointBusy \<and> r2 = Ok () \<and> r3 = Ok ()
   \<and> revoked s4 \<and> snd (session_complete s4 2) = Err NotInFlight
   \<and> session_prepare s4 (test_wire 2) 10 = Err Hypermedia.Revoked
   \<and> snd (session_commit (session_revoke s0) (projr (session_prepare s0 (test_wire 1) 10))) = Err Hypermedia.Revoked"
  by code_simp

lemma endpoint_rejects_stale_mapping_and_replay_sequence:
  "let s0 = session_new test_endpoint;
       s1 = fst (session_commit s0 (projr (session_prepare s0 (test_wire 1) 10)));
       s2 = fst (session_complete s1 1);
       envelope = projr (session_prepare s2 (test_wire 2) 10);
       (s3, r3) = session_commit s2 envelope in
     snd (session_commit s2 (envelope\<lparr>env_mapping_generation := 99\<rparr>)) = Err WrongGeneration
   \<and> r3 = Ok () \<and> snd (session_commit s3 envelope) = Err EndpointBusy"
  by code_simp

end
