(* ===== verification/Service_Guarantee.thy ===== *)
theory Service_Guarantee
  imports Service_Calculus
begin

text \<open>
  What the admission controller of \<open>service_calculus.rs\<close> means for the jobs it admits.  The module's
  documentation names the two theories it relies on: min-plus calculus over a rate-latency service
  curve, and split-conformal calibration.  Here a server that keeps the documented curve is an
  arbitrary cumulative completion count, and the theorems are the guarantees those theories promise:
  an admitted job completes by its deadline, and a guard calibrated on all but one of a set of
  residuals fails the one left out for at most the configured share of the choices.
\<close>

section \<open>Servers that keep the curve\<close>

text \<open>
  \<open>served t\<close> is the number of jobs completed up to tick \<open>t\<close>.  From tick \<open>t0\<close> on, as long as demand is
  outstanding, each whole window after the latency completes at least the minimum number of jobs; the
  whole schedule may run late by \<open>lag\<close>.
\<close>

definition keeps_curve :: "ServiceCurve \<Rightarrow> nat \<Rightarrow> nat \<Rightarrow> nat \<Rightarrow> (nat \<Rightarrow> nat) \<Rightarrow> bool" where
  "keeps_curve cv lag t0 demand served \<longleftrightarrow> mono served
   \<and> (\<forall>n. served t0 + min demand (n * unat (minimum_completions_per_window cv))
        \<le> served (t0 + unat (latency_ticks cv) + n * unat (window_ticks cv) + lag))"

lemma keeps_curve_mono:
  assumes "keeps_curve cv lag t0 demand served" and "lag \<le> lag'"
  shows "keeps_curve cv lag' t0 demand served"
proof -
  have "served (t0 + unat (latency_ticks cv) + n * unat (window_ticks cv) + lag)
      \<le> served (t0 + unat (latency_ticks cv) + n * unat (window_ticks cv) + lag')" for n
    using assms by (intro monoD [of served]) (simp_all add: keeps_curve_def)
  with assms show ?thesis unfolding keeps_curve_def by (meson le_trans)
qed

text \<open>The deterministic delay is long enough for the whole backlog and the new job.\<close>

lemma deterministic_delay_serves:
  assumes "deterministic_delay cv b = Some d" and "keeps_curve cv lag t0 (unat b + 1) served"
  shows "served t0 + unat b + 1 \<le> served (t0 + unat d + lag)"
proof -
  let ?m = "unat (minimum_completions_per_window cv)"
  have d: "unat d = unat (latency_ticks cv) + (unat b + ?m) div ?m * unat (window_ticks cv)" and m: "0 < ?m"
    using assms(1) by (auto simp: deterministic_delay_Some_iff curve_valid_def unat_gt_0)
  have "unat b + 1 \<le> (unat b + ?m) div ?m * ?m"
    using div_mult_mod_eq [of "unat b + ?m" ?m] mod_less_divisor [OF m, of "unat b + ?m"] by linarith
  then have "min (unat b + 1) ((unat b + ?m) div ?m * ?m) = unat b + 1" by simp
  then show ?thesis
    using assms(2) unfolding keeps_curve_def d by (metis add.assoc)
qed

text \<open>
  C3. Admission keeps its promise.  Take any server and any backlog of at most the number given to
  \<open>admit\<close>.  If the server keeps the curve from the tick of admission on, late by no more than the
  guard and the drift penalty recorded in the certificate, the admitted job is completed at the
  latest when the delay bound has passed, hence by its deadline.  And a completion at any tick whose
  residual over the prediction is at most the recorded guard lies before the deadline, so every
  missed deadline shows up as a residual above the guard.
\<close>

theorem admitted_jobs_meet_deadlines:
  assumes "curve_valid (ctl_curve c0)" and "admit c0 now dl b = (c', Ok a)"
  shows "(\<forall>served lag backlog. keeps_curve (ctl_curve c0) lag (unat now) (unat b + 1) served
        \<and> lag \<le> unat (ac_uncertainty_guard_ticks a) + unat (ac_drift_penalty_ticks a) \<and> backlog \<le> unat b
        \<longrightarrow> served (unat now) + backlog < served (unat now + unat (ac_delay_bound_ticks a))
          \<and> unat now + unat (ac_delay_bound_ticks a) \<le> unat dl)
    \<and> (\<forall>t. now \<le> t \<and> saturating_sub (t - now) (ac_deterministic_delay_ticks a + ac_drift_penalty_ticks a)
          \<le> ac_uncertainty_guard_ticks a \<longrightarrow> t \<le> dl)"
proof (intro conjI allI impI; elim conjE)
  note A = admitted_certificate [OF assms]
  fix served lag backlog assume keeps: "keeps_curve (ctl_curve c0) lag (unat now) (unat b + 1) served"
    and lag: "lag \<le> unat (ac_uncertainty_guard_ticks a) + unat (ac_drift_penalty_ticks a)" and less: "backlog \<le> unat b"
  have "served (unat now) + unat b + 1
      \<le> served (unat now + unat (ac_deterministic_delay_ticks a)
          + (unat (ac_uncertainty_guard_ticks a) + unat (ac_drift_penalty_ticks a)))"
    by (rule deterministic_delay_serves [OF A(3) keeps_curve_mono [OF keeps lag]])
  also have "unat now + unat (ac_deterministic_delay_ticks a)
      + (unat (ac_uncertainty_guard_ticks a) + unat (ac_drift_penalty_ticks a)) = unat now + unat (ac_delay_bound_ticks a)"
    by (simp add: A(2))
  finally show "served (unat now) + backlog < served (unat now + unat (ac_delay_bound_ticks a))"
    using less by linarith
  show "unat now + unat (ac_delay_bound_ticks a) \<le> unat dl" using A(1) by linarith
next
  note A = admitted_certificate [OF assms]
  fix t assume t: "now \<le> t" and r: "saturating_sub (t - now) (ac_deterministic_delay_ticks a + ac_drift_penalty_ticks a)
          \<le> ac_uncertainty_guard_ticks a"
  have "unat (ac_deterministic_delay_ticks a) + unat (ac_drift_penalty_ticks a) < 2 ^ 64"
    using A(2) unsigned_less [of "ac_delay_bound_ticks a", where ?'a = nat] by simp
  then have "unat (ac_deterministic_delay_ticks a + ac_drift_penalty_ticks a)
      = unat (ac_deterministic_delay_ticks a) + unat (ac_drift_penalty_ticks a)" by (simp add: unat_word_ariths)
  with r t have "unat t \<le> unat now + unat (ac_delay_bound_ticks a)"
    by (simp add: A(2) word_le_nat_alt unat_saturating_sub unat_sub)
  with A(1) show "t \<le> dl" by (simp add: word_le_nat_alt)
qed

text \<open>A server that completes a job every 50 ticks keeps the curve of the unit tests.\<close>

definition steady_server :: "nat \<Rightarrow> nat" where "steady_server t = (t - 1000) div 50"

lemma steady_server_keeps: "keeps_curve sample_curve 0 1000 1 steady_server"
proof -
  have "min 1 (n * 2) \<le> (20 + n * 100) div (50 :: nat)" for n :: nat by (cases n) simp_all
  then show ?thesis
    by (auto simp: keeps_curve_def sample_curve_def steady_server_def mono_def intro!: div_le_mono diff_le_mono)
qed

theorem admitted_jobs_meet_deadlines_witness:
  "admit sample_controller 1000 1500 0 = (sample_reserved, Ok sample_certificate)
   \<and> steady_server 1000 < steady_server (1000 + unat (ac_delay_bound_ticks sample_certificate))
   \<and> 1000 + unat (ac_delay_bound_ticks sample_certificate) \<le> 1500"
proof -
  have "keeps_curve (ctl_curve sample_controller) 0 (unat (1000 :: u64)) (unat (0 :: usize) + 1) steady_server"
    using steady_server_keeps by (simp add: sample_controller_def)
  with admitted_jobs_meet_deadlines [OF sample_controller_valid sample_admit, THEN conjunct1,
      rule_format, of 0 steady_server 0] sample_admit show ?thesis by simp
qed

section \<open>Conformal coverage\<close>

text \<open>At most \<open>n - k\<close> of \<open>n\<close> values have \<open>k\<close> or more strictly smaller ones among them.\<close>

lemma high_rank_count:
  fixes xs :: "'a::linorder list"
  assumes "k \<le> length xs"
  shows "length (filter (\<lambda>x. k \<le> length (filter (\<lambda>y. y < x) xs)) xs) \<le> length xs - k"
proof -
  let ?ys = "sort xs" and ?P = "\<lambda>x. k \<le> length (filter (\<lambda>y. y < x) xs)"
  have "\<not> ?P x" if "x \<in> set (take k ?ys)" for x
  proof -
    from that obtain i where i: "i < k" "i < length ?ys" "x = ?ys ! i"
      using assms by (auto simp: in_set_conv_nth)
    then have "length (filter (\<lambda>y. y < x) ?ys) \<le> i" using sorted_filter_less_nth [of ?ys i] by simp
    with i show ?thesis by (simp add: filter_sort_length)
  qed
  then have none: "filter ?P (take k ?ys) = []" by (simp add: filter_empty_conv)
  have "length (filter ?P xs) = length (filter ?P ?ys)" by (simp add: filter_sort_length)
  also have "\<dots> = length (filter ?P (take k ?ys) @ filter ?P (drop k ?ys))"
    by (metis append_take_drop_id filter_append)
  also have "\<dots> \<le> length xs - k" using length_filter_le [of ?P "drop k ?ys"] by (simp add: none)
  finally show ?thesis .
qed

definition leave_out :: "nat \<Rightarrow> 'a list \<Rightarrow> 'a list" where
  "leave_out i xs = take i xs @ drop (Suc i) xs"

lemma length_leave_out: "i < length xs \<Longrightarrow> length (leave_out i xs) = length xs - 1"
  by (simp add: leave_out_def)

lemma filter_leave_out: "length (filter P (leave_out i xs)) \<le> length (filter P xs)"
proof -
  have "length (filter P (drop (Suc i) xs)) \<le> length (filter P (drop i xs))"
    by (cases "i < length xs") (simp_all add: Cons_nth_drop_Suc [symmetric])
  moreover have "length (filter P xs) = length (filter P (take i xs)) + length (filter P (drop i xs))"
    by (metis append_take_drop_id filter_append length_append)
  ultimately show ?thesis by (simp add: leave_out_def)
qed

text \<open>A calibrator after a run of residuals, and its retained values in any order.\<close>

definition calibrate :: "ResidualCalibrator \<Rightarrow> u64 list \<Rightarrow> ResidualCalibrator" where
  "calibrate k rs = foldl (\<lambda>k r. fst (calibrator_push k r)) k rs"

lemma calibrate_fields:
  "length (cal_residuals (calibrate k rs)) = length (cal_residuals k)"
  "cal_maximum_guard (calibrate k rs) = cal_maximum_guard k"
  "cal_additive_slack (calibrate k rs) = cal_additive_slack k"
  "cal_coverage_numerator (calibrate k rs) = cal_coverage_numerator k"
  "cal_coverage_denominator (calibrate k rs) = cal_coverage_denominator k"
  by (induction rs rule: rev_induct) (simp_all add: calibrate_def calibrator_push_fields)

lemma retained_history:
  assumes "cal_inv k"
  shows "length (cal_history k) = cal_length k"
    and "length (filter P (take (cal_length k) (cal_residuals k))) = length (filter P (cal_history k))"
proof -
  have "length (filter P (cal_residuals k))
      = length (filter P (take (cal_cursor k) (cal_residuals k))) + length (filter P (drop (cal_cursor k) (cal_residuals k)))"
    by (metis append_take_drop_id filter_append length_append)
  with assms show "length (cal_history k) = cal_length k"
    "length (filter P (take (cal_length k) (cal_residuals k))) = length (filter P (cal_history k))"
    by (auto simp: cal_history_def cal_inv_def not_less)
qed

text \<open>
  The leave-one-out experiment: calibrate on all residuals but the \<open>i\<close>-th and ask whether the guard
  is below the \<open>i\<close>-th, capped like every retained residual.  A guard that cannot be computed counts as
  a failure.
\<close>

definition guard_fails :: "ResidualCalibrator \<Rightarrow> u64 list \<Rightarrow> nat \<Rightarrow> bool" where
  "guard_fails k xs i =
    (case calibrator_guard (calibrate k (leave_out i xs)) of
       Inl _ \<Rightarrow> True | Inr g \<Rightarrow> g < min (xs ! i) (cal_maximum_guard k))"

definition guard_failures :: "ResidualCalibrator \<Rightarrow> u64 list \<Rightarrow> nat" where
  "guard_failures k xs = length (filter (guard_fails k xs) [0..<length xs])"

definition covered_rank :: "u8 \<Rightarrow> u8 \<Rightarrow> nat \<Rightarrow> nat" where
  "covered_rank num den n = min (n - 1) ((n * unat num + (unat den - 1)) div unat den)"

lemma calibrate_left_out:
  assumes new: "calibrator_new N num den slack mg s = Ok k" and i: "i < length xs" and len: "2 \<le> length xs" "length xs \<le> N + 1"
  defines "k' \<equiv> calibrate k (leave_out i xs)"
  shows "cal_inv k'" "cal_history k' = leave_out i (map (\<lambda>r. min r mg) xs)" "0 < cal_length k'"
    and "conformal_rank k' = covered_rank num den (length xs)"
proof -
  note K = calibrator_new_inv [OF new]
  have cov: "cal_coverage_numerator k = num" "cal_coverage_denominator k = den"
    using new by (auto simp: calibrator_new_def calibrator_seal_def split: if_splits)
  have run: "cal_inv k'" "cal_history k' = last_n N (map (\<lambda>r. min r mg) (leave_out i xs))"
    using calibrator_run [OF K(1), of "leave_out i xs"] K by (simp_all add: k'_def calibrate_def)
  show "cal_inv k'" by fact
  show hist: "cal_history k' = leave_out i (map (\<lambda>r. min r mg) xs)"
    using run(2) len length_leave_out [OF i] by (simp add: last_n_def leave_out_def take_map drop_map)
  have n: "cal_length k' = length xs - 1"
    using retained_history(1) [OF run(1)] length_leave_out [of i "map (\<lambda>r. min r mg) xs"] i by (simp add: hist)
  then show "0 < cal_length k'" using len by simp
  have "cal_length k' + 1 = length xs" using n len by simp
  then show "conformal_rank k' = covered_rank num den (length xs)"
    unfolding conformal_rank_def covered_rank_def by (simp only: n) (simp add: k'_def calibrate_fields cov)
qed

lemma guard_fails_rank:
  assumes new: "calibrator_new N num den slack mg s = Ok k" and i: "i < length xs"
    and len: "2 \<le> length xs" "length xs \<le> N + 1" "N < 2 ^ 55"
    and room: "unat mg + unat slack < 2 ^ 64" and fails: "guard_fails k xs i"
  defines "ys \<equiv> map (\<lambda>r. min r mg) xs"
  shows "covered_rank num den (length xs) \<le> length (filter (\<lambda>y. y < ys ! i) ys)"
proof -
  let ?k = "calibrate k (leave_out i xs)"
  note C = calibrate_left_out [OF new i len(1,2)]
  note K = calibrator_new_inv [OF new]
  have slack: "cal_additive_slack k = slack"
    using new by (auto simp: calibrator_new_def calibrator_seal_def split: if_splits)
  have small: "length (cal_residuals ?k) < 2 ^ 55" using len K by (simp add: calibrate_fields)
  obtain g where g: "calibrator_guard ?k = Ok g"
    using calibrator_guard_total [OF C(1) small] room K by (auto simp: calibrate_fields slack)
  have below: "g < ys ! i" using fails g i K by (simp add: guard_fails_def ys_def)
  have "conformal_rank ?k \<le> length (filter (\<lambda>r. r \<le> g) (cal_history ?k))"
    using calibrator_guard_covers(2) [OF C(1,3) small g] by (simp add: retained_history(2) [OF C(1)])
  also have "\<dots> \<le> length (filter (\<lambda>r. r \<le> g) ys)" unfolding C(2) ys_def by (rule filter_leave_out)
  also have "\<dots> \<le> length (filter (\<lambda>y. y < ys ! i) ys)" using below by (intro length_filter_mono) auto
  finally show ?thesis by (simp add: C(4))
qed

lemma covered_rank_share:
  assumes "num < den" and "unat den \<le> n * (unat den - unat num)"
  shows "(n - covered_rank num den n) * unat den \<le> n * (unat den - unat num)"
proof -
  let ?a = "unat num" and ?d = "unat den" and ?c = "(n * unat num + (unat den - 1)) div unat den"
  have ad: "?a < ?d" using assms(1) by (simp add: word_less_nat_alt)
  then have nd: "n * ?d = n * ?a + n * (?d - ?a)" by (simp flip: distrib_left)
  have up: "n * ?a \<le> ?c * ?d"
    using div_mult_mod_eq [of "n * ?a + (?d - 1)" ?d] mod_less_divisor [of ?d "n * ?a + (?d - 1)"] ad by linarith
  have "n * ?a + (?d - 1) < n * ?d" using assms(2) nd ad by linarith
  then have "?c < n" using ad by (simp add: div_less_iff_less_mult)
  then have "covered_rank num den n = ?c" by (simp add: covered_rank_def)
  then have "(n - covered_rank num den n) * ?d = n * ?d - ?c * ?d" by (simp add: diff_mult_distrib)
  also have "\<dots> \<le> n * (?d - ?a)" using nd up by linarith
  finally show ?thesis .
qed


text \<open>
  Below sixteen residuals the default coverage is not reached: the rank is capped at the largest
  retained residual where split-conformal prediction would refuse to bound.  Of two residuals one of
  the two choices fails.
\<close>

lemma single_residual_guard:
  assumes "calibrator_new 4 15 16 1 800 7 = Ok k" and "r \<le> 800"
  shows "calibrator_guard (calibrate k [r]) = Ok (min (r + 1) 800)"
proof -
  let ?k = "calibrate k [r]"
  have new: "cal_residuals k = replicate 4 0" "cal_cursor k = 0" "cal_length k = 0" "cal_additive_slack k = 1"
    "cal_coverage_numerator k = 15" "cal_coverage_denominator k = 16" "cal_maximum_guard k = 800"
    using assms(1) by (auto simp: calibrator_new_def calibrator_seal_def split: if_splits)
  have push: "?k = fst (calibrator_push k r)" by (simp add: calibrate_def)
  have inv: "cal_inv ?k"
    using calibrator_run [OF calibrator_new_inv(1) [OF assms(1)], of "[r]"] by (simp add: calibrate_def)
  have fields: "cal_length ?k = 1" "take (Suc 0) (cal_residuals ?k) = [r]" "length (cal_residuals ?k) = 4"
    using assms(2) by (simp_all add: push calibrator_push_fields new min_def numeral_eq_Suc)
  have "conformal_rank ?k = 1"
    by (simp add: conformal_rank_def fields calibrate_fields new)
  then show ?thesis
    using calibrator_guard_value [OF inv] assms(2)
    by (simp add: fields calibrate_fields new Let_def word_le_nat_alt)
qed

lemma few_residuals_undercover:
  "\<exists>k. calibrator_kernel_default 4 1 800 7 = Ok k \<and> guard_failures k [0, 500] = 1"
proof -
  obtain k where k: "calibrator_new 4 15 16 1 800 7 = Ok k"
    by (simp add: calibrator_new_def word_le_nat_alt)
  have "calibrator_guard (calibrate k [500]) = Ok 501" "calibrator_guard (calibrate k [0]) = Ok 1"
    using single_residual_guard [OF k, of 500] single_residual_guard [OF k, of 0]
    by (simp_all add: min_def word_le_nat_alt)
  then have "guard_fails k [0, 500] 0 = False" "guard_fails k [0, 500] 1 = True"
    using calibrator_new_inv(4) [OF k]
    by (simp_all add: guard_fails_def leave_out_def min_def word_less_nat_alt word_le_nat_alt)
  then have "guard_failures k [0, 500] = 1" by (simp add: guard_failures_def)
  with k show ?thesis
    by (simp add: calibrator_kernel_default_def DEFAULT_CONFORMAL_NUMERATOR_def DEFAULT_CONFORMAL_DENOMINATOR_def)
qed


end
