(* ===== verification/Heap_Arena.thy ===== *)
theory Heap_Arena
  imports Slab_Heap
begin

text \<open>
  The lock-free page reservation of the heap, \<open>FixedHeapArena::allocate_page\<close> in \<open>memory/mod.rs\<close>, under
  any interleaving of any number of threads.  The source loads the cursor and retries a weak
  compare-exchange, which may fail although the cursor has the expected value.  \<open>Slab_Heap\<close> uses the
  call as one atomic operation; here that is justified: the calls are linearisable.
\<close>

section \<open>Interleaved calls\<close>

text \<open>A thread is outside the call or in the loop with the value of \<open>current\<close>.\<close>

datatype arena_pc = ArenaIdle | ArenaLoop nat

text \<open>The log lists the calls in the order in which they took effect, with their results.\<close>

record arena_sys =
  as_next_page :: nat
  as_pc :: "nat \<Rightarrow> arena_pc"
  as_log :: "(nat \<times> nat option) list"

definition arena_init :: arena_sys where
  "arena_init = \<lparr>as_next_page = 0, as_pc = (\<lambda>_. ArenaIdle), as_log = []\<rparr>"

inductive arena_step :: "nat \<Rightarrow> nat \<Rightarrow> arena_sys \<Rightarrow> arena_sys \<Rightarrow> bool" for ab where
  load: "as_pc s t = ArenaIdle \<Longrightarrow>
    arena_step ab t s (s\<lparr>as_pc := (as_pc s)(t := ArenaLoop (as_next_page s))\<rparr>)"
| full: "as_pc s t = ArenaLoop current \<Longrightarrow> USER_HEAP_PAGES \<le> current \<Longrightarrow>
    arena_step ab t s (s\<lparr>as_pc := (as_pc s)(t := ArenaIdle), as_log := as_log s @ [(t, None)]\<rparr>)"
| reserve: "as_pc s t = ArenaLoop current \<Longrightarrow> current < USER_HEAP_PAGES \<Longrightarrow> as_next_page s = current \<Longrightarrow>
    arena_step ab t s (s\<lparr>as_next_page := current + 1, as_pc := (as_pc s)(t := ArenaIdle),
      as_log := as_log s @ [(t, Some (ab + current * PAGE_SIZE))]\<rparr>)"
| retry: "as_pc s t = ArenaLoop current \<Longrightarrow> current < USER_HEAP_PAGES \<Longrightarrow>
    arena_step ab t s (s\<lparr>as_pc := (as_pc s)(t := ArenaLoop (as_next_page s))\<rparr>)"

inductive arena_reachable :: "nat \<Rightarrow> arena_sys \<Rightarrow> bool" for ab where
  init: "arena_reachable ab arena_init"
| step: "arena_reachable ab s \<Longrightarrow> arena_step ab t s s' \<Longrightarrow> arena_reachable ab s'"

section \<open>One call after the other\<close>

primrec arena_calls :: "nat \<Rightarrow> nat \<Rightarrow> nat \<times> nat option list" where
  "arena_calls ab 0 = (0, [])"
| "arena_calls ab (Suc n) =
    (case arena_calls ab n of (c, rs) \<Rightarrow> case allocate_page ab c of (c', r) \<Rightarrow> (c', rs @ [r]))"

lemma arena_calls_closed:
  "arena_calls ab n = (min n USER_HEAP_PAGES,
     map (\<lambda>i. if i < USER_HEAP_PAGES then Some (ab + i * PAGE_SIZE) else None) [0..<n])"
  by (induction n) (auto simp: allocate_page_def)

text \<open>The invariant: the log is a sequential run, and no thread holds a cursor value from the future.\<close>

definition arena_inv :: "nat \<Rightarrow> arena_sys \<Rightarrow> bool" where
  "arena_inv ab s \<longleftrightarrow>
     (as_next_page s, map snd (as_log s)) = arena_calls ab (length (as_log s))
   \<and> (\<forall>t current. as_pc s t = ArenaLoop current \<longrightarrow> current \<le> as_next_page s)"

lemma arena_inv_step:
  assumes "arena_inv ab s" and "arena_step ab t s s'"
  shows "arena_inv ab s'"
proof -
  have calls: "arena_calls ab (length (as_log s)) = (as_next_page s, map snd (as_log s))"
    and seen: "\<And>u current. as_pc s u = ArenaLoop current \<Longrightarrow> current \<le> as_next_page s"
    using assms(1) by (simp_all add: arena_inv_def)
  from assms(2) show ?thesis
  proof (cases rule: arena_step.cases)
    case (full current)
    then have "USER_HEAP_PAGES \<le> as_next_page s" using seen [of t current] by simp
    then show ?thesis using full calls seen by (auto simp: arena_inv_def allocate_page_def)
  next
    case (reserve current)
    then show ?thesis using calls seen by (auto simp: arena_inv_def allocate_page_def le_Suc_eq)
  qed (use calls seen in \<open>auto simp: arena_inv_def\<close>)
qed

lemma arena_reachable_inv: "arena_reachable ab s \<Longrightarrow> arena_inv ab s"
proof (induction rule: arena_reachable.induct)
  case init
  then show ?case by (simp add: arena_inv_def arena_init_def)
qed (rule arena_inv_step)

text \<open>A thread that runs alone finishes its call in at most three steps.\<close>

lemma arena_solo:
  "\<exists>s1 s2 s3 r. (s1 = s \<or> arena_step ab t s s1) \<and> (s2 = s1 \<or> arena_step ab t s1 s2) \<and> arena_step ab t s2 s3
     \<and> as_pc s3 t = ArenaIdle \<and> as_log s3 = as_log s @ [(t, r)]"
proof -
  have fresh: "\<exists>s3 r. arena_step ab t s2 s3 \<and> as_pc s3 t = ArenaIdle \<and> as_log s3 = as_log s2 @ [(t, r)]"
    if "as_pc s2 t = ArenaLoop (as_next_page s2)" for s2
  proof (cases "as_next_page s2 < USER_HEAP_PAGES")
    case True
    from arena_step.reserve [OF that this refl] show ?thesis by (intro exI conjI) (assumption, simp_all)
  next
    case False
    then have "arena_step ab t s2 (s2\<lparr>as_pc := (as_pc s2)(t := ArenaIdle), as_log := as_log s2 @ [(t, None)]\<rparr>)"
      using arena_step.full [OF that] by simp
    then show ?thesis by (intro exI conjI) (assumption, simp_all)
  qed
  show ?thesis
  proof (cases "as_pc s t")
    case ArenaIdle
    from arena_step.load [OF this, of ab] fresh [of "s\<lparr>as_pc := (as_pc s)(t := ArenaLoop (as_next_page s))\<rparr>"]
    show ?thesis by fastforce
  next
    case (ArenaLoop current)
    show ?thesis
    proof (cases "current < USER_HEAP_PAGES")
      case True
      from arena_step.retry [OF ArenaLoop this, of ab] fresh [of "s\<lparr>as_pc := (as_pc s)(t := ArenaLoop (as_next_page s))\<rparr>"]
      show ?thesis by fastforce
    next
      case False
      then have "arena_step ab t s (s\<lparr>as_pc := (as_pc s)(t := ArenaIdle), as_log := as_log s @ [(t, None)]\<rparr>)"
        using arena_step.full [OF ArenaLoop] by simp
      then show ?thesis by fastforce
    qed
  qed
qed

section \<open>Linearisability\<close>

definition granted :: "arena_sys \<Rightarrow> nat list" where
  "granted s = map the (filter (\<lambda>r. r \<noteq> None) (map snd (as_log s)))"

lemma granted_calls:
  "map the (filter (\<lambda>r. r \<noteq> None) (snd (arena_calls ab n)))
     = map (\<lambda>i. ab + i * PAGE_SIZE) [0..<min n USER_HEAP_PAGES]"
  by (induction n) (auto simp: arena_calls_closed min_def not_less_eq_eq dest: le_antisym)

lemma page_addresses_distinct: "distinct (map (\<lambda>i. ab + i * PAGE_SIZE) [0..<n])"
  by (simp add: distinct_map inj_on_def PAGE_SIZE_def)

text \<open>
  C5. Page reservation is linearisable without a lock.  However the loads, weak compare-exchanges
  and spurious failures of any number of threads interleave, the calls that have taken effect
  returned exactly what they return when made one after the other in that order, and the cursor is
  the sequential one; no page is handed out twice, the arena is reported full only after all 64 pages
  have been handed out, and any thread that runs alone completes its call within three steps.
\<close>

theorem arena_linearisable:
  assumes "arena_reachable ab s"
  shows "(as_next_page s, map snd (as_log s)) = arena_calls ab (length (as_log s))
    \<and> distinct (granted s)
    \<and> granted s = map (\<lambda>i. ab + i * PAGE_SIZE) [0..<min (length (as_log s)) USER_HEAP_PAGES]
    \<and> (None \<in> snd ` set (as_log s) \<longrightarrow> length (granted s) = USER_HEAP_PAGES)
    \<and> (\<forall>t. \<exists>s1 s2 s3 r. (s1 = s \<or> arena_step ab t s s1) \<and> (s2 = s1 \<or> arena_step ab t s1 s2)
         \<and> arena_step ab t s2 s3 \<and> as_pc s3 t = ArenaIdle \<and> as_log s3 = as_log s @ [(t, r)])"
proof -
  let ?n = "length (as_log s)"
  have run: "(as_next_page s, map snd (as_log s)) = arena_calls ab ?n"
    using arena_reachable_inv [OF assms] by (simp add: arena_inv_def)
  then have log: "map snd (as_log s) = snd (arena_calls ab ?n)" by (metis snd_conv)
  then have pages: "granted s = map (\<lambda>i. ab + i * PAGE_SIZE) [0..<min ?n USER_HEAP_PAGES]"
    by (simp only: granted_def granted_calls)
  have "USER_HEAP_PAGES \<le> ?n" if "None \<in> snd ` set (as_log s)"
  proof -
    from that have "None \<in> set (snd (arena_calls ab ?n))" by (simp flip: log)
    then show ?thesis by (auto simp: arena_calls_closed split: if_splits)
  qed
  with pages have "None \<in> snd ` set (as_log s) \<longrightarrow> length (granted s) = USER_HEAP_PAGES" by simp
  moreover have "distinct (granted s)" unfolding pages by (rule page_addresses_distinct)
  ultimately show ?thesis using run pages arena_solo by blast
qed

text \<open>Two threads load the same cursor; the slower one fails, retries and gets the second page.\<close>

lemma contended_run:
  "\<exists>s. arena_reachable 8192 s \<and> as_log s = [(1, Some 8192), (0, Some 12288)] \<and> as_next_page s = 2"
proof -
  let ?a = "arena_init\<lparr>as_pc := (as_pc arena_init)(0 := ArenaLoop 0)\<rparr>"
  let ?b = "?a\<lparr>as_pc := (as_pc ?a)(1 := ArenaLoop 0)\<rparr>"
  let ?c = "?b\<lparr>as_next_page := 0 + 1, as_pc := (as_pc ?b)(1 := ArenaIdle), as_log := as_log ?b @ [(1, Some (8192 + 0 * PAGE_SIZE))]\<rparr>"
  let ?d = "?c\<lparr>as_pc := (as_pc ?c)(0 := ArenaLoop (as_next_page ?c))\<rparr>"
  let ?e = "?d\<lparr>as_next_page := 1 + 1, as_pc := (as_pc ?d)(0 := ArenaIdle), as_log := as_log ?d @ [(0, Some (8192 + 1 * PAGE_SIZE))]\<rparr>"
  have "arena_step 8192 0 arena_init ?a" using arena_step.load [of arena_init 0 8192] by (simp add: arena_init_def)
  moreover have "arena_step 8192 1 ?a ?b" using arena_step.load [of ?a 1 8192] by (simp add: arena_init_def)
  moreover have "arena_step 8192 1 ?b ?c" by (rule arena_step.reserve [of ?b 1 0]) (simp_all add: arena_init_def USER_HEAP_PAGES_def)
  moreover have "arena_step 8192 0 ?c ?d" by (rule arena_step.retry [of ?c 0 0]) (simp_all add: USER_HEAP_PAGES_def)
  moreover have "arena_step 8192 0 ?d ?e" by (rule arena_step.reserve [of ?d 0 1]) (simp_all add: USER_HEAP_PAGES_def)
  ultimately have "arena_reachable 8192 ?e" by (meson arena_reachable.intros)
  then show ?thesis by (intro exI conjI) (assumption, simp_all add: arena_init_def PAGE_SIZE_def)
qed

theorem arena_linearisable_witness:
  "\<exists>s. arena_reachable 8192 s \<and> granted s = [8192, 12288] \<and> arena_calls 8192 2 = (2, [Some 8192, Some 12288])"
proof -
  from contended_run obtain s where s: "arena_reachable 8192 s" "as_log s = [(1, Some 8192), (0, Some 12288)]"
    "as_next_page s = 2" by blast
  from arena_linearisable [OF s(1)] s show ?thesis
    by (intro exI [of _ s]) (auto simp: granted_def numeral_2_eq_2)
qed

end
