(* ===== verification/Waker.thy ===== *)
theory Waker
  imports Executor
begin

text \<open>
  The raw wakers of \<open>executor.rs\<close>, the four functions of \<open>WAKER_VTABLE\<close>.  A raw waker is the address of a
  \<open>WakerData\<close>, which names the ready mask and the slot; waking reads that memory.  \<open>Executor\<close> abstracts
  the wakes issued during a poll to the bits they set; here it is shown which bits those are, and what
  happens to a waker that outlives the memory it points to.
\<close>

section \<open>Memory and the virtual table\<close>

record WakerData =
  wd_ready_mask :: nat
  wd_slot :: nat

text \<open>The waker data that is alive, by address, and the ready masks, by address.\<close>

record waker_mem =
  wm_data :: "nat \<Rightarrow> WakerData option"
  wm_masks :: "nat \<Rightarrow> u64"

datatype RawWaker = RawWaker (waker_data: nat)

definition waker_clone :: "nat \<Rightarrow> RawWaker" where
  "waker_clone data = RawWaker data"

text \<open>\<open>None\<close> is the read through a dangling pointer.\<close>

definition waker_wake_at :: "nat \<Rightarrow> waker_mem \<Rightarrow> waker_mem option" where
  "waker_wake_at data m =
    map_option (\<lambda>wd. m\<lparr>wm_masks := (wm_masks m)(wd_ready_mask wd := waker_wake (wd_slot wd) (wm_masks m (wd_ready_mask wd)))\<rparr>)
      (wm_data m data)"

definition waker_wake_by_ref :: "nat \<Rightarrow> waker_mem \<Rightarrow> waker_mem option" where
  "waker_wake_by_ref data m = waker_wake_at data m"

definition waker_drop :: "nat \<Rightarrow> waker_mem \<Rightarrow> waker_mem" where
  "waker_drop data m = m"

record RawWakerVTable =
  vt_clone :: "nat \<Rightarrow> RawWaker"
  vt_wake :: "nat \<Rightarrow> waker_mem \<Rightarrow> waker_mem option"
  vt_wake_by_ref :: "nat \<Rightarrow> waker_mem \<Rightarrow> waker_mem option"
  vt_drop :: "nat \<Rightarrow> waker_mem \<Rightarrow> waker_mem"

definition WAKER_VTABLE :: RawWakerVTable where
  "WAKER_VTABLE = \<lparr>vt_clone = waker_clone, vt_wake = waker_wake_at, vt_wake_by_ref = waker_wake_by_ref,
     vt_drop = waker_drop\<rparr>"

section \<open>Wakers of live data\<close>

text \<open>What a sequence of waker calls does: clones and drops have no effect, wakes set their bit.\<close>

datatype waker_op = Wake nat | WakeByRef nat | DropWaker nat

fun waker_exec :: "waker_op \<Rightarrow> waker_mem \<Rightarrow> waker_mem option" where
  "waker_exec (Wake d) m = vt_wake WAKER_VTABLE (waker_data (vt_clone WAKER_VTABLE d)) m"
| "waker_exec (WakeByRef d) m = vt_wake_by_ref WAKER_VTABLE d m"
| "waker_exec (DropWaker d) m = Some (vt_drop WAKER_VTABLE d m)"

fun wakes_slot :: "waker_mem \<Rightarrow> nat \<Rightarrow> nat \<Rightarrow> waker_op \<Rightarrow> bool" where
  "wakes_slot m rm i (Wake d) \<longleftrightarrow> wm_data m d = Some \<lparr>wd_ready_mask = rm, wd_slot = i\<rparr>"
| "wakes_slot m rm i (WakeByRef d) \<longleftrightarrow> wm_data m d = Some \<lparr>wd_ready_mask = rm, wd_slot = i\<rparr>"
| "wakes_slot m rm i (DropWaker d) \<longleftrightarrow> False"

fun waker_run :: "waker_op list \<Rightarrow> waker_mem \<Rightarrow> waker_mem option" where
  "waker_run [] m = Some m"
| "waker_run (f # fs) m = Option.bind (waker_exec f m) (waker_run fs)"

lemmas waker_defs = WAKER_VTABLE_def waker_clone_def waker_wake_at_def waker_wake_by_ref_def waker_drop_def

lemma waker_exec_bits:
  assumes "waker_exec f m = Some m'"
  shows "wm_data m' = wm_data m"
    and "i < 64 \<Longrightarrow> bit (wm_masks m' rm) i \<longleftrightarrow> bit (wm_masks m rm) i \<or> wakes_slot m rm i f"
proof -
  have bits: "bit (waker_wake n w) i \<longleftrightarrow> bit w i \<or> n = i" if "i < 64" for n w
    using that by (auto simp: waker_wake_def bit_or_iff bit_exp_iff)
  have wd: "wd = \<lparr>wd_ready_mask = rm, wd_slot = i\<rparr> \<longleftrightarrow> wd_ready_mask wd = rm \<and> wd_slot wd = i" for wd :: WakerData by auto
  show "wm_data m' = wm_data m" using assms by (cases f) (auto simp: waker_defs)
  show "i < 64 \<Longrightarrow> bit (wm_masks m' rm) i \<longleftrightarrow> bit (wm_masks m rm) i \<or> wakes_slot m rm i f"
    using assms by (cases f) (auto simp: waker_defs bits wd split: if_splits)
qed

text \<open>
  As long as the data lives, exactly the slots of the wakers used become ready, in whatever order
  and through however many clones, and dropping a waker changes nothing.
\<close>

lemma waker_run_bits:
  assumes "waker_run fs m = Some m'" and "i < 64"
  shows "bit (wm_masks m' rm) i \<longleftrightarrow> bit (wm_masks m rm) i \<or> (\<exists>f \<in> set fs. wakes_slot m rm i f)"
  using assms
proof (induction fs arbitrary: m)
  case (Cons f fs)
  then obtain m1 where m1: "waker_exec f m = Some m1" "waker_run fs m1 = Some m'" by (auto simp: bind_eq_Some_conv)
  have "wakes_slot m1 rm i g = wakes_slot m rm i g" for g
    using waker_exec_bits(1) [OF m1(1)] by (cases g) simp_all
  with Cons.IH [OF m1(2) Cons.prems(2)] waker_exec_bits(2) [OF m1(1) Cons.prems(2)] show ?case by auto
qed simp

section \<open>Wakers that outlive the poll\<close>

text \<open>
  \<open>run_until_stall\<close> builds the data of each poll in the same local variable.  A waker kept from the
  poll of slot \<open>i\<close> and used while slot \<open>j\<close> is polled therefore wakes \<open>j\<close>, and task \<open>i\<close> stays parked; used
  after the pass it reads a dead frame.
\<close>

definition frame_of_poll :: "nat \<Rightarrow> nat \<Rightarrow> nat \<Rightarrow> waker_mem \<Rightarrow> waker_mem" where
  "frame_of_poll frame rm slot m = m\<lparr>wm_data := (wm_data m)(frame := Some \<lparr>wd_ready_mask = rm, wd_slot = slot\<rparr>)\<rparr>"

lemma kept_waker_wakes_other_slot:
  fixes frame rm i j m
  defines "w \<equiv> waker_clone frame" and "m1 \<equiv> frame_of_poll frame rm j (frame_of_poll frame rm i m)"
  assumes "i < 64" "j < 64" "i \<noteq> j" "wm_masks m rm = 0"
  shows "\<exists>m2. waker_wake_at (waker_data w) m1 = Some m2 \<and> bit (wm_masks m2 rm) j \<and> \<not> bit (wm_masks m2 rm) i"
  using assms by (simp add: waker_defs frame_of_poll_def waker_wake_def bit_exp_iff)

lemma kept_waker_dangles:
  "waker_wake_at (waker_data (waker_clone frame)) ((frame_of_poll frame rm i m)\<lparr>wm_data := (wm_data m)(frame := None)\<rparr>) = None"
  by (simp add: waker_defs)

end
