(* ===== verification/Formal_Route.thy ===== *)
theory Formal_Route
  imports Route_Policy
begin

text \<open>
  The repository's own formal sketches, \<open>formal/idris2/SlopeRoute.idr\<close> and
  \<open>formal/agda/SlopeCapability.agda\<close>, beside the route score of \<open>policy.rs\<close>.  The indexed families of
  the sketches become inductive predicates, a value of the family its derivation.  The lemmas show
  that the two sketches speak of the same routes and relate them to the score the library computes.
\<close>

section \<open>Idris: route selection\<close>

datatype Route = Denied | Kernel | Service | CosmicSession

record Evidence =
  has_authority :: bool
  is_alive :: bool
  is_bounded :: bool
  cosmic_ready :: bool

definition selectRoute :: "Evidence \<Rightarrow> Route" where
  "selectRoute e =
    (if \<not> has_authority e \<or> \<not> is_bounded e then Denied
     else if cosmic_ready e \<and> is_alive e then CosmicSession
     else if is_alive e then Service
     else Kernel)"

inductive Admitted :: "Route \<Rightarrow> bool" where
  KernelRoute: "Admitted Kernel"
| ServiceRoute: "Admitted Service"
| CosmicRoute: "Admitted CosmicSession"

inductive_simps Admitted_simps [simp]:
  "Admitted Denied" "Admitted Kernel" "Admitted Service" "Admitted CosmicSession"

text \<open>\<open>admit\<close> returns an admission witness or nothing; the witness carries no data.\<close>

fun admit_route :: "Route \<Rightarrow> unit option" where
  "admit_route Denied = None"
| "admit_route Kernel = Some ()"
| "admit_route Service = Some ()"
| "admit_route CosmicSession = Some ()"

definition resolveRoute :: "Evidence \<Rightarrow> Route option" where
  "resolveRoute e =
    (let selected = selectRoute e in
     case admit_route selected of None \<Rightarrow> None | Some _ \<Rightarrow> Some selected)"

lemma admit_route_sound: "admit_route r = Some () \<longleftrightarrow> Admitted r"
  by (cases r) simp_all

lemma resolveRoute_iff:
  "resolveRoute e = Some r \<longleftrightarrow> selectRoute e = r \<and> Admitted r"
  "resolveRoute e = None \<longleftrightarrow> \<not> has_authority e \<or> \<not> is_bounded e"
  by (auto simp: resolveRoute_def selectRoute_def Let_def)

lemma cosmicExample:
  "resolveRoute \<lparr>has_authority = True, is_alive = True, is_bounded = True, cosmic_ready = True\<rparr> = Some CosmicSession"
  by (simp add: resolveRoute_iff selectRoute_def)

section \<open>Agda: capabilities and transitions\<close>

inductive RouteCapability :: "Route \<Rightarrow> bool" where
  kernelCapability: "RouteCapability Kernel"
| serviceCapability: "RouteCapability Service"
| cosmicCapability: "RouteCapability CosmicSession"

inductive_simps RouteCapability_simps [simp]:
  "RouteCapability Denied" "RouteCapability Kernel" "RouteCapability Service" "RouteCapability CosmicSession"

inductive Transition :: "Route \<Rightarrow> Route \<Rightarrow> bool" where
  kernelToService: "Transition Kernel Service"
| serviceToCosmic: "Transition Service CosmicSession"
| cosmicToService: "Transition CosmicSession Service"
| serviceToKernel: "Transition Service Kernel"

text \<open>The admitted routes of one sketch are the capability-bearing routes of the other.\<close>

lemma capability_iff_admitted: "RouteCapability r \<longleftrightarrow> Admitted r"
  by (cases r) simp_all

text \<open>
  The transition system is closed on the capability-bearing routes and connects any two of them; a
  denied route is never entered and never left, which strengthens the two one-step facts of the sketch
  to runs of any length.
\<close>

lemma transition_capabilities: "Transition r r' \<Longrightarrow> RouteCapability r \<and> RouteCapability r'"
  by (induction rule: Transition.induct) simp_all

lemma denied_is_isolated:
  assumes "Transition\<^sup>*\<^sup>* r r'"
  shows "r = Denied \<longleftrightarrow> r' = Denied"
  using assms by (induction rule: rtranclp_induct) (auto dest: transition_capabilities)

lemma capabilities_connected:
  assumes "RouteCapability r" and "RouteCapability r'"
  shows "Transition\<^sup>*\<^sup>* r r'"
proof -
  have "Transition\<^sup>*\<^sup>* r Service" using assms(1)
    by (cases rule: RouteCapability.cases) (auto intro: Transition.intros)
  moreover have "Transition\<^sup>*\<^sup>* Service r'" using assms(2)
    by (cases rule: RouteCapability.cases) (auto intro: Transition.intros)
  ultimately show ?thesis by (rule rtranclp_trans)
qed

section \<open>The score and the selected route\<close>

text \<open>Evidence of the sketch as the numbers \<open>policy.rs\<close> takes: 0 or 1, on an idle route.\<close>

definition idle_evidence :: "Evidence \<Rightarrow> RouteEvidence" where
  "idle_evidence e = \<lparr>authority = Num False (of_bool (has_authority e)), liveness = Num False (of_bool (is_alive e)),
     boundedness = Num False (of_bool (is_bounded e)), pressure = Num False 0\<rparr>"

text \<open>On an idle route the score separates exactly the routes the Idris sketch denies.\<close>

lemma idle_score_separates_denied:
  "\<exists>s v. route_score None (idle_evidence e) = Num s v \<and> (v \<le> 5 / 8 \<longleftrightarrow> resolveRoute e = None)"
proof -
  have ok: "evidence_ok (idle_evidence e)" by (simp add: evidence_ok_def as_array_def idle_evidence_def)
  have units: "unit_value (Num False (of_bool b)) = of_bool b" "unit_value (Num False 0) = 0" for b
    by (simp_all add: unit_value_def clamp01_def)
  obtain s where s: "route_score None (idle_evidence e) = Num s (score_value (idle_evidence e))"
    using route_score_value [OF ok] ..
  let ?i = "ideal_score (of_bool (has_authority e)) (of_bool (is_alive e)) (of_bool (is_bounded e)) 0"
  have "\<bar>score_value (idle_evidence e) - ?i\<bar> \<le> 1 / 2 ^ 49"
    unfolding score_value_def ideal_score_def idle_evidence_def RouteEvidence.simps units
    by (rule order_trans [OF clamp01_lipschitz sum_value_error]) simp_all
  then have near: "\<bar>score_value (idle_evidence e) - ?i\<bar> \<le> 1 / 100" by (rule order_trans) simp
  have low: "?i \<le> 3 / 5" if "\<not> has_authority e \<or> \<not> is_bounded e"
    using that by (auto simp: ideal_score_def clamp01_def)
  have high: "7 / 10 \<le> ?i" if "has_authority e" "is_bounded e"
    using that by (auto simp: ideal_score_def clamp01_def)
  have "score_value (idle_evidence e) \<le> 5 / 8 \<longleftrightarrow> \<not> has_authority e \<or> \<not> is_bounded e"
  proof (cases "has_authority e \<and> is_bounded e")
    case True
    with near high show ?thesis by linarith
  next
    case False
    with near low have "score_value (idle_evidence e) \<le> 5 / 8" by linarith
    with False show ?thesis by simp
  qed
  with s show ?thesis by (auto simp: resolveRoute_iff)
qed

end
