(* ===== verification/Spec2Isabelle.thy ===== *)
theory Spec2Isabelle
  imports Slope_Prelude Absorber Mailbox Quantum_Crest Hermes_Manifold Service_Calculus Slab_Heap Relativistic Spsc_Ring Syscall Kairos Hypermedia Env_Block Capability Executor Bifrost_Bridge
    Akashic_Fs Thermal Storage_Drive Discharge Fabric Wire_Records Aether_Clients Process_Runtime Crest_Constants Route_Policy Socket_Task Source_Tests Service_Guarantee Heap_Arena Waker
    Formal_Route
begin

text \<open>
  Slope is the user-space runtime library of the Arach operating system: the process start-up code,
  the allocator, the local message ring, the executor, and the clients of the services the kernel and
  the Hermes/Crest subsystem offer through shared pages, wire records and system calls.  This
  development models its Rust sources under \<open>src/src\<close>, one theory per component.

  \<^bold>\<open>Conventions.\<close>  Machine integers are words of their width with Rust's \<open>checked_\<close>, \<open>saturating_\<close> and
  \<open>wrapping_\<close> operations defined in \<open>Slope_Prelude\<close>; sizes and indices that cannot overflow are natural
  numbers.  A struct is a record, an enum a datatype, a \<open>Result\<close> the sum type with \<open>Err\<close> and \<open>Ok\<close>, a
  panic or a non-terminating scan the value \<open>None\<close> of an extra option.  \<open>&mut self\<close> methods map the
  record to the updated record and the result.  What the repository only calls is an argument: the
  kernel (a function from the request to the value in \<open>rax\<close> and the objects it writes), the \<open>aether\<close>
  crate's limits, wire objects and pages, time stamp readings, futures, closures and handlers.

  \<^bold>\<open>Interfaces.\<close>  Three locales state the contracts several components share.  \<open>absorber\<close> (theory
  \<open>Absorber\<close>): a mixing step injective in both arguments, whence altering one absorbed word alters
  the root; interpreted by the Crest seal, the service calculus seal and FNV-1a.  \<open>bounded_queue\<close>
  (\<open>Bounded_Queue\<close>): put and get over an abstract list of bounded length, whence every run delivers
  what was accepted in order; interpreted by the mailbox and the message ring.  \<open>block_pool\<close>
  (\<open>Block_Pool\<close>): allocation yields a fresh block and freeing removes exactly one; interpreted by a
  slab page and by a size class.

  \<^bold>\<open>Theories and what they show.\<close>
  \<^item> \<open>Mailbox\<close>, \<open>Quantum_Crest\<close>, \<open>Crest_Constants\<close>, \<open>Repr_C\<close> (\<open>quantum_crest.rs\<close>): the ownership protocol of a one-slot
    cell as an interleaving transition system, the three records with their seals, the shared page.
    Mutual exclusion, no torn or invented value, FIFO channels, seal/verify round trips and
    tamper evidence, \<open>repr(C)\<close> layouts.
  \<^item> \<open>Hermes_Manifold\<close> (\<open>hermes_manifold.rs\<close>): the bring-up state machine; \<open>Online\<close> implies complete,
    sealed evidence, the phase graph, and that bring-up gets there.
  \<^item> \<open>Service_Calculus\<close> (\<open>service_calculus.rs\<close>): admission control with conformal calibration; deadline
    safety, the arrival envelope over every window, rollback, exact delay bounds, the order statistic.
  \<^item> \<open>Service_Guarantee\<close>: what those numbers mean for jobs.  Any server that keeps the curve completes an
    admitted job in time, and the conformal coverage of the calibrator by a leave-one-out count.
  \<^item> \<open>Spooky_Cell\<close> (\<open>sync/entanglement.rs\<close>), \<open>Slab_Heap\<close> (\<open>memory/mod.rs\<close>), \<open>Relativistic\<close>
    (\<open>memory/relativistic.rs\<close>): bounded locking, disjointness and freshness of heap blocks under every
    sequence of calls, exact freeing, epoch resolution of pointers.
  \<^item> \<open>Heap_Arena\<close>: the lock-free page reservation of the heap under every interleaving; it linearises to
    the sequential operation \<open>Slab_Heap\<close> uses.
  \<^item> \<open>Spsc_Ring\<close> (\<open>ipc.rs\<close>): the ring under every interleaving of one producer and one consumer, and its
    whole calls as a queue of capacity 128.
  \<^item> \<open>Syscall\<close> (\<open>lib.rs\<close>), \<open>Kairos\<close> (\<open>kairos.rs\<close>): decoding of results; topology validation against a
    declarative predicate, fair partitioning, feature negotiation, boot.
  \<^item> \<open>Env_Block\<close> (\<open>env.rs\<close>), \<open>Capability\<close> (\<open>capability.rs\<close>), \<open>Process_Runtime\<close> (\<open>runtime.rs\<close>): the
    entry stack in a byte memory, phase-key lookups, handle parsing, and initialisation as their
    composition with Kairos; the theorem about the composition is at the end of this theory.
  \<^item> \<open>Hypermedia\<close> (\<open>hypermedia.rs\<close>): HTTPS locations, leases, envelopes and the endpoint session; exact
    parsing, no amplification of authority, serialised sessions, the request path end to end.
  \<^item> \<open>Executor\<close> (\<open>executor.rs\<close>): slots and wake bits; exact passes, no lost wake, total correctness of
    the main loop for tasks that make progress, with what each finished task leaves.  \<open>Waker\<close> models the
    raw wakers behind the wake bits and what a waker kept beyond its poll does.
  \<^item> \<open>Bifrost_Bridge\<close> (\<open>bridge.rs\<close>, \<open>net.rs\<close>): DMA descriptors against a device that does anything the
    state words allow; exclusive ownership of a held packet.
  \<^item> \<open>Socket_Task\<close>: the socket's receive future run by the executor, the composition of the two; it
    completes with the device's packet once the device delivers one.
  \<^item> \<open>Float64\<close>, \<open>Route_Policy\<close> (\<open>policy.rs\<close>, \<open>native/slope_policy.f90\<close>): binary64 arithmetic as rounded
    rationals, and the route score over it; its distance from the ideal weighted sum, monotonicity,
    and that the Rust and the Fortran routine compute the same value.
  \<^item> \<open>Formal_Route\<close> (\<open>formal/idris2/SlopeRoute.idr\<close>, \<open>formal/agda/SlopeCapability.agda\<close>): the repository's
    own sketches; they agree with each other, and on an idle route the score separates what they deny.
  \<^item> \<open>Akashic_Fs\<close> (\<open>fs.rs\<close>), \<open>Storage_Drive\<close> (\<open>storage.rs\<close>), \<open>Thermal\<close> (\<open>thermogenesis.rs\<close>,
    \<open>process/tachyon.rs\<close>, \<open>time.rs\<close>), \<open>Discharge\<close> (\<open>signal.rs\<close>), \<open>Fabric\<close> (\<open>fabric.rs\<close>): complete writes, in-order
    block submission, chained zone transitions, handler dispatch, frames inside the stack buffer when
    they fit, joining.
  \<^item> \<open>Wire_Records\<close> (\<open>tuning.rs\<close>, \<open>wayland.rs\<close>, \<open>display.rs\<close>, \<open>input.rs\<close>, \<open>aegis.rs\<close>, \<open>scheduler.rs\<close>,
    \<open>process.rs\<close>, \<open>io.rs\<close>): record validity, layouts and packed words of the thin clients.
  \<^item> \<open>Aether_Clients\<close> (\<open>nexus.rs\<close>, \<open>resonance_plane.rs\<close>, \<open>certificate.rs\<close>): numbered commands over pages
    that may show anything; at most one outstanding, answered once, by a reply that validates.
  \<^item> \<open>Source_Tests\<close>: unit tests of the repository evaluated on the definitions.

  \<^bold>\<open>Loops and bounds.\<close>  Loops over arrays are structural or carry a termination proof.  Scans of raw
  memory and spinning are partial functions with \<open>None\<close> for divergence, and the theorems about them
  state that they return.  The lock's attempt bound is the argument the source passes.  No fuel is
  used elsewhere.

  \<^bold>\<open>Memory model.\<close>  Concurrent components are sequences of atomic steps, one per atomic access or
  exclusive data access in the source; the acquire and release orderings are what makes the data
  accesses between them exclusive, and weaker behaviours are not modelled.

  \<^bold>\<open>Floating point.\<close>  Each operation of the route score is rounded to nearest, ties to even, as Rust
  requires; a contraction of product and sum by the Fortran compiler is not considered.

  \<^bold>\<open>Not modelled.\<close>  \<open>syscalls.rs\<close> and \<open>sync/mod.rs\<close> (re-exports), \<open>build.rs\<close>, the repository's scripts, the inline assembly of the system call and of the counter
  instruction, whose results are arguments.
\<close>

section \<open>Process start\<close>

text \<open>
  What a process can rely on once \<open>ProcessRuntime::initialize\<close> has returned: the arguments, the
  environment as every later lookup and capability reception sees it, the features, and a placement
  of all its work units.
\<close>

definition runtime_ready ::
  "kairos_limits \<Rightarrow> memory \<Rightarrow> bytes list \<Rightarrow> bytes list \<Rightarrow> u64 \<Rightarrow> u64 \<Rightarrow> nat \<Rightarrow> ProcessRuntime \<Rightarrow> bool" where
  "runtime_ready limits m args envs required optional n rt \<longleftrightarrow>
     map_option (map (slice_bytes m)) (argv_collect m (rt_argv rt) 0) = Some args
   \<and> (\<forall>key. map_option (slice_bytes m) (snapshot_get (rt_environment rt) key)
        = map_option (take 65535) (env_lookup (take MAX_ENV_VARS (key_values envs)) key))
   \<and> (\<forall>r v h. right_binding (take MAX_ENV_VARS (key_values envs)) r = Some v \<and> printed_handle h v \<and> h \<noteq> 0
        \<longrightarrow> cap_recv m (rt_environment rt) r = Ok h)
   \<and> feature_set (SYSCALL_BASIC limits) \<union> feature_set required \<subseteq> feature_set (granted_lo (init_features (rt_kairos rt)))
   \<and> feature_set (granted_lo (init_features (rt_kairos rt)))
        \<subseteq> feature_set (SYSCALL_BASIC limits) \<union> feature_set required \<union> feature_set optional
   \<and> fair_partition (init_topology (rt_kairos rt)) n (partition_iter (rt_partition rt))"

lemma printed_handle_received:
  assumes "snapshot_ok m snap kvs" "right_binding (take MAX_ENV_VARS kvs) r = Some v" "printed_handle h v" "h \<noteq> 0"
  shows "cap_recv m snap r = Ok h"
  using assms printed_handle_parse [OF assms(3)] by (simp add: cap_recv_lookup)

lemma runtime_ready_of_run:
  assumes "stack_image m sp args envs" "length args \<le> MAX_ARGV"
    and snap: "snapshot_ok m (rt_environment rt) (key_values envs)" and argv: "rt_argv rt = from_stack m sp"
    and run: "kairos_run limits abi topo required optional st = (st', Inr (rt_kairos rt))"
    and fair: "fair_partition (init_topology (rt_kairos rt)) n (partition_iter (rt_partition rt))"
  shows "runtime_ready limits m args envs required optional n rt"
proof -
  have "map_option (map (slice_bytes m)) (argv_collect m (rt_argv rt) 0) = Some args"
    using argv_collect_from [of m "from_stack m sp" args 0] from_stack_argc [OF assms(1,2)] assms(1) argv
    by (simp add: stack_image_def)
  moreover note abi_negotiate_Ok(1,2) [OF kairos_run_with_Ok(1) [OF run [unfolded kairos_run_def]]]
  ultimately show ?thesis
    using fair snapshot_get_ok [OF snap] printed_handle_received [OF snap]
    by (simp add: runtime_ready_def negotiator_want_def negotiator_require_def negotiator_native_def feature_set_or)
qed



end
